(* ===== verification/Prelude.thy ===== *)
theory Prelude
  imports Main "HOL-Library.Word"
begin

unbundle bit_operations_syntax

text \<open>
  Shared vocabulary of the development.

  The program is compiled for an LP64 little-endian target (x86-64 Linux, the platform of the
  PKGBUILD and of the docker images under \<^verbatim>\<open>docker/\<close>): \<open>char\<close> is 8 bits, \<open>short\<close> 16,
  \<open>int\<close> 32, \<open>long\<close>, \<open>long long\<close>, \<open>size_t\<close> and pointers 64.  Machine words are values of
  type \<^typ>\<open>'w word\<close>; object sizes and indices that count bytes of an existing object are
  natural numbers; \<open>ssize_t\<close> and \<open>int\<close> return codes are integers.

  The theory holds the word types, the value conversions of C that the program uses, the
  little-endian and big-endian byte images of words with their round-trip laws, the contract of a
  fixed-width byte codec as a locale (interpreted here for the widths the program uses), and
  generic list lemmas on overwriting a segment of a buffer.
\<close>

section \<open>Machine types and error codes\<close>

type_synonym byte = "8 word"
type_synonym u16 = "16 word"
type_synonym u32 = "32 word"
type_synonym u64 = "64 word"

text \<open>Facts that rewrite C-level expressions (conversions, byte images, buffer writes).\<close>

named_theorems c_conv \<open>value conversions and byte images of C objects\<close>
named_theorems c_buffer \<open>reads and writes of buffer segments\<close>

text \<open>The \<open>errno\<close> values the program mentions (Linux numbering).\<close>

abbreviation (input) ENOENT :: int where "ENOENT \<equiv> 2"
abbreviation (input) E2BIG :: int where "E2BIG \<equiv> 7"
abbreviation (input) EAGAIN :: int where "EAGAIN \<equiv> 11"
abbreviation (input) EACCES :: int where "EACCES \<equiv> 13"
abbreviation (input) EINVAL :: int where "EINVAL \<equiv> 22"

text \<open>The C conversions to \<open>int\<close> (two's complement) and to \<open>unsigned char\<close>.\<close>

definition c_int :: "'a::len word \<Rightarrow> int" where
  "c_int w = sint (ucast w :: u32)"

definition int_to_u64 :: "int \<Rightarrow> u64" where
  "int_to_u64 i = word_of_int i"

lemma c_int_of_nat_small [c_conv]:
  "n < 2 ^ 31 \<Longrightarrow> LENGTH('a::len) \<ge> 32 \<Longrightarrow> c_int (of_nat n :: 'a word) = int n"
proof -
  assume n: "n < 2 ^ 31" and len: "LENGTH('a) \<ge> 32"
  have "(ucast (of_nat n :: 'a word) :: u32) = of_nat n"
    using len by (simp add: unsigned_of_nat word_of_nat_eq_iff take_bit_take_bit min_absorb1)
  then show ?thesis
    using n by (simp add: c_int_def signed_of_nat signed_take_bit_int_eq_self)
qed

section \<open>Byte images of words\<close>

text \<open>
  \<open>le_bytes n w\<close> is what the first \<open>n\<close> bytes of the object holding \<open>w\<close> contain on a
  little-endian machine; \<open>le_word\<close> reads such bytes back.  \<open>be_word\<close> reads them in network
  order.
\<close>

definition le_bytes :: "nat \<Rightarrow> 'a::len word \<Rightarrow> byte list" where
  "le_bytes n w = map (\<lambda>i. ucast (drop_bit (8 * i) w)) [0..<n]"

primrec le_word :: "byte list \<Rightarrow> 'a::len word" where
  "le_word [] = 0"
| "le_word (b # bs) = ucast b OR push_bit 8 (le_word bs)"

definition be_word :: "byte list \<Rightarrow> 'a::len word" where
  "be_word bs = le_word (rev bs)"

lemma length_le_bytes [simp]: "length (le_bytes n w) = n"
  by (simp add: le_bytes_def)

lemma nth_le_bytes: "i < n \<Longrightarrow> le_bytes n w ! i = ucast (drop_bit (8 * i) w)"
  by (simp add: le_bytes_def)

lemma take_le_bytes [c_conv]: "m \<le> n \<Longrightarrow> take m (le_bytes n w) = le_bytes m w"
  by (simp add: le_bytes_def take_map)

lemma bit_le_word:
  "bit (le_word bs :: 'a::len word) k \<longleftrightarrow>
     k < LENGTH('a) \<and> k div 8 < length bs \<and> bit (bs ! (k div 8)) (k mod 8)"
proof (induction bs arbitrary: k)
  case Nil
  then show ?case by simp
next
  case (Cons b bs)
  show ?case
  proof (cases "k < 8")
    case True
    then show ?thesis
      by (auto simp: bit_or_iff bit_ucast_iff bit_push_bit_iff)
  next
    case False
    then have "k div 8 = Suc ((k - 8) div 8)" and "k mod 8 = (k - 8) mod 8"
      by (auto simp: le_div_geq le_mod_geq)
    with False show ?thesis
      by (auto simp: bit_or_iff bit_ucast_iff bit_push_bit_iff Cons.IH dest: bit_imp_le_length)
  qed
qed

lemma le_word_le_bytes [c_conv]:
  assumes "LENGTH('a::len) \<le> 8 * n"
  shows "le_word (le_bytes n (w :: 'a word)) = w"
proof (rule bit_word_eqI)
  fix k assume k: "k < LENGTH('a)"
  with assms have "k div 8 < n" by auto
  then show "bit (le_word (le_bytes n w) :: 'a word) k = bit w k"
    using k by (auto simp: bit_le_word nth_le_bytes bit_ucast_iff bit_drop_bit_eq)
qed

lemma le_bytes_le_word [c_conv]:
  assumes "length bs = n" and "8 * n \<le> LENGTH('a::len)"
  shows "le_bytes n (le_word bs :: 'a word) = bs"
proof (rule nth_equalityI)
  show "length (le_bytes n (le_word bs :: 'a word)) = length bs"
    using assms(1) by simp
next
  fix i assume "i < length (le_bytes n (le_word bs :: 'a word))"
  then have i: "i < n" by simp
  show "le_bytes n (le_word bs :: 'a word) ! i = bs ! i"
  proof (rule bit_word_eqI)
    fix k assume "k < LENGTH(8)"
    then have k: "k < 8" by simp
    with i assms have "8 * i + k < LENGTH('a)" by auto
    moreover from k have "(8 * i + k) div 8 = i" and "(8 * i + k) mod 8 = k" by auto
    ultimately show "bit (le_bytes n (le_word bs :: 'a word) ! i) k = bit (bs ! i) k"
      using i k assms(1)
      by (simp add: nth_le_bytes bit_ucast_iff bit_drop_bit_eq bit_le_word add.commute)
  qed
qed

text \<open>The byte image of a truncated word is a prefix of the image of the word.\<close>

lemma le_bytes_ucast [c_conv]:
  assumes "8 * n \<le> LENGTH('b::len)"
  shows "le_bytes n (ucast (w :: 'a::len word) :: 'b word) = le_bytes n w"
proof (rule nth_equalityI)
  fix i assume "i < length (le_bytes n (ucast w :: 'b word))"
  then have i: "i < n" by simp
  have "(ucast (drop_bit (8 * i) (ucast w :: 'b word)) :: byte) = ucast (drop_bit (8 * i) w)"
  proof (rule bit_word_eqI)
    fix k assume "k < LENGTH(8)"
    then have "8 * i + k < LENGTH('b)" using i assms by auto
    then show "bit (ucast (drop_bit (8 * i) (ucast w :: 'b word)) :: byte) k
        = bit (ucast (drop_bit (8 * i) w) :: byte) k"
      by (auto simp: bit_ucast_iff bit_drop_bit_eq dest: bit_imp_le_length)
  qed
  then show "le_bytes n (ucast w :: 'b word) ! i = le_bytes n w ! i"
    using i by (simp add: nth_le_bytes)
qed simp

section \<open>Fixed-width codecs\<close>

text \<open>
  The contract between the serialiser and the values it stores: every value has an image of a
  fixed number of bytes, and reading an image gives the value back.  The lemmas of the locale are
  about values stored one after the other, which is how every message of the program is laid out.
\<close>

locale byte_codec =
  fixes width :: nat
    and enc :: "'w \<Rightarrow> byte list"
    and dec :: "byte list \<Rightarrow> 'w"
  assumes enc_length: "length (enc w) = width"
    and dec_enc: "dec (enc w) = w"
    and enc_dec: "length bs = width \<Longrightarrow> enc (dec bs) = bs"
begin

lemma enc_inject: "enc v = enc w \<longleftrightarrow> v = w"
  by (metis dec_enc)

lemma dec_prefix: "dec (take width (enc w @ bs)) = w"
  by (simp add: enc_length dec_enc)

lemma rest_suffix: "drop width (enc w @ bs) = bs"
  by (simp add: enc_length)

lemma dec_inject:
  "length bs = width \<Longrightarrow> length cs = width \<Longrightarrow> dec bs = dec cs \<longleftrightarrow> bs = cs"
  by (metis enc_dec)

end

interpretation codec1: byte_codec 1 "le_bytes 1 :: byte \<Rightarrow> _" le_word
  by unfold_locales (simp_all add: c_conv)

interpretation codec2: byte_codec 2 "le_bytes 2 :: u16 \<Rightarrow> _" le_word
  by unfold_locales (simp_all add: c_conv)

interpretation codec4: byte_codec 4 "le_bytes 4 :: u32 \<Rightarrow> _" le_word
  by unfold_locales (simp_all add: c_conv)

interpretation codec8: byte_codec 8 "le_bytes 8 :: u64 \<Rightarrow> _" le_word
  by unfold_locales (simp_all add: c_conv)

lemma le_bytes_1 [c_conv]: "le_bytes (Suc 0) w = [ucast w]"
  by (simp add: le_bytes_def)

lemma le_word_byte [c_conv]: "(le_word [b] :: byte) = b"
  by simp

section \<open>Buffer segments\<close>

text \<open>
  \<open>overwrite buf off bs\<close> is the buffer after \<open>memcpy(buf + off, bs, length bs)\<close>; the callers
  check that the segment lies within the buffer.
\<close>

definition overwrite :: "'a list \<Rightarrow> nat \<Rightarrow> 'a list \<Rightarrow> 'a list" where
  "overwrite buf off bs = take off buf @ bs @ drop (off + length bs) buf"

lemma length_overwrite [simp]:
  "off + length bs \<le> length buf \<Longrightarrow> length (overwrite buf off bs) = length buf"
  by (simp add: overwrite_def)

lemma overwrite_Nil [simp]: "off \<le> length buf \<Longrightarrow> overwrite buf off [] = buf"
  by (simp add: overwrite_def)

lemma overwrite_0 [c_buffer]: "overwrite buf 0 bs = bs @ drop (length bs) buf"
  by (simp add: overwrite_def)

lemma overwrite_append [c_buffer]:
  "off + length bs \<le> length buf \<Longrightarrow>
   overwrite (overwrite buf off bs) (off + length bs) cs = overwrite buf off (bs @ cs)"
  by (simp add: overwrite_def ac_simps)

lemma take_overwrite [c_buffer]:
  "n \<le> off \<Longrightarrow> off \<le> length buf \<Longrightarrow> take n (overwrite buf off bs) = take n buf"
  by (simp add: overwrite_def min_def)

lemma drop_overwrite [c_buffer]:
  "off + length bs \<le> n \<Longrightarrow> n \<le> length buf \<Longrightarrow> drop n (overwrite buf off bs) = drop n buf"
  by (simp add: overwrite_def)

lemma segment_overwrite [c_buffer]:
  "off \<le> length buf \<Longrightarrow> take (length bs) (drop off (overwrite buf off bs)) = bs"
  by (simp add: overwrite_def)

lemma nth_overwrite:
  "off + length bs \<le> length buf \<Longrightarrow> i < length buf \<Longrightarrow>
   overwrite buf off bs ! i =
     (if i < off then buf ! i else if i < off + length bs then bs ! (i - off) else buf ! i)"
  by (auto simp: overwrite_def nth_append min_def)

end
