(* ===== verification/Strutils.thy ===== *)
theory Strutils
  imports Prelude
begin

text \<open>
  The string helpers of \<^verbatim>\<open>src/common/strutils.c\<close>.

  A C string argument is the list of its characters before the terminating NUL; a destination
  array is the list of all its elements.  A function that writes through a pointer returns the
  array after the call.  \<^term>\<open>None\<close> is a write outside the destination array (undefined
  behaviour in C), so a theorem whose conclusion is \<open>= Some \<dots>\<close> includes memory safety.
  \<open>strtoul\<close> and \<open>tolower\<close> follow the C standard in the \<open>"C"\<close> locale, the only one the
  daemon runs in.
\<close>

section \<open>C strings in arrays\<close>

abbreviation NUL :: char where "NUL \<equiv> CHR 0x00"

definition cstr :: "char list \<Rightarrow> string" where
  "cstr buf = takeWhile (\<lambda>c. c \<noteq> NUL) buf"

definition terminated :: "char list \<Rightarrow> bool" where
  "terminated buf \<longleftrightarrow> NUL \<in> set buf"

definition nul_free :: "string \<Rightarrow> bool" where
  "nul_free s \<longleftrightarrow> NUL \<notin> set s"

lemma cstr_append_NUL [simp]: "nul_free s \<Longrightarrow> cstr (s @ NUL # rest) = s"
  by (induction s) (auto simp: cstr_def nul_free_def)

lemma nul_free_cstr [simp]: "nul_free (cstr buf)"
  by (auto simp: cstr_def nul_free_def dest: set_takeWhileD)

lemma nul_free_take [simp]: "nul_free s \<Longrightarrow> nul_free (take n s)"
  by (auto simp: nul_free_def dest: in_set_takeD)

lemma nul_free_drop [simp]: "nul_free s \<Longrightarrow> nul_free (drop n s)"
  by (auto simp: nul_free_def dest: in_set_dropD)

lemma nul_free_Nil [simp]: "nul_free []"
  by (simp add: nul_free_def)

lemma nul_free_append [simp]: "nul_free (s @ t) \<longleftrightarrow> nul_free s \<and> nul_free t"
  by (auto simp: nul_free_def)

lemma nul_free_Cons [simp]: "nul_free (c # s) \<longleftrightarrow> c \<noteq> NUL \<and> nul_free s"
  by (auto simp: nul_free_def)

lemma cstr_length_terminated: "terminated buf \<Longrightarrow> length (cstr buf) < length buf"
  by (induction buf) (auto simp: cstr_def terminated_def)

lemma cstr_take_terminated: "terminated (take n buf) \<Longrightarrow> cstr (take n buf) = cstr buf"
proof -
  assume "terminated (take n buf)"
  then have "takeWhile (\<lambda>c. c \<noteq> NUL) (take n buf @ drop n buf) = takeWhile (\<lambda>c. c \<noteq> NUL) (take n buf)"
    by (intro takeWhile_append1 [of NUL]) (simp_all add: terminated_def)
  then show ?thesis by (simp add: cstr_def)
qed

section \<open>Bounded copies\<close>

text \<open>The loop \<open>while(i-- && (*d++ = *src++));\<close>, stopping after the NUL or after \<open>i\<close> writes.\<close>

fun copy_loop :: "char list \<Rightarrow> string \<Rightarrow> nat \<Rightarrow> char list option" where
  "copy_loop dst src 0 = Some dst"
| "copy_loop [] src (Suc i) = None"
| "copy_loop (d # dst) [] (Suc i) = Some (NUL # dst)"
| "copy_loop (d # dst) (c # src) (Suc i) = map_option ((#) c) (copy_loop dst src i)"

text \<open>A single element write \<open>dst[i] = c\<close>.\<close>

definition put_char :: "char list \<Rightarrow> nat \<Rightarrow> char \<Rightarrow> char list option" where
  "put_char dst i c = (if i < length dst then Some (dst[i := c]) else None)"

definition strscpy :: "char list \<Rightarrow> string \<Rightarrow> nat \<Rightarrow> (int \<times> char list) option" where
  "strscpy dst src dstlen =
     (let srclen = length src in
      case copy_loop dst src dstlen of None \<Rightarrow> None
      | Some dst1 \<Rightarrow>
          if srclen \<ge> dstlen
          then (if dstlen = 0 then None
                else map_option (\<lambda>d. (- E2BIG, d)) (put_char dst1 (dstlen - 1) NUL))
          else Some (int srclen, dst1))"

definition strsncpy :: "char list \<Rightarrow> string \<Rightarrow> nat \<Rightarrow> nat \<Rightarrow> (int \<times> char list) option" where
  "strsncpy dst src dstlen n =
     (let srclen = length src in
      case copy_loop dst src (min dstlen n) of None \<Rightarrow> None
      | Some dst1 \<Rightarrow>
          if n \<ge> dstlen
          then (if dstlen = 0 then None
                else map_option (\<lambda>d. (- E2BIG, d)) (put_char dst1 (dstlen - 1) NUL))
          else if srclen < n then Some (- E2BIG, dst1)
          else map_option (\<lambda>d. (int n, d)) (put_char dst1 n NUL))"

lemma copy_loop_full:
  "i \<le> length src \<Longrightarrow> i \<le> length dst \<Longrightarrow> copy_loop dst src i = Some (take i src @ drop i dst)"
  by (induction dst src i rule: copy_loop.induct) auto

lemma copy_loop_nul:
  "length src < i \<Longrightarrow> length src < length dst \<Longrightarrow>
   copy_loop dst src i = Some (src @ NUL # drop (Suc (length src)) dst)"
  by (induction dst src i rule: copy_loop.induct) auto

text \<open>The outcome of both routines on every branch, as one equation per branch.\<close>

lemma strscpy_fits:
  "length src < dstlen \<Longrightarrow> length src < length dst \<Longrightarrow>
   strscpy dst src dstlen
     = Some (int (length src), src @ NUL # drop (Suc (length src)) dst)"
  by (simp add: strscpy_def Let_def copy_loop_nul)

lemma strscpy_truncates:
  assumes "dstlen \<le> length src" "0 < dstlen" "dstlen \<le> length dst"
  shows "strscpy dst src dstlen = Some (- E2BIG, take (dstlen - 1) src @ NUL # drop dstlen dst)"
proof -
  obtain k where k: "dstlen = Suc k" using assms(2) by (cases dstlen) auto
  with assms have "(take dstlen src @ drop dstlen dst)[k := NUL] = take k src @ NUL # drop dstlen dst"
    by (simp add: list_update_append take_Suc_conv_app_nth)
  with assms k show ?thesis
    by (simp add: strscpy_def Let_def copy_loop_full put_char_def)
qed

lemma strsncpy_fits:
  assumes "n < dstlen" "n \<le> length src" "n < length dst"
  shows "strsncpy dst src dstlen n = Some (int n, take n src @ NUL # drop (Suc n) dst)"
proof -
  have "drop n dst = dst ! n # drop (Suc n) dst"
    using assms(3) by (simp add: Cons_nth_drop_Suc)
  with assms show ?thesis
    by (simp add: strsncpy_def Let_def copy_loop_full put_char_def list_update_append)
qed

lemma strsncpy_short_source:
  assumes "n < dstlen" "length src < n" "length src < length dst"
  shows "strsncpy dst src dstlen n = Some (- E2BIG, src @ NUL # drop (Suc (length src)) dst)"
  using assms by (simp add: strsncpy_def Let_def copy_loop_nul)

lemma strsncpy_truncates:
  assumes "dstlen \<le> n" "dstlen \<le> length src" "0 < dstlen" "dstlen \<le> length dst"
  shows "strsncpy dst src dstlen n
           = Some (- E2BIG, take (dstlen - 1) src @ NUL # drop dstlen dst)"
  using strscpy_truncates [OF assms(2-4)] assms
  by (simp add: strsncpy_def strscpy_def Let_def min_absorb1 copy_loop_full)

lemma strsncpy_short_both:
  assumes "dstlen \<le> n" "length src < dstlen" "dstlen \<le> length dst"
  shows "strsncpy dst src dstlen n
     = Some (- E2BIG, (src @ NUL # drop (Suc (length src)) dst)[dstlen - 1 := NUL])"
  using assms by (simp add: strsncpy_def Let_def min_absorb1 copy_loop_nul put_char_def)

lemmas strscpy_branches = strscpy_fits strscpy_truncates
lemmas strsncpy_branches =
  strsncpy_fits strsncpy_short_source strsncpy_truncates strsncpy_short_both

text \<open>
  What the rest of the program relies on, for either routine: with a destination of at least
  \<open>dstlen\<close> elements (and \<open>dstlen\<close> positive) the call stays inside the array, keeps its length and
  everything from \<open>dstlen\<close> on, and leaves a terminated string in the first \<open>dstlen\<close> elements.
\<close>

locale bounded_copy =
  fixes copy :: "char list \<Rightarrow> string \<Rightarrow> nat \<Rightarrow> (int \<times> char list) option"
  assumes copy_safe:
    "0 < dstlen \<Longrightarrow> dstlen \<le> length dst \<Longrightarrow> nul_free src \<Longrightarrow> \<exists>r dst'. copy dst src dstlen = Some (r, dst')"
    and copy_frame:
    "0 < dstlen \<Longrightarrow> dstlen \<le> length dst \<Longrightarrow> nul_free src \<Longrightarrow> copy dst src dstlen = Some (r, dst') \<Longrightarrow>
       length dst' = length dst \<and> drop dstlen dst' = drop dstlen dst"
    and copy_terminated:
    "0 < dstlen \<Longrightarrow> dstlen \<le> length dst \<Longrightarrow> nul_free src \<Longrightarrow> copy dst src dstlen = Some (r, dst') \<Longrightarrow>
       terminated (take dstlen dst')"
begin

lemma copy_cstr_bound:
  assumes "0 < dstlen" "dstlen \<le> length dst" "nul_free src" "copy dst src dstlen = Some (r, dst')"
  shows "length (cstr dst') < dstlen"
proof -
  have t: "terminated (take dstlen dst')" using copy_terminated [OF assms] .
  then have "cstr dst' = cstr (take dstlen dst')" by (rule cstr_take_terminated [symmetric])
  with cstr_length_terminated [OF t] show ?thesis by auto
qed

end

text \<open>Every outcome of the two routines has this shape.\<close>

definition copied :: "char list \<Rightarrow> string \<Rightarrow> char list" where
  "copied dst p = p @ NUL # drop (Suc (length p)) dst"

lemma copied_frame:
  assumes "length p < dstlen" "dstlen \<le> length dst"
  shows "length (copied dst p) = length dst"
    and "drop dstlen (copied dst p) = drop dstlen dst"
    and "terminated (take dstlen (copied dst p))"
proof -
  obtain k where k: "dstlen = length p + Suc k"
    using assms(1) less_iff_Suc_add by auto
  show "length (copied dst p) = length dst"
    and "drop dstlen (copied dst p) = drop dstlen dst"
    and "terminated (take dstlen (copied dst p))"
    using assms by (simp_all add: copied_def k terminated_def ac_simps)
qed

lemma strscpy_outcome:
  assumes "0 < dstlen" "dstlen \<le> length dst"
  shows "\<exists>r p. strscpy dst src dstlen = Some (r, copied dst p) \<and> length p < dstlen"
proof (cases "length src < dstlen")
  case True
  with assms show ?thesis by (intro exI [of _ "int (length src)"] exI [of _ src])
      (simp add: strscpy_fits copied_def)
next
  case False
  with assms show ?thesis by (intro exI [of _ "- E2BIG"] exI [of _ "take (dstlen - 1) src"])
      (simp add: strscpy_truncates copied_def)
qed

interpretation strscpy_copy: bounded_copy strscpy
proof unfold_locales
  fix dstlen :: nat and dst src :: "char list"
  assume pre: "0 < dstlen" "dstlen \<le> length dst"
  from strscpy_outcome [OF pre, of src] obtain r p
    where o: "strscpy dst src dstlen = Some (r, copied dst p)" "length p < dstlen" by blast
  then show "\<exists>r dst'. strscpy dst src dstlen = Some (r, dst')" by blast
  fix r' dst'
  assume "strscpy dst src dstlen = Some (r', dst')"
  with o have "dst' = copied dst p" by simp
  with copied_frame [OF o(2) pre(2)]
  show "length dst' = length dst \<and> drop dstlen dst' = drop dstlen dst"
    and "terminated (take dstlen dst')" by simp_all
qed

lemma copied_update_frame:
  assumes "length p < dstlen" "dstlen \<le> length dst"
  shows "length ((copied dst p)[dstlen - 1 := NUL]) = length dst"
    and "drop dstlen ((copied dst p)[dstlen - 1 := NUL]) = drop dstlen dst"
    and "terminated (take dstlen ((copied dst p)[dstlen - 1 := NUL]))"
proof -
  note f = copied_frame [OF assms]
  show "length ((copied dst p)[dstlen - 1 := NUL]) = length dst" by (simp add: f)
  show "drop dstlen ((copied dst p)[dstlen - 1 := NUL]) = drop dstlen dst"
    using assms(1) by (simp add: f)
  have "NUL \<in> set ((take dstlen (copied dst p))[dstlen - 1 := NUL])"
    using assms by (intro set_update_memI) (simp add: f)
  then show "terminated (take dstlen ((copied dst p)[dstlen - 1 := NUL]))"
    by (simp add: terminated_def take_update_swap)
qed

lemma strsncpy_outcome:
  assumes "0 < dstlen" "dstlen \<le> length dst"
  shows "\<exists>r dst'. strsncpy dst src dstlen n = Some (r, dst') \<and> length dst' = length dst \<and>
      drop dstlen dst' = drop dstlen dst \<and> terminated (take dstlen dst')"
proof -
  consider (fits) "n < dstlen" "n \<le> length src" | (short) "n < dstlen" "length src < n"
    | (trunc) "dstlen \<le> n" "dstlen \<le> length src" | (both) "dstlen \<le> n" "length src < dstlen"
    by linarith
  then show ?thesis
  proof cases
    case fits
    with assms copied_frame [of "take n src" dstlen dst] show ?thesis
      by (simp add: strsncpy_fits copied_def)
  next
    case short
    with assms copied_frame [of src dstlen dst] show ?thesis
      by (simp add: strsncpy_short_source copied_def)
  next
    case trunc
    with assms copied_frame [of "take (dstlen - 1) src" dstlen dst] show ?thesis
      by (simp add: strsncpy_truncates copied_def)
  next
    case both
    with assms copied_update_frame [of src dstlen dst] show ?thesis
      by (simp add: strsncpy_short_both copied_def)
  qed
qed

interpretation strsncpy_copy: bounded_copy "\<lambda>dst src dstlen. strsncpy dst src dstlen n" for n
proof unfold_locales
  fix dstlen :: nat and dst src :: "char list"
  assume pre: "0 < dstlen" "dstlen \<le> length dst"
  note o = strsncpy_outcome [OF pre, of src n]
  then show "\<exists>r dst'. strsncpy dst src dstlen n = Some (r, dst')" by blast
  fix r' dst'
  assume "strsncpy dst src dstlen n = Some (r', dst')"
  with o show "length dst' = length dst \<and> drop dstlen dst' = drop dstlen dst"
    and "terminated (take dstlen dst')" by auto
qed

section \<open>Case folding and numbers\<close>

definition tolower :: "char \<Rightarrow> char" where
  "tolower c = (if 65 \<le> (of_char c :: nat) \<and> (of_char c :: nat) \<le> 90
                then char_of ((of_char c :: nat) + 32) else c)"

text \<open>\<open>strtolower\<close> rewrites the string in place, up to the NUL.\<close>

definition strtolower :: "string \<Rightarrow> string" where
  "strtolower s = map tolower s"

definition isspace :: "char \<Rightarrow> bool" where
  "isspace c \<longleftrightarrow> c = CHR '' '' \<or> (9 \<le> (of_char c :: nat) \<and> (of_char c :: nat) \<le> 13)"

definition isdigit :: "char \<Rightarrow> bool" where
  "isdigit c \<longleftrightarrow> 48 \<le> (of_char c :: nat) \<and> (of_char c :: nat) \<le> 57"

definition digit_val :: "char \<Rightarrow> nat" where
  "digit_val c = of_char c - 48"

definition digits_val :: "string \<Rightarrow> nat" where
  "digits_val ds = foldl (\<lambda>acc c. 10 * acc + digit_val c) 0 ds"

text \<open>
  \<open>strtoul(s, &endp, 10)\<close>: the value and the string at \<open>endp\<close>.  Out of range gives
  \<open>ULONG_MAX\<close>; a minus sign negates in the unsigned type.
\<close>

definition strtoul :: "string \<Rightarrow> u64 \<times> string" where
  "strtoul s =
     (let s1 = dropWhile isspace s;
          neg = (s1 \<noteq> [] \<and> hd s1 = CHR ''-'');
          s2 = (if s1 \<noteq> [] \<and> (hd s1 = CHR ''-'' \<or> hd s1 = CHR ''+'') then tl s1 else s1);
          ds = takeWhile isdigit s2;
          v = digits_val ds
      in if ds = [] then (0, s)
         else (if 2 ^ 64 \<le> v then - 1 else if neg then - of_nat v else of_nat v,
               dropWhile isdigit s2))"

text \<open>The range check on binary numbers, for evaluation.\<close>

lemma strtoul_code [code]:
  "strtoul s =
     (let s1 = dropWhile isspace s;
          neg = (s1 \<noteq> [] \<and> hd s1 = CHR ''-'');
          s2 = (if s1 \<noteq> [] \<and> (hd s1 = CHR ''-'' \<or> hd s1 = CHR ''+'') then tl s1 else s1);
          ds = takeWhile isdigit s2;
          v = digits_val ds
      in if ds = [] then (0, s)
         else (if 2 ^ 64 \<le> int v then - 1 else if neg then - of_nat v else of_nat v, dropWhile isdigit s2))"
proof -
  have range: "2 ^ 64 \<le> int v \<longleftrightarrow> 2 ^ 64 \<le> v" for v :: nat
    by (metis of_nat_le_iff of_nat_numeral of_nat_power)
  show ?thesis unfolding strtoul_def range ..
qed

definition strstoul :: "string \<Rightarrow> u64 \<Rightarrow> int \<times> u64" where
  "strstoul src dst =
     (if src = [] then (- EINVAL, dst)
      else let (v, endp) = strtoul src in if endp \<noteq> [] then (- EINVAL, v) else (0, v))"

definition strstoul_range :: "string \<Rightarrow> u64 \<Rightarrow> u64 \<Rightarrow> u64 \<Rightarrow> int \<times> u64" where
  "strstoul_range src dst low high =
     (let (status, dst') = strstoul src dst
      in if status \<noteq> 0 then (status, dst')
         else (- EINVAL * (if dst' < low \<or> dst' > high then 1 else 0), dst'))"

lemma strstoul_status: "fst (strstoul src dst) = 0 \<or> fst (strstoul src dst) = - EINVAL"
  by (simp add: strstoul_def split: prod.split)

lemma strstoul_range_ok:
  "strstoul_range src dst low high = (0, v) \<Longrightarrow> low \<le> v \<and> v \<le> high"
  by (auto simp: strstoul_range_def not_less split: prod.splits if_splits)

lemma strstoul_range_status:
  "fst (strstoul_range src dst low high) = 0 \<or> fst (strstoul_range src dst low high) = - EINVAL"
  using strstoul_status [of src dst]
  by (auto simp: strstoul_range_def split: prod.splits)

subsection \<open>Decimal output\<close>

text \<open>What \<open>printf("%lu")\<close> writes; \<open>fwrite_ulong_excl\<close> and \<open>fdwrite_ulong\<close> produce it.\<close>

definition digit_char :: "nat \<Rightarrow> char" where
  "digit_char d = char_of (48 + d)"

fun print_nat :: "nat \<Rightarrow> string" where
  "print_nat n = (if n < 10 then [digit_char n] else print_nat (n div 10) @ [digit_char (n mod 10)])"

declare print_nat.simps [simp del]

definition print_int :: "int \<Rightarrow> string" where
  "print_int i = (if i < 0 then CHR ''-'' # print_nat (nat (- i)) else print_nat (nat i))"

definition print_ulong :: "u64 \<Rightarrow> string" where
  "print_ulong w = print_nat (unat w)"

lemma of_char_digit_char: "d < 10 \<Longrightarrow> of_char (digit_char d) = 48 + d"
  by (simp add: digit_char_def)

lemma isdigit_digit_char [simp]: "d < 10 \<Longrightarrow> isdigit (digit_char d)"
  by (simp add: isdigit_def of_char_digit_char)

lemma digit_val_digit_char [simp]: "d < 10 \<Longrightarrow> digit_val (digit_char d) = d"
  by (simp add: digit_val_def of_char_digit_char)

lemma digits_val_snoc: "digits_val (ds @ [c]) = 10 * digits_val ds + digit_val c"
  by (simp add: digits_val_def)

lemma digits_print_nat: "\<forall>c \<in> set (print_nat n). isdigit c"
proof (induction n rule: print_nat.induct)
  case (1 n)
  then show ?case by (subst print_nat.simps) auto
qed

lemma digits_val_print_nat: "digits_val (print_nat n) = n"
proof (induction n rule: print_nat.induct)
  case (1 n)
  show ?case
  proof (cases "n < 10")
    case True
    then show ?thesis by (subst print_nat.simps) (simp add: digits_val_def)
  next
    case False
    with 1 show ?thesis by (subst print_nat.simps) (simp add: digits_val_snoc)
  qed
qed

lemma print_nat_nonempty [simp]: "print_nat n \<noteq> []"
  by (subst print_nat.simps) simp

lemma isdigit_not_sign: "isdigit c \<Longrightarrow> c \<noteq> CHR ''-'' \<and> c \<noteq> CHR ''+'' \<and> \<not> isspace c \<and> c \<noteq> NUL"
  by (auto simp: isdigit_def isspace_def)

lemma strtoul_digits:
  assumes "ds \<noteq> []" and "\<forall>c \<in> set ds. isdigit c" and "digits_val ds < 2 ^ 64"
  shows "strtoul ds = (of_nat (digits_val ds), [])"
proof -
  obtain c cs where ds: "ds = c # cs" using assms(1) by (cases ds) auto
  with assms(2) have "isdigit c" by simp
  with isdigit_not_sign [of c] have "\<not> isspace c" "c \<noteq> CHR ''-''" "c \<noteq> CHR ''+''" by auto
  moreover have "takeWhile isdigit ds = ds" "dropWhile isdigit ds = []"
    using assms(2) by (simp_all add: takeWhile_eq_all_conv dropWhile_eq_Nil_conv)
  ultimately show ?thesis
    using assms(3) by (simp add: strtoul_def Let_def ds)
qed

section \<open>Properties\<close>

text \<open>
  C26: \<open>strscpy\<close> on a destination of at least \<open>dstlen > 0\<close> bytes never leaves the destination, touches
  nothing from \<open>dstlen\<close> on, and leaves a terminated string: the whole source, with its length as the
  result, when source and terminator fit, and otherwise the longest prefix that fits, with
  \<open>-E2BIG\<close>.
\<close>

theorem strscpy_correct:
  assumes "0 < dstlen" and "dstlen \<le> length dst" and "nul_free src"
  shows "\<exists>r dst'. strscpy dst src dstlen = Some (r, dst') \<and>
    length dst' = length dst \<and> drop dstlen dst' = drop dstlen dst \<and> length (cstr dst') < dstlen \<and>
    (if length src < dstlen then r = int (length src) \<and> cstr dst' = src
     else r = - E2BIG \<and> cstr dst' = take (dstlen - 1) src)"
proof -
  have nf: "NUL \<notin> set src" "NUL \<notin> set (take (dstlen - 1) src)"
    using assms(3) by (auto simp: nul_free_def dest: in_set_takeD)
  obtain r dst' where o: "strscpy dst src dstlen = Some (r, dst')"
    using strscpy_copy.copy_safe [OF assms] by blast
  have "if length src < dstlen then r = int (length src) \<and> cstr dst' = src
     else r = - E2BIG \<and> cstr dst' = take (dstlen - 1) src"
    using o strscpy_fits [of src dstlen dst] strscpy_truncates [of dstlen src dst] assms nf
    by (auto simp: cstr_def takeWhile_append takeWhile_eq_all_conv)
  with o strscpy_copy.copy_frame [OF assms o] strscpy_copy.copy_cstr_bound [OF assms o] show ?thesis by blast
qed

theorem strscpy_correct_witness:
  "\<exists>r dst'. strscpy (replicate 4 CHR ''x'') ''abcdef'' 3 = Some (r, dst') \<and>
    length dst' = 4 \<and> r = - E2BIG \<and> cstr dst' = ''ab''"
  using strscpy_correct [of 3 "replicate 4 CHR ''x''" "''abcdef''"] by (auto simp: nul_free_def)

lemma strstoul_digits:
  assumes "ds \<noteq> []" and "\<forall>c \<in> set ds. isdigit c" and "digits_val ds < 2 ^ 64"
  shows "strstoul ds v = (0, of_nat (digits_val ds))"
  using strtoul_digits [OF assms] assms(1) by (simp add: strstoul_def)

lemma strtoul_negative:
  assumes "ds \<noteq> []" and "\<forall>c \<in> set ds. isdigit c" and "digits_val ds < 2 ^ 64"
  shows "strtoul (CHR ''-'' # ds) = (- of_nat (digits_val ds), [])"
proof -
  have tw: "takeWhile isdigit ds = ds" "dropWhile isdigit ds = []"
    using assms(2) by (simp_all add: takeWhile_eq_all_conv dropWhile_eq_Nil_conv)
  show ?thesis using assms(1,3) by (simp add: strtoul_def Let_def isspace_def tw)
qed

text \<open>
  A number that the program prints is read back exactly, for every \<open>unsigned long\<close>; the same
  digits after a minus sign are accepted as well and give the negation modulo \<open>2\<^sup>6\<^sup>4\<close>, so no
  range check that follows can tell \<open>-18446744073709551615\<close> from 1.
\<close>

theorem strstoul_print_ulong:
  "strstoul (print_ulong w) v = (0, w) \<and> strstoul (CHR ''-'' # print_ulong w) v = (0, - w)"
proof -
  have lt: "digits_val (print_ulong w) < 2 ^ 64"
    using unsigned_less [of w, where 'a = nat] by (simp add: print_ulong_def digits_val_print_nat)
  have d: "print_ulong w \<noteq> []" "\<forall>c \<in> set (print_ulong w). isdigit c"
    by (simp_all add: print_ulong_def digits_print_nat)
  show ?thesis
    using strstoul_digits [OF d lt, of v] strtoul_negative [OF d lt]
    by (simp add: strstoul_def) (simp add: print_ulong_def digits_val_print_nat)
qed

end
