(* ===== verification/Format_Dfa.thy ===== *)
theory Format_Dfa
  imports Strutils "HOL-Library.Sublist"
begin

text \<open>
  The automaton of \<^verbatim>\<open>src/common/serialize.c\<close> that recognises one conversion of a \<open>packf\<close> or
  \<open>unpackf\<close> format (\<open>hhd\<close>, \<open>hd\<close>, \<open>d\<close>, \<open>ld\<close>, \<open>lld\<close> and the unsigned five): the state
  table with its flags and edges, the simulation loop, and the mapping of the collected flags to
  the \<open>FMT_*\<close> code.  The main result, \<open>dfa_simulate_prefix\<close>, identifies the loop with the
  obvious table of ten prefixes, for every input string.
\<close>

section \<open>The state table\<close>

abbreviation (input) DFA_ACCEPT :: byte where "DFA_ACCEPT \<equiv> 0x1"
abbreviation (input) DFA_REJECT :: byte where "DFA_REJECT \<equiv> 0x2"
abbreviation (input) DFA_HALF0 :: byte where "DFA_HALF0 \<equiv> 0x4"
abbreviation (input) DFA_HALF1 :: byte where "DFA_HALF1 \<equiv> 0x8"
abbreviation (input) DFA_LONG0 :: byte where "DFA_LONG0 \<equiv> 0x10"
abbreviation (input) DFA_LONG1 :: byte where "DFA_LONG1 \<equiv> 0x20"
abbreviation (input) DFA_SIGNED :: byte where "DFA_SIGNED \<equiv> 0x40"
abbreviation (input) DFA_UNSIGNED :: byte where "DFA_UNSIGNED \<equiv> 0x80"
abbreviation (input) DFA_ANY :: byte where "DFA_ANY \<equiv> 128"

definition DFA_FMTMASK :: byte where
  "DFA_FMTMASK = DFA_HALF0 OR DFA_HALF1 OR DFA_LONG0 OR DFA_LONG1 OR DFA_SIGNED OR DFA_UNSIGNED"

datatype dfa_state =
    dfa_reject | dfa_state_d | dfa_state_u | dfa_state_l1 | dfa_state_l0
  | dfa_state_h1 | dfa_state_h0 | dfa_start

fun dfa_flags :: "dfa_state \<Rightarrow> byte" where
  "dfa_flags dfa_reject = DFA_REJECT"
| "dfa_flags dfa_state_d = DFA_ACCEPT OR DFA_SIGNED"
| "dfa_flags dfa_state_u = DFA_ACCEPT OR DFA_UNSIGNED"
| "dfa_flags dfa_state_l1 = DFA_LONG1"
| "dfa_flags dfa_state_l0 = DFA_LONG0"
| "dfa_flags dfa_state_h1 = DFA_HALF1"
| "dfa_flags dfa_state_h0 = DFA_HALF0"
| "dfa_flags dfa_start = 0"

text \<open>An edge is its label and its end; a zero label has a null end.\<close>

type_synonym dfa_edge = "byte \<times> dfa_state option"

definition char_byte :: "char \<Rightarrow> byte" where
  "char_byte c = of_char c"

fun dfa_edges :: "dfa_state \<Rightarrow> dfa_edge list" where
  "dfa_edges dfa_reject = [(0, None), (0, None), (0, None), (0, None), (0, None)]"
| "dfa_edges dfa_state_d = [(0, None), (0, None), (0, None), (0, None), (0, None)]"
| "dfa_edges dfa_state_u = [(0, None), (0, None), (0, None), (0, None), (0, None)]"
| "dfa_edges dfa_state_l1 =
     [(char_byte (CHR ''d''), Some dfa_state_d), (char_byte (CHR ''u''), Some dfa_state_u),
      (DFA_ANY, Some dfa_reject), (0, None), (0, None)]"
| "dfa_edges dfa_state_l0 =
     [(char_byte (CHR ''d''), Some dfa_state_d), (char_byte (CHR ''u''), Some dfa_state_u),
      (char_byte (CHR ''l''), Some dfa_state_l1), (DFA_ANY, Some dfa_reject), (0, None)]"
| "dfa_edges dfa_state_h1 =
     [(char_byte (CHR ''d''), Some dfa_state_d), (char_byte (CHR ''u''), Some dfa_state_u),
      (DFA_ANY, Some dfa_reject), (0, None), (0, None)]"
| "dfa_edges dfa_state_h0 =
     [(char_byte (CHR ''h''), Some dfa_state_h1), (char_byte (CHR ''d''), Some dfa_state_d),
      (char_byte (CHR ''u''), Some dfa_state_u), (DFA_ANY, Some dfa_reject), (0, None)]"
| "dfa_edges dfa_start =
     [(char_byte (CHR ''h''), Some dfa_state_h0), (char_byte (CHR ''l''), Some dfa_state_l0),
      (char_byte (CHR ''d''), Some dfa_state_d), (char_byte (CHR ''u''), Some dfa_state_u),
      (DFA_ANY, Some dfa_reject)]"

section \<open>The simulation\<close>

definition dfa_edge_match :: "char \<Rightarrow> byte \<Rightarrow> bool" where
  "dfa_edge_match ic ec \<longleftrightarrow> ec = DFA_ANY \<or> char_byte ic = ec"

definition dfa_bitflag_set :: "byte \<Rightarrow> byte \<Rightarrow> bool" where
  "dfa_bitflag_set flags b \<longleftrightarrow> flags AND b \<noteq> 0"

definition dfa_accept :: "byte \<Rightarrow> bool" where
  "dfa_accept flags = dfa_bitflag_set flags DFA_ACCEPT"

definition dfa_flags_to_fmttype :: "byte \<Rightarrow> int" where
  "dfa_flags_to_fmttype flags =
     (if flags AND DFA_FMTMASK \<in>
           {DFA_SIGNED OR DFA_LONG0 OR DFA_LONG1, DFA_SIGNED OR DFA_HALF0 OR DFA_HALF1,
            DFA_SIGNED OR DFA_LONG0, DFA_SIGNED OR DFA_HALF0, DFA_SIGNED,
            DFA_UNSIGNED OR DFA_LONG0 OR DFA_LONG1, DFA_UNSIGNED OR DFA_HALF0 OR DFA_HALF1,
            DFA_UNSIGNED OR DFA_LONG0, DFA_UNSIGNED OR DFA_HALF0, DFA_UNSIGNED}
      then of_bool (dfa_bitflag_set flags DFA_SIGNED) * 2 +
           of_bool (dfa_bitflag_set flags DFA_UNSIGNED) * 7 +
           of_bool (dfa_bitflag_set flags DFA_HALF0) * (- 1) +
           of_bool (dfa_bitflag_set flags DFA_HALF1) * (- 1) +
           of_bool (dfa_bitflag_set flags DFA_LONG0) +
           of_bool (dfa_bitflag_set flags DFA_LONG1)
      else - 1)"

text \<open>The inner \<open>for\<close> loop over the edges of the current state, with the flags it leaves.\<close>

datatype dfa_scan_result =
    Scan_accept | Scan_invalid_path | Scan_moved "dfa_state option" | Scan_no_edge

fun dfa_scan_edges :: "byte \<Rightarrow> dfa_state \<Rightarrow> char \<Rightarrow> dfa_edge list \<Rightarrow> byte \<times> dfa_scan_result" where
  "dfa_scan_edges flags current ic [] = (flags, Scan_no_edge)"
| "dfa_scan_edges flags current ic ((ec, e) # es) =
     (let flags' = flags OR dfa_flags current
      in if dfa_accept flags' then (flags', Scan_accept)
         else if ec = 0 then (flags', Scan_invalid_path)
         else if dfa_edge_match ic ec then (flags', Scan_moved e)
         else dfa_scan_edges flags' current ic es)"

definition dfa_finish :: "byte \<Rightarrow> int" where
  "dfa_finish flags = (if \<not> dfa_accept flags then - 1 else dfa_flags_to_fmttype flags)"

text \<open>
  The outer loop, by recursion on the rest of the string; the end of the list is the NUL, on which
  the loop body runs once more before the loop is left.
\<close>

fun dfa_run :: "dfa_state \<Rightarrow> byte \<Rightarrow> string \<Rightarrow> int" where
  "dfa_run current flags [] =
     (case dfa_scan_edges flags current NUL (dfa_edges current) of
        (flags', Scan_invalid_path) \<Rightarrow> - 1
      | (flags', _) \<Rightarrow> dfa_finish flags')"
| "dfa_run current flags (c # cs) =
     (case dfa_scan_edges flags current c (dfa_edges current) of
        (flags', Scan_accept) \<Rightarrow> dfa_finish flags'
      | (flags', Scan_invalid_path) \<Rightarrow> - 1
      | (flags', Scan_moved (Some next)) \<Rightarrow> dfa_run next flags' cs
      | (flags', Scan_moved None) \<Rightarrow> - 1 \<comment> \<open>null end of a labelled edge: not in the table\<close>
      | (flags', Scan_no_edge) \<Rightarrow> dfa_run current flags' cs)"

definition dfa_simulate :: "string \<Rightarrow> int" where
  "dfa_simulate string = dfa_run dfa_start 0 string"

section \<open>Conversion codes\<close>

datatype fmttype =
    FMT_HHD | FMT_HD | FMT_D | FMT_LD | FMT_LLD
  | FMT_HHU | FMT_HU | FMT_U | FMT_LU | FMT_LLU

instantiation fmttype :: enum
begin

definition enum_fmttype :: "fmttype list" where
  "enum_fmttype = [FMT_HHD, FMT_HD, FMT_D, FMT_LD, FMT_LLD, FMT_HHU, FMT_HU, FMT_U, FMT_LU, FMT_LLU]"

definition enum_all_fmttype :: "(fmttype \<Rightarrow> bool) \<Rightarrow> bool" where
  "enum_all_fmttype P \<longleftrightarrow> list_all P enum_class.enum"

definition enum_ex_fmttype :: "(fmttype \<Rightarrow> bool) \<Rightarrow> bool" where
  "enum_ex_fmttype P \<longleftrightarrow> list_ex P enum_class.enum"

instance
proof
  show "UNIV = set (enum_class.enum :: fmttype list)"
    using fmttype.exhaust by (auto simp: enum_fmttype_def)
  then show "enum_class.enum_all P \<longleftrightarrow> Ball UNIV P" "enum_class.enum_ex P \<longleftrightarrow> Bex UNIV P"
    for P :: "fmttype \<Rightarrow> bool"
    by (simp_all add: enum_all_fmttype_def enum_ex_fmttype_def list_all_iff list_ex_iff)
qed (simp add: enum_fmttype_def)

end

text \<open>The enumeration constant, and the \<open>switch\<close> on an arbitrary code.\<close>

fun fmt_code :: "fmttype \<Rightarrow> int" where
  "fmt_code FMT_HHD = 0" | "fmt_code FMT_HD = 1" | "fmt_code FMT_D = 2"
| "fmt_code FMT_LD = 3" | "fmt_code FMT_LLD = 4" | "fmt_code FMT_HHU = 5"
| "fmt_code FMT_HU = 6" | "fmt_code FMT_U = 7" | "fmt_code FMT_LU = 8" | "fmt_code FMT_LLU = 9"

definition fmt_switch :: "int \<Rightarrow> fmttype option" where
  "fmt_switch k = (if 0 \<le> k \<and> k < 10 then Some (enum_class.enum ! nat k) else None)"

definition dfa_valsize :: "fmttype \<Rightarrow> nat" where
  "dfa_valsize f = [1, 2, 4, 8, 8] ! (nat (fmt_code f) mod 5)"

definition dfa_fmtlen :: "fmttype \<Rightarrow> nat" where
  "dfa_fmtlen f = [3, 2, 1, 2, 3] ! (nat (fmt_code f) mod 5)"

lemma fmt_switch_code [simp]: "fmt_switch (fmt_code f) = Some f"
  by (cases f) (simp_all add: fmt_switch_def enum_fmttype_def)

lemma fmt_switch_SomeD: "fmt_switch k = Some f \<Longrightarrow> k = fmt_code f"
proof -
  assume a: "fmt_switch k = Some f"
  then have "0 \<le> k" "k < 10" by (auto simp: fmt_switch_def split: if_splits)
  then have "k = 0 \<or> k = 1 \<or> k = 2 \<or> k = 3 \<or> k = 4 \<or> k = 5 \<or> k = 6 \<or> k = 7 \<or> k = 8 \<or> k = 9"
    by presburger
  then show "k = fmt_code f"
    using a by (elim disjE) (auto simp: fmt_switch_def enum_fmttype_def)
qed

lemma fmt_switch_negative [simp]: "fmt_switch (- 1) = None"
  by (simp add: fmt_switch_def)

lemma dfa_valsize_cases: "dfa_valsize f \<in> {1, 2, 4, 8}"
  by (cases f) (simp_all add: dfa_valsize_def)

lemma dfa_valsize_pos: "0 < dfa_valsize f" and dfa_valsize_le: "dfa_valsize f \<le> 8"
  using dfa_valsize_cases [of f] by auto

section \<open>The automaton recognises exactly the ten conversions\<close>

text \<open>The text of a conversion, and the reference recogniser: the first conversion that is a prefix.\<close>

fun conv_text :: "fmttype \<Rightarrow> string" where
  "conv_text FMT_HHD = ''hhd''" | "conv_text FMT_HD = ''hd''" | "conv_text FMT_D = ''d''"
| "conv_text FMT_LD = ''ld''" | "conv_text FMT_LLD = ''lld''" | "conv_text FMT_HHU = ''hhu''"
| "conv_text FMT_HU = ''hu''" | "conv_text FMT_U = ''u''" | "conv_text FMT_LU = ''lu''"
| "conv_text FMT_LLU = ''llu''"

definition conv_prefix :: "string \<Rightarrow> int" where
  "conv_prefix s =
     (case find (\<lambda>f. prefix (conv_text f) s) enum_class.enum of None \<Rightarrow> - 1 | Some f \<Rightarrow> fmt_code f)"

lemma length_conv_text [simp]: "length (conv_text f) = dfa_fmtlen f"
  by (cases f) (simp_all add: dfa_fmtlen_def)

lemma unat_char_byte: "unat (char_byte c) = of_char c"
proof -
  have "char_byte c = of_nat (of_char c)" by (simp add: char_byte_def of_nat_of_char)
  then show ?thesis by (simp add: unsigned_of_nat take_bit_eq_mod)
qed

lemma char_byte_inject: "char_byte c = char_byte d \<longleftrightarrow> c = d"
  by (metis unat_char_byte of_char_eq_iff)

lemma dfa_edge_char:
  "dfa_edge_match c (char_byte d) \<longleftrightarrow> char_byte d = DFA_ANY \<or> c = d"
  by (simp add: dfa_edge_match_def char_byte_inject)

lemma dfa_label_facts:
  "char_byte (CHR ''h'') = 0x68" "char_byte (CHR ''l'') = 0x6c"
  "char_byte (CHR ''d'') = 0x64" "char_byte (CHR ''u'') = 0x75"
  by (simp_all add: char_byte_def)

lemma dfa_edge_letter:
  "dfa_edge_match c 0x68 \<longleftrightarrow> c = CHR ''h''" "dfa_edge_match c 0x6c \<longleftrightarrow> c = CHR ''l''"
  "dfa_edge_match c 0x64 \<longleftrightarrow> c = CHR ''d''" "dfa_edge_match c 0x75 \<longleftrightarrow> c = CHR ''u''"
  "dfa_edge_match c DFA_ANY"
  using dfa_edge_char [of c "CHR ''h''"] dfa_edge_char [of c "CHR ''l''"]
    dfa_edge_char [of c "CHR ''d''"] dfa_edge_char [of c "CHR ''u''"]
  by (simp_all add: dfa_label_facts dfa_edge_match_def)

lemmas dfa_eval = dfa_accept_def dfa_bitflag_set_def dfa_finish_def dfa_edge_letter dfa_label_facts

text \<open>One step of the loop, from the flags that are collected on the way to each state.\<close>

lemma dfa_run_reject: "f AND 1 = 0 \<Longrightarrow> dfa_run dfa_reject f s = - 1"
  by (cases s) (simp_all add: dfa_eval bit.conj_disj_distrib2)

lemma dfa_run_final:
  "dfa_run dfa_state_d f s = dfa_flags_to_fmttype (f OR 0x41)"
  "dfa_run dfa_state_u f s = dfa_flags_to_fmttype (f OR 0x81)"
  by (cases s; simp add: dfa_eval bit.conj_disj_distrib2 or_eq_0_iff)+

lemma dfa_fmttype_values:
  "dfa_flags_to_fmttype 0x41 = 2" "dfa_flags_to_fmttype 0x45 = 1" "dfa_flags_to_fmttype 0x4d = 0"
  "dfa_flags_to_fmttype 0x51 = 3" "dfa_flags_to_fmttype 0x71 = 4"
  "dfa_flags_to_fmttype 0x81 = 7" "dfa_flags_to_fmttype 0x85 = 6" "dfa_flags_to_fmttype 0x8d = 5"
  "dfa_flags_to_fmttype 0x91 = 8" "dfa_flags_to_fmttype 0xb1 = 9"
  by (simp_all add: dfa_flags_to_fmttype_def dfa_bitflag_set_def DFA_FMTMASK_def)

lemma dfa_run_h1:
  "dfa_run dfa_state_h1 4 s =
     (if prefix ''d'' s then 0 else if prefix ''u'' s then 5 else - 1)"
  by (cases s) (auto simp: dfa_eval dfa_run_reject dfa_run_final dfa_fmttype_values)

lemma dfa_run_h0:
  "dfa_run dfa_state_h0 0 s =
     (if prefix ''hd'' s then 0 else if prefix ''hu'' s then 5
      else if prefix ''d'' s then 1 else if prefix ''u'' s then 6 else - 1)"
  by (cases s) (auto simp: dfa_eval dfa_run_reject dfa_run_final dfa_fmttype_values dfa_run_h1)

lemma dfa_run_l1:
  "dfa_run dfa_state_l1 16 s =
     (if prefix ''d'' s then 4 else if prefix ''u'' s then 9 else - 1)"
  by (cases s) (auto simp: dfa_eval dfa_run_reject dfa_run_final dfa_fmttype_values)

lemma dfa_run_l0:
  "dfa_run dfa_state_l0 0 s =
     (if prefix ''ld'' s then 4 else if prefix ''lu'' s then 9
      else if prefix ''d'' s then 3 else if prefix ''u'' s then 8 else - 1)"
  by (cases s) (auto simp: dfa_eval dfa_run_reject dfa_run_final dfa_fmttype_values dfa_run_l1)

lemma dfa_simulate_cases:
  "dfa_simulate s =
     (case s of [] \<Rightarrow> - 1
      | c # cs \<Rightarrow> if c = CHR ''h'' then dfa_run dfa_state_h0 0 cs
                 else if c = CHR ''l'' then dfa_run dfa_state_l0 0 cs
                 else if c = CHR ''d'' then 2 else if c = CHR ''u'' then 7 else - 1)"
  by (cases s)
    (auto simp: dfa_simulate_def dfa_eval dfa_run_reject dfa_run_final dfa_fmttype_values)

lemma dfa_simulate_conv [simp]: "dfa_simulate (conv_text f @ rest) = fmt_code f"
  by (cases f) (simp_all add: dfa_simulate_cases dfa_run_h0 dfa_run_l0)

lemma dfa_simulate_no_conv:
  assumes "\<And>f. \<not> prefix (conv_text f) s"
  shows "dfa_simulate s = - 1"
proof (cases s)
  case Nil
  then show ?thesis by (simp add: dfa_simulate_cases)
next
  case (Cons c cs)
  have "c = CHR ''h'' \<Longrightarrow> dfa_run dfa_state_h0 0 cs = - 1"
    using assms [of FMT_HHD] assms [of FMT_HHU] assms [of FMT_HD] assms [of FMT_HU]
    by (simp add: Cons dfa_run_h0)
  moreover have "c = CHR ''l'' \<Longrightarrow> dfa_run dfa_state_l0 0 cs = - 1"
    using assms [of FMT_LLD] assms [of FMT_LLU] assms [of FMT_LD] assms [of FMT_LU]
    by (simp add: Cons dfa_run_l0)
  ultimately show ?thesis
    using assms [of FMT_D] assms [of FMT_U] by (simp add: Cons dfa_simulate_cases)
qed

text \<open>No conversion is a prefix of another, so at most one of them starts a given string.\<close>

lemma conv_text_prefix_free: "prefix (conv_text f) (conv_text g) \<Longrightarrow> f = g"
  by (cases f; cases g; simp)

lemma conv_text_unique: "prefix (conv_text f) s \<Longrightarrow> prefix (conv_text g) s \<Longrightarrow> f = g"
  by (metis conv_text_prefix_free prefix_same_cases)

lemma conv_prefix_conv: "prefix (conv_text f) s \<Longrightarrow> conv_prefix s = fmt_code f"
proof -
  assume f: "prefix (conv_text f) s"
  have "f \<in> set enum_class.enum" by (simp add: UNIV_enum [symmetric])
  with f obtain g where g: "find (\<lambda>f. prefix (conv_text f) s) enum_class.enum = Some g"
    by (metis (no_types, lifting) find_None_iff option.exhaust)
  then have "prefix (conv_text g) s" by (auto simp: find_Some_iff)
  with f have "g = f" by (rule conv_text_unique [symmetric])
  with g show ?thesis by (simp add: conv_prefix_def)
qed

lemma dfa_simulate_prefix: "dfa_simulate s = conv_prefix s"
proof (cases "\<exists>f. prefix (conv_text f) s")
  case True
  then obtain f rest where "s = conv_text f @ rest" by (auto simp: prefix_def)
  then show ?thesis by (simp add: conv_prefix_conv [of f])
next
  case False
  then have "find (\<lambda>f. prefix (conv_text f) s) enum_class.enum = None"
    by (auto simp: find_None_iff)
  with False show ?thesis by (simp add: dfa_simulate_no_conv conv_prefix_def)
qed

text \<open>Conversely a non-negative code comes from one of the ten conversions, as a prefix.\<close>

lemma dfa_simulate_SomeD:
  assumes "fmt_switch (dfa_simulate s) = Some f"
  shows "\<exists>rest. s = conv_text f @ rest"
proof -
  from assms have "conv_prefix s = fmt_code f"
    by (simp add: dfa_simulate_prefix fmt_switch_SomeD)
  then obtain g where g: "find (\<lambda>f. prefix (conv_text f) s) enum_class.enum = Some g"
    and "fmt_code g = fmt_code f"
    by (cases f) (auto simp: conv_prefix_def split: option.splits)
  then have "g = f" by (metis fmt_switch_code option.inject)
  with g have "prefix (conv_text f) s" by (auto simp: find_Some_iff)
  then show ?thesis by (auto simp: prefix_def)
qed

section \<open>Properties\<close>

text \<open>
  C25: the table-driven automaton is equivalent to the reference recogniser on every string: it returns
  the code of the conversion (\<open>hhd\<close> to \<open>llu\<close>) that the string starts with, and \<open>-1\<close> when there is none;
  what follows the conversion does not matter.
\<close>

theorem dfa_simulate_correct:
  "dfa_simulate s = conv_prefix s \<and> dfa_simulate (conv_text f @ rest) = fmt_code f"
  by (metis dfa_simulate_prefix dfa_simulate_conv)

end
