(* ===== verification/Serialize.thy ===== *)
theory Serialize
  imports Format_Dfa
begin

text \<open>
  \<open>packf\<close> and \<open>unpackf\<close> of \<^verbatim>\<open>src/common/serialize.c\<close>.

  Variadic arguments follow the x86-64 calling convention: every integer or pointer argument is one
  64-bit slot and \<open>va_arg(args, int)\<close> reads its low half.  Memory is a map from object numbers to
  the bytes of the object; a pointer is an object and an offset.  \<^term>\<open>None\<close> is undefined
  behaviour: a missing argument, a pointer where an integer is read or the other way round, an
  access outside an object.  A format string is the list of its characters before the NUL.
\<close>

section \<open>Memory and variadic arguments\<close>

type_synonym mem = "nat \<Rightarrow> byte list"

datatype vararg = VWord u64 | VPtr nat nat

definition load :: "mem \<Rightarrow> nat \<Rightarrow> nat \<Rightarrow> nat \<Rightarrow> byte list option" where
  "load m obj off n = (if off + n \<le> length (m obj) then Some (take n (drop off (m obj))) else None)"

definition store :: "mem \<Rightarrow> nat \<Rightarrow> nat \<Rightarrow> byte list \<Rightarrow> mem option" where
  "store m obj off bs =
     (if off + length bs \<le> length (m obj) then Some (m(obj := overwrite (m obj) off bs)) else None)"

text \<open>
  Where \<open>memcpy\<close> reads from in \<open>packf\<close>: the local \<open>union packtype\<close> (its bytes) or the caller's
  array.  The \<open>strip\<close> functions fail on an invalid code and are undefined on a bad argument.
\<close>

datatype source = Packval "byte list" | Pointed nat nat

datatype 'a strip = Strip_undefined | Strip_fail | Strip_ok 'a

fun integral_image :: "fmttype \<Rightarrow> u64 \<Rightarrow> byte list" where
  "integral_image FMT_HHD w = le_bytes 1 (ucast (ucast w :: u32) :: byte)"
| "integral_image FMT_HD w = le_bytes 2 (ucast (ucast w :: u32) :: u16)"
| "integral_image FMT_D w = le_bytes 4 (ucast w :: u32)"
| "integral_image FMT_LD w = le_bytes 8 w"
| "integral_image FMT_LLD w = le_bytes 8 w"
| "integral_image FMT_HHU w = le_bytes 1 (ucast (ucast w :: u32) :: byte)"
| "integral_image FMT_HU w = le_bytes 2 (ucast (ucast w :: u32) :: u16)"
| "integral_image FMT_U w = le_bytes 4 (ucast w :: u32)"
| "integral_image FMT_LU w = le_bytes 8 w"
| "integral_image FMT_LLU w = le_bytes 8 w"

fun valist_strip_integral ::
    "int \<Rightarrow> vararg list \<Rightarrow> (byte list \<times> vararg list \<times> nat \<times> nat) strip" where
  "valist_strip_integral fmttype args =
     (case fmt_switch fmttype of
        None \<Rightarrow> Strip_fail
      | Some f \<Rightarrow>
          (case args of
             VWord w # args' \<Rightarrow> Strip_ok (integral_image f w, args', dfa_valsize f, dfa_fmtlen f)
           | _ \<Rightarrow> Strip_undefined))"

fun valist_strip_pointer ::
    "int \<Rightarrow> vararg list \<Rightarrow> ((nat \<times> nat) \<times> vararg list \<times> nat \<times> nat) strip" where
  "valist_strip_pointer fmttype args =
     (case fmt_switch fmttype of
        None \<Rightarrow> Strip_fail
      | Some f \<Rightarrow>
          (case args of
             VPtr obj off # args' \<Rightarrow> Strip_ok ((obj, off), args', dfa_valsize f, dfa_fmtlen f)
           | _ \<Rightarrow> Strip_undefined))"

text \<open>The optional \<open>*\<close>: the repeat count, the rest of the format and of the arguments.\<close>

definition strip_repeat :: "string \<Rightarrow> vararg list \<Rightarrow> (u32 \<times> string \<times> vararg list) option" where
  "strip_repeat fmt args =
     (if fmt \<noteq> [] \<and> hd fmt = CHR ''*''
      then (case args of VWord w # args' \<Rightarrow> Some (ucast w, tl fmt, args') | _ \<Rightarrow> None)
      else Some (1, fmt, args))"

lemma strip_repeat_shorter: "strip_repeat fmt args = Some (n, fmt', args') \<Longrightarrow> length fmt' \<le> length fmt"
  by (auto simp: strip_repeat_def split: if_splits list.splits vararg.splits)

section \<open>packf\<close>

text \<open>The source address and sizes of one conversion: by value when the count is 1.\<close>

definition packf_source ::
    "u32 \<Rightarrow> int \<Rightarrow> vararg list \<Rightarrow> (source \<times> vararg list \<times> nat \<times> nat) strip" where
  "packf_source nrepeat fmttype args =
     (if nrepeat = 1
      then (case valist_strip_integral fmttype args of
              Strip_ok (bs, rest) \<Rightarrow> Strip_ok (Packval bs, rest)
            | Strip_fail \<Rightarrow> Strip_fail | Strip_undefined \<Rightarrow> Strip_undefined)
      else (case valist_strip_pointer fmttype args of
              Strip_ok ((obj, off), rest) \<Rightarrow> Strip_ok (Pointed obj off, rest)
            | Strip_fail \<Rightarrow> Strip_fail | Strip_undefined \<Rightarrow> Strip_undefined))"

fun read_source :: "mem \<Rightarrow> source \<Rightarrow> nat \<Rightarrow> byte list option" where
  "read_source m (Packval bs) n = (if n \<le> length bs then Some (take n bs) else None)"
| "read_source m (Pointed obj off) n = load m obj off n"

text \<open>
  The loop of \<open>packf\<close>: \<open>nwritten\<close> bytes are in the buffer and \<open>fmt\<close> is what is left of the format.
  The result is the return value and the buffer.  \<open>nbytes\<close> is an \<open>unsigned\<close> product and wraps.
\<close>

function (sequential) packf_loop ::
    "mem \<Rightarrow> byte list \<Rightarrow> nat \<Rightarrow> nat \<Rightarrow> string \<Rightarrow> vararg list \<Rightarrow> (int \<times> byte list) option" where
  "packf_loop m buffer bufsize nwritten [] args = Some (int nwritten, buffer)"
| "packf_loop m buffer bufsize nwritten (c # fmt) args =
     (if c \<noteq> CHR ''%'' then Some (- 1, buffer)
      else case strip_repeat fmt args of
        None \<Rightarrow> None
      | Some (nrepeat, fmt1, args1) \<Rightarrow>
          if nrepeat = 0 then Some (- 1, buffer)
          else case packf_source nrepeat (dfa_simulate fmt1) args1 of
            Strip_undefined \<Rightarrow> None
          | Strip_fail \<Rightarrow> Some (- 1, buffer)
          | Strip_ok (srcaddr, args2, valsize, fmtlen) \<Rightarrow>
              let nbytes = unat (nrepeat * of_nat valsize) in
              if nwritten + nbytes > bufsize then Some (- E2BIG, buffer)
              else case read_source m srcaddr nbytes of
                None \<Rightarrow> None
              | Some bs \<Rightarrow>
                  if nwritten + nbytes \<le> length buffer
                  then packf_loop m (overwrite buffer nwritten bs) bufsize (nwritten + nbytes)
                         (drop fmtlen fmt1) args2
                  else None)"
  by pat_completeness auto
termination
  by (relation "measure (\<lambda>(m, buffer, bufsize, nwritten, fmt, args). length fmt)")
    (auto dest!: strip_repeat_shorter)

definition packf ::
    "mem \<Rightarrow> byte list \<Rightarrow> nat \<Rightarrow> string \<Rightarrow> vararg list \<Rightarrow> (int \<times> byte list) option" where
  "packf m buffer bufsize fmt args = packf_loop m buffer bufsize 0 fmt args"

section \<open>unpackf\<close>

function (sequential) unpackf_loop ::
    "mem \<Rightarrow> byte list \<Rightarrow> nat \<Rightarrow> nat \<Rightarrow> string \<Rightarrow> vararg list \<Rightarrow> (int \<times> mem) option" where
  "unpackf_loop m buffer bufsize nread [] args = Some (int nread, m)"
| "unpackf_loop m buffer bufsize nread (c # fmt) args =
     (if c \<noteq> CHR ''%'' then Some (- 1, m)
      else case strip_repeat fmt args of
        None \<Rightarrow> None
      | Some (nrepeat, fmt1, args1) \<Rightarrow>
          if nrepeat = 0 then Some (- 1, m)
          else case valist_strip_pointer (dfa_simulate fmt1) args1 of
            Strip_undefined \<Rightarrow> None
          | Strip_fail \<Rightarrow> Some (- 1, m)
          | Strip_ok ((obj, off), args2, valsize, fmtlen) \<Rightarrow>
              let nbytes = unat (nrepeat * of_nat valsize) in
              if nread + nbytes > bufsize then Some (- E2BIG, m)
              else if nread + nbytes \<le> length buffer
              then case store m obj off (take nbytes (drop nread buffer)) of
                  None \<Rightarrow> None
                | Some m' \<Rightarrow> unpackf_loop m' buffer bufsize (nread + nbytes) (drop fmtlen fmt1) args2
              else None)"
  by pat_completeness auto
termination
  by (relation "measure (\<lambda>(m, buffer, bufsize, nread, fmt, args). length fmt)")
    (auto dest!: strip_repeat_shorter)

definition unpackf ::
    "mem \<Rightarrow> byte list \<Rightarrow> nat \<Rightarrow> string \<Rightarrow> vararg list \<Rightarrow> (int \<times> mem) option" where
  "unpackf m buffer bufsize fmt args = unpackf_loop m buffer bufsize 0 fmt args"

declare packf_loop.simps(2) [simp del] unpackf_loop.simps(2) [simp del]

section \<open>Safety on arbitrary formats\<close>

text \<open>One iteration either stops with an error code and the buffer as it is, or writes and goes on.\<close>

lemma length_read_source: "read_source m s n = Some bs \<Longrightarrow> length bs = n"
  by (cases s) (auto simp: load_def split: if_splits)

lemma packf_loop_step:
  assumes "packf_loop m buffer bufsize nwritten (c # fmt) args = Some (r, buffer')"
  obtains (error) "r = - 1 \<or> r = - E2BIG" "buffer' = buffer"
  | (step) nrepeat fmt1 args1 srcaddr args2 valsize fmtlen bs where
      "c = CHR ''%''" "strip_repeat fmt args = Some (nrepeat, fmt1, args1)" "nrepeat \<noteq> 0"
      "packf_source nrepeat (dfa_simulate fmt1) args1 = Strip_ok (srcaddr, args2, valsize, fmtlen)"
      "nwritten + unat (nrepeat * of_nat valsize) \<le> bufsize"
      "nwritten + unat (nrepeat * of_nat valsize) \<le> length buffer"
      "read_source m srcaddr (unat (nrepeat * of_nat valsize)) = Some bs"
      "packf_loop m (overwrite buffer nwritten bs) bufsize
         (nwritten + unat (nrepeat * of_nat valsize)) (drop fmtlen fmt1) args2 = Some (r, buffer')"
  using assms
  by (auto simp: packf_loop.simps Let_def not_less
      split: if_splits option.splits strip.splits prod.splits)

lemma unpackf_loop_step:
  assumes "unpackf_loop m buffer bufsize nread (c # fmt) args = Some (r, m')"
  obtains (error) "r = - 1 \<or> r = - E2BIG" "m' = m"
  | (step) nrepeat fmt1 args1 obj off args2 valsize fmtlen m1 where
      "c = CHR ''%''" "strip_repeat fmt args = Some (nrepeat, fmt1, args1)" "nrepeat \<noteq> 0"
      "valist_strip_pointer (dfa_simulate fmt1) args1 = Strip_ok ((obj, off), args2, valsize, fmtlen)"
      "nread + unat (nrepeat * of_nat valsize) \<le> bufsize"
      "nread + unat (nrepeat * of_nat valsize) \<le> length buffer"
      "store m obj off (take (unat (nrepeat * of_nat valsize)) (drop nread buffer)) = Some m1"
      "unpackf_loop m1 buffer bufsize (nread + unat (nrepeat * of_nat valsize)) (drop fmtlen fmt1) args2
         = Some (r, m')"
  using assms
  by (auto simp: unpackf_loop.simps Let_def not_less
      split: if_splits option.splits strip.splits prod.splits simp del: valist_strip_pointer.simps)

text \<open>
  Whatever the format and the arguments: the return value is a byte count within \<open>bufsize\<close>, or one
  of the two error codes, and nothing beyond \<open>bufsize\<close>, or beyond the count on success, is changed.
\<close>

definition pack_safe :: "byte list \<Rightarrow> nat \<Rightarrow> nat \<Rightarrow> int \<Rightarrow> byte list \<Rightarrow> bool" where
  "pack_safe buffer bufsize nwritten r buffer' \<longleftrightarrow>
     length buffer' = length buffer \<and> drop bufsize buffer' = drop bufsize buffer \<and>
     take nwritten buffer' = take nwritten buffer \<and>
     (r = - 1 \<or> r = - E2BIG \<or>
      int nwritten \<le> r \<and> r \<le> int bufsize \<and> drop (nat r) buffer' = drop (nat r) buffer)"

lemma pack_safe_step:
  assumes "pack_safe (overwrite buffer nwritten bs) bufsize (nwritten + length bs) r buffer'"
    and "nwritten + length bs \<le> bufsize" "bufsize \<le> length buffer"
  shows "pack_safe buffer bufsize nwritten r buffer'"
proof -
  have "take nwritten buffer' = take nwritten (take (nwritten + length bs) buffer')"
    by (simp add: min_def)
  also have "\<dots> = take nwritten buffer"
    using assms by (simp add: pack_safe_def min_def c_buffer)
  finally have t: "take nwritten buffer' = take nwritten buffer" .
  have d: "drop k (overwrite buffer nwritten bs) = drop k buffer" if "nwritten + length bs \<le> k" "k \<le> bufsize" for k
    using that assms by (simp add: c_buffer)
  show ?thesis
    using assms t d [of bufsize] d [of "nat r"] by (auto simp: pack_safe_def)
qed

lemma packf_loop_safe:
  assumes "packf_loop m buffer bufsize nwritten fmt args = Some (r, buffer')"
    and "nwritten \<le> bufsize" "bufsize \<le> length buffer"
  shows "pack_safe buffer bufsize nwritten r buffer'"
  using assms
proof (induction m buffer bufsize nwritten fmt args rule: packf_loop.induct)
  case (1 m buffer bufsize nwritten args)
  then show ?case by (simp add: pack_safe_def)
next
  case (2 m buffer bufsize nwritten c fmt args)
  from "2.prems"(1) show ?case
  proof (cases rule: packf_loop_step)
    case error
    then show ?thesis by (auto simp: pack_safe_def)
  next
    case (step nrepeat fmt1 args1 srcaddr args2 valsize fmtlen bs)
    note [simp] = length_read_source [OF step(7)]
    from "2.IH" [OF _ step(2) refl _ _ step(4) refl refl _ refl _ step(7) _ step(8)] step "2.prems"
    have "pack_safe (overwrite buffer nwritten bs) bufsize (nwritten + length bs) r buffer'"
      by simp
    then show ?thesis by (rule pack_safe_step) (use step "2.prems" in simp_all)
  qed
qed

section \<open>Formats made of conversions\<close>

text \<open>
  The formats that occur are sequences of conversions.  An \<open>item\<close> is a conversion with what it packs,
  a \<open>dest\<close> one with the place it is unpacked to; both render to format text and argument slots.
\<close>

datatype item = Scalar fmttype u64 | Array fmttype u32 nat nat

fun item_text :: "item \<Rightarrow> string" where
  "item_text (Scalar f w) = CHR ''%'' # conv_text f"
| "item_text (Array f n obj off) = CHR ''%'' # CHR ''*'' # conv_text f"

fun item_args :: "item \<Rightarrow> vararg list" where
  "item_args (Scalar f w) = [VWord w]"
| "item_args (Array f n obj off) = [VWord (ucast n), VPtr obj off]"

fun item_bytes :: "mem \<Rightarrow> item \<Rightarrow> byte list" where
  "item_bytes m (Scalar f w) = integral_image f w"
| "item_bytes m (Array f n obj off) = take (unat n * dfa_valsize f) (drop off (m obj))"

text \<open>An array conversion has a count other than 0 and 1, does not wrap, and lies in its object.\<close>

fun item_ok :: "mem \<Rightarrow> item \<Rightarrow> bool" where
  "item_ok m (Scalar f w) = True"
| "item_ok m (Array f n obj off) =
     (n \<noteq> 0 \<and> n \<noteq> 1 \<and> unat n * dfa_valsize f < 2 ^ 32 \<and> off + unat n * dfa_valsize f \<le> length (m obj))"

datatype dest = Dest fmttype "u32 option" nat nat

fun dest_text :: "dest \<Rightarrow> string" where
  "dest_text (Dest f None obj off) = CHR ''%'' # conv_text f"
| "dest_text (Dest f (Some n) obj off) = CHR ''%'' # CHR ''*'' # conv_text f"

fun dest_args :: "dest \<Rightarrow> vararg list" where
  "dest_args (Dest f None obj off) = [VPtr obj off]"
| "dest_args (Dest f (Some n) obj off) = [VWord (ucast n), VPtr obj off]"

fun dest_size :: "dest \<Rightarrow> nat" where
  "dest_size (Dest f None obj off) = dfa_valsize f"
| "dest_size (Dest f (Some n) obj off) = unat n * dfa_valsize f"

fun dest_ok :: "dest \<Rightarrow> bool" where
  "dest_ok (Dest f None obj off) = True"
| "dest_ok (Dest f (Some n) obj off) = (n \<noteq> 0 \<and> unat n * dfa_valsize f < 2 ^ 32)"

fun dest_store :: "mem \<Rightarrow> dest \<Rightarrow> byte list \<Rightarrow> mem option" where
  "dest_store m (Dest f k obj off) bs = store m obj off bs"

fun store_all :: "mem \<Rightarrow> dest list \<Rightarrow> byte list list \<Rightarrow> mem option" where
  "store_all m (d # ds) (bs # bss) =
     (case dest_store m d bs of None \<Rightarrow> None | Some m' \<Rightarrow> store_all m' ds bss)"
| "store_all m _ _ = Some m"

abbreviation items_text :: "item list \<Rightarrow> string" where
  "items_text its \<equiv> concat (map item_text its)"
abbreviation items_args :: "item list \<Rightarrow> vararg list" where
  "items_args its \<equiv> concat (map item_args its)"
abbreviation items_bytes :: "mem \<Rightarrow> item list \<Rightarrow> byte list" where
  "items_bytes m its \<equiv> concat (map (item_bytes m) its)"
abbreviation dests_text :: "dest list \<Rightarrow> string" where
  "dests_text ds \<equiv> concat (map dest_text ds)"
abbreviation dests_args :: "dest list \<Rightarrow> vararg list" where
  "dests_args ds \<equiv> concat (map dest_args ds)"

lemma ucast_int_to_byte: "(ucast (ucast (w :: u64) :: u32) :: byte) = ucast w"
  by (rule bit_word_eqI) (simp add: bit_ucast_iff)

lemma integral_image_le_bytes: "integral_image f w = le_bytes (dfa_valsize f) w"
  by (cases f) (simp_all add: dfa_valsize_def c_conv ucast_int_to_byte)

lemma length_integral_image [simp]: "length (integral_image f w) = dfa_valsize f"
  by (simp add: integral_image_le_bytes)

lemma hd_conv_text: "conv_text f \<noteq> []" "hd (conv_text f) \<noteq> CHR ''*''"
  by (cases f; simp)+

lemma strip_repeat_none: "strip_repeat (conv_text f @ fmt) args = Some (1, conv_text f @ fmt, args)"
  using hd_conv_text [of f] by (simp add: strip_repeat_def)

lemma strip_repeat_star:
  "strip_repeat (CHR ''*'' # fmt) (VWord (ucast (n :: u32)) # args) = Some (n, fmt, args)"
  by (simp add: strip_repeat_def) (rule bit_word_eqI, simp add: bit_ucast_iff)

lemma unat_repeat_size:
  "unat (n :: u32) * dfa_valsize f < 2 ^ 32 \<Longrightarrow> unat (n * of_nat (dfa_valsize f)) = unat n * dfa_valsize f"
  using dfa_valsize_le [of f] by (simp add: unat_word_ariths unsigned_of_nat take_bit_eq_mod)

lemma unat_valsize: "unat (of_nat (dfa_valsize f) :: u32) = dfa_valsize f"
  using dfa_valsize_le [of f] by (simp add: unsigned_of_nat take_bit_eq_mod)

lemmas conversion_step =
  strip_repeat_none strip_repeat_star unat_repeat_size unat_valsize packf_source_def Let_def

lemma packf_loop_item:
  assumes "item_ok m it"
  shows "packf_loop m buffer bufsize nwritten (item_text it @ fmt) (item_args it @ args) =
    (let n = length (item_bytes m it) in
     if nwritten + n > bufsize then Some (- E2BIG, buffer)
     else if nwritten + n \<le> length buffer
     then packf_loop m (overwrite buffer nwritten (item_bytes m it)) bufsize (nwritten + n) fmt args
     else None)"
proof (cases it)
  case (Scalar f w)
  then show ?thesis by (simp add: packf_loop.simps conversion_step)
next
  case (Array f n obj off)
  with assms have "length (item_bytes m it) = unat n * dfa_valsize f" by (auto simp: min_def)
  with assms Array show ?thesis
    by (simp add: packf_loop.simps conversion_step load_def)
qed

lemma unpackf_loop_dest:
  assumes "dest_ok d"
  shows "unpackf_loop m buffer bufsize nread (dest_text d @ fmt) (dest_args d @ args) =
    (if nread + dest_size d > bufsize then Some (- E2BIG, m)
     else if nread + dest_size d \<le> length buffer
     then case dest_store m d (take (dest_size d) (drop nread buffer)) of None \<Rightarrow> None
       | Some m' \<Rightarrow> unpackf_loop m' buffer bufsize (nread + dest_size d) fmt args
     else None)"
proof -
  obtain f k obj off where d: "d = Dest f k obj off" by (cases d)
  show ?thesis
    using assms by (cases k) (simp_all add: d unpackf_loop.simps conversion_step split: option.split)
qed

lemma packf_loop_items:
  assumes "\<forall>it \<in> set its. item_ok m it" "nwritten + length (items_bytes m its) \<le> bufsize"
    "bufsize \<le> length buffer"
  shows "packf_loop m buffer bufsize nwritten (items_text its) (items_args its) =
    Some (int (nwritten + length (items_bytes m its)), overwrite buffer nwritten (items_bytes m its))"
  using assms
proof (induction its arbitrary: buffer nwritten)
  case Nil
  then show ?case by simp
next
  case (Cons it its)
  then have "overwrite (overwrite buffer nwritten (item_bytes m it))
      (nwritten + length (item_bytes m it)) (items_bytes m its) =
      overwrite buffer nwritten (items_bytes m (it # its))"
    by (simp add: c_buffer)
  with Cons show ?case
    by (simp add: packf_loop_item Let_def)
qed

lemma packf_loop_items_overflow:
  assumes "\<forall>it \<in> set its. item_ok m it" "bufsize < nwritten + length (items_bytes m its)"
    "bufsize \<le> length buffer" "nwritten \<le> bufsize"
  shows "\<exists>buffer'. packf_loop m buffer bufsize nwritten (items_text its) (items_args its)
           = Some (- E2BIG, buffer')"
  using assms
proof (induction its arbitrary: buffer nwritten)
  case Nil
  then show ?case by simp
next
  case (Cons it its)
  show ?case
  proof (cases "nwritten + length (item_bytes m it) \<le> bufsize")
    case True
    have "\<exists>buffer'. packf_loop m (overwrite buffer nwritten (item_bytes m it)) bufsize
        (nwritten + length (item_bytes m it)) (items_text its) (items_args its) = Some (- E2BIG, buffer')"
      using Cons.prems True by (intro Cons.IH) (auto simp: ac_simps)
    with Cons.prems True show ?thesis by (simp add: packf_loop_item Let_def)
  next
    case False
    with Cons.prems show ?thesis by (simp add: packf_loop_item Let_def)
  qed
qed

text \<open>The bytes of a buffer cut into the segments that the destinations read.\<close>

fun segments :: "dest list \<Rightarrow> byte list \<Rightarrow> byte list list" where
  "segments [] bs = []"
| "segments (d # ds) bs = take (dest_size d) bs # segments ds (drop (dest_size d) bs)"

lemma unpackf_loop_dests:
  assumes "\<forall>d \<in> set ds. dest_ok d" "nread + sum_list (map dest_size ds) \<le> bufsize"
    "bufsize \<le> length buffer"
  shows "unpackf_loop m buffer bufsize nread (dests_text ds) (dests_args ds) =
    map_option (\<lambda>m'. (int (nread + sum_list (map dest_size ds)), m'))
      (store_all m ds (segments ds (drop nread buffer)))"
  using assms
proof (induction ds arbitrary: m nread)
  case Nil
  then show ?case by simp
next
  case (Cons d ds)
  then show ?case
    by (simp add: unpackf_loop_dest ac_simps split: option.split)
qed

lemma segments_concat:
  assumes "list_all2 (\<lambda>d bs. dest_size d = length bs) ds bss"
  shows "segments ds (concat bss @ rest) = bss"
  using assms by (induction rule: list_all2_induct) simp_all

lemma sum_sizes: "list_all2 (\<lambda>d bs. dest_size d = length bs) ds bss \<Longrightarrow>
    sum_list (map dest_size ds) = length (concat bss)"
  by (induction rule: list_all2_induct) simp_all

lemma packf_items:
  assumes "\<forall>it \<in> set its. item_ok m it" "length (items_bytes m its) \<le> bufsize"
    "bufsize \<le> length buffer"
  shows "packf m buffer bufsize (items_text its) (items_args its) =
    Some (int (length (items_bytes m its)), overwrite buffer 0 (items_bytes m its))"
  using packf_loop_items [of its m 0 bufsize buffer] assms by (simp add: packf_def)

lemma packf_items_overflow:
  assumes "\<forall>it \<in> set its. item_ok m it" "bufsize < length (items_bytes m its)"
    "bufsize \<le> length buffer"
  shows "\<exists>buffer'. packf m buffer bufsize (items_text its) (items_args its) = Some (- E2BIG, buffer')"
  using packf_loop_items_overflow [of its m bufsize 0 buffer] assms by (simp add: packf_def)

lemma unpackf_dests:
  assumes "\<forall>d \<in> set ds. dest_ok d" "sum_list (map dest_size ds) \<le> bufsize" "bufsize \<le> length buffer"
  shows "unpackf m buffer bufsize (dests_text ds) (dests_args ds) =
    map_option (\<lambda>m'. (int (sum_list (map dest_size ds)), m')) (store_all m ds (segments ds buffer))"
  using unpackf_loop_dests [of ds 0 bufsize buffer m] assms by (simp add: unpackf_def)

text \<open>
  C21: on a format made of conversions, \<open>packf\<close> writes the byte images of its arguments one after
  the other from the start of the buffer and returns their total size when that fits into \<open>bufsize\<close>,
  and returns \<open>-E2BIG\<close> when it does not.
\<close>

theorem packf_writes_images:
  assumes "\<forall>it \<in> set its. item_ok m it" and "bufsize \<le> length buffer"
  shows "if length (items_bytes m its) \<le> bufsize
         then packf m buffer bufsize (items_text its) (items_args its)
                = Some (int (length (items_bytes m its)), items_bytes m its @ drop (length (items_bytes m its)) buffer)
         else \<exists>buffer'. packf m buffer bufsize (items_text its) (items_args its) = Some (- E2BIG, buffer')"
  using packf_items [OF assms(1) _ assms(2)] packf_items_overflow [OF assms(1) _ assms(2)]
  by (simp add: c_buffer)

theorem packf_writes_images_witness:
  "packf (\<lambda>_. [1, 2, 3]) [0, 0, 0, 0, 0] 5 ''%*hhu%hu'' [VWord 3, VPtr 0 0, VWord 0x1234]
     = Some (5, [1, 2, 3, 0x34, 0x12])"
  using packf_writes_images [of "[Array FMT_HHU 3 0 0, Scalar FMT_HU 0x1234]" "\<lambda>_. [1, 2, 3]" 5 "[0, 0, 0, 0, 0]"]
  by (simp add: dfa_valsize_def le_bytes_def upt_rec)

text \<open>
  C17: packing with \<open>packf\<close> and unpacking the buffer with the same format restores every value: each
  destination of \<open>unpackf\<close> receives exactly the bytes that the corresponding argument was packed to,
  and both calls return the same count.
\<close>

theorem unpackf_packf_roundtrip:
  assumes "\<forall>it \<in> set its. item_ok m it" and "\<forall>d \<in> set ds. dest_ok d"
    and "map dest_text ds = map item_text its"
    and "list_all2 (\<lambda>d bs. dest_size d = length bs) ds (map (item_bytes m) its)"
    and "length (items_bytes m its) \<le> bufsize" and "bufsize \<le> length buffer"
  shows "\<exists>n buffer'. packf m buffer bufsize (items_text its) (items_args its) = Some (int n, buffer') \<and>
    unpackf m' buffer' bufsize (items_text its) (dests_args ds) =
      map_option (\<lambda>m''. (int n, m'')) (store_all m' ds (map (item_bytes m) its))"
proof -
  note sz = sum_sizes [OF assms(4)]
  have seg: "segments ds (items_bytes m its @ rest) = map (item_bytes m) its" for rest
    using segments_concat [OF assms(4)] by simp
  have len: "bufsize \<le> length (items_bytes m its @ drop (length (items_bytes m its)) buffer)"
    using assms(5,6) by simp
  show ?thesis
    using packf_items [OF assms(1,5,6)] unpackf_dests [OF assms(2) _ len, of m'] sz assms(3,5)
    by (auto simp: c_buffer seg)
qed

theorem unpackf_packf_roundtrip_witness:
  "\<exists>n buffer'. packf (\<lambda>_. [7, 8]) (replicate 8 0) 8 ''%*hhu%d'' [VWord 2, VPtr 0 0, VWord 30] = Some (int n, buffer') \<and>
    unpackf (\<lambda>_. replicate 6 0) buffer' 8 ''%*hhu%d'' [VWord 2, VPtr 0 0, VPtr 1 0] =
      map_option (\<lambda>m''. (int n, m''))
       (store_all (\<lambda>_. replicate 6 0) [Dest FMT_HHU (Some 2) 0 0, Dest FMT_D None 1 0] [[7, 8], [30, 0, 0, 0]])"
  using unpackf_packf_roundtrip [of "[Array FMT_HHU 2 0 0, Scalar FMT_D 30]" "\<lambda>_. [7, 8]"
      "[Dest FMT_HHU (Some 2) 0 0, Dest FMT_D None 1 0]" 8 "replicate 8 0" "\<lambda>_. replicate 6 0"]
  by (simp add: dfa_valsize_def le_bytes_def upt_rec)

text \<open>
  For every format string and argument list, \<open>packf\<close> called with the size of its buffer either
  returns one of its two error codes or the number of bytes written, which is within the buffer; it
  never changes the buffer beyond that number, and never beyond \<open>bufsize\<close> on error.
\<close>

theorem packf_stays_in_buffer:
  assumes "packf m buffer bufsize fmt args = Some (r, buffer')" and "bufsize \<le> length buffer"
  shows "length buffer' = length buffer \<and> drop bufsize buffer' = drop bufsize buffer \<and>
    (r = - 1 \<or> r = - E2BIG \<or> 0 \<le> r \<and> r \<le> int bufsize \<and> drop (nat r) buffer' = drop (nat r) buffer)"
  using packf_loop_safe [OF assms(1) [unfolded packf_def] _ assms(2)] by (auto simp: pack_safe_def)

theorem packf_stays_in_buffer_witness:
  "length [0x1c, 5, 5 :: byte] = 3 \<and> drop 2 [0x1c, 5, 5 :: byte] = drop 2 [9, 5, 5] \<and>
    (- 1 = (- 1 :: int) \<or> - 1 = - E2BIG \<or> (0 :: int) \<le> - 1 \<and> - 1 \<le> int 2 \<and> drop (nat (- 1)) [0x1c, 5, 5 :: byte] = drop (nat (- 1)) [9, 5, 5])"
proof -
  have "packf (\<lambda>_. []) [9, 5, 5] 2 ''%hhuc'' [VWord 28] = Some (- 1, [0x1c, 5, 5])"
    using packf_loop_item [of "\<lambda>_. []" "Scalar FMT_HHU 28" "[9, 5, 5]" 2 0 "''c''" "[]"]
    by (simp add: packf_def Let_def dfa_valsize_def le_bytes_def overwrite_def packf_loop.simps)
  from packf_stays_in_buffer [OF this] show ?thesis by simp
qed

text \<open>
  A repeat count of 1 makes \<open>packf\<close> read the next argument as a value, unlike every other count
  and unlike \<open>unpackf\<close>: packing a one-element array through a pointer is undefined.
\<close>

theorem packf_single_element_array:
  "packf m buffer bufsize (CHR ''%'' # CHR ''*'' # conv_text f) [VWord 1, VPtr obj off] = None"
  using strip_repeat_star [of "conv_text f" 1 "[VPtr obj off]"] dfa_simulate_conv [of f "[]"]
  by (simp add: packf_def packf_loop.simps packf_source_def)

end
