(* ===== verification/Messages.thy ===== *)
theory Messages
  imports Serialize
begin

text \<open>
  The messages of the control protocol: the request codes of \<^verbatim>\<open>src/common/ipc.h\<close> and
  \<^verbatim>\<open>src/common/ipc.c\<close>, and the \<open>pack_*\<close> and \<open>unpack_*\<close> functions of
  \<^verbatim>\<open>src/common/serialize.c\<close>.  A response is a length byte, a status byte and a payload.

  The \<open>union unpack_result\<close> is the object its bytes make up (36 bytes: an array of 33 bytes aligned
  to an \<open>int\<close>); the accessors read it back.  Numbers of local objects: 0 is \<open>len\<close>, 1 is \<open>rsp\<close>, 2 is
  the result.  As in theory \<open>Serialize\<close>, \<^term>\<open>None\<close> is undefined behaviour.
\<close>

section \<open>Request and response codes\<close>

abbreviation (input) MAX_TEMP_THRESHOLDS :: nat where "MAX_TEMP_THRESHOLDS \<equiv> 16"
abbreviation (input) IPC_MAX_MSG_LENGTH :: nat where "IPC_MAX_MSG_LENGTH \<equiv> 48"

type_synonym ipc_request = byte
type_synonym ipc_response = byte

definition ipc_req_exit :: ipc_request where "ipc_req_exit = 1"
definition ipc_req_unprivileged :: ipc_request where "ipc_req_unprivileged = 32"
definition ipc_req_speed :: ipc_request where "ipc_req_speed = 33"
definition ipc_req_temp :: ipc_request where "ipc_req_temp = 34"
definition ipc_req_matrix :: ipc_request where "ipc_req_matrix = 35"
definition ipc_req_inval :: ipc_request where "ipc_req_inval = 0xff"

definition ipc_rsp_ok :: ipc_response where "ipc_rsp_ok = 0"
definition ipc_rsp_err :: ipc_response where "ipc_rsp_err = 1"

definition ipc_valid_requests :: "ipc_request list" where
  "ipc_valid_requests = [ipc_req_exit, ipc_req_speed, ipc_req_temp, ipc_req_matrix]"

definition ipc_request_map :: "(string \<times> ipc_request) list" where
  "ipc_request_map =
     [(''speed'', ipc_req_speed), (''temp'', ipc_req_temp), (''temperature'', ipc_req_temp),
      (''matrix'', ipc_req_matrix)]"

lemmas ipc_codes = ipc_req_exit_def ipc_req_unprivileged_def ipc_req_speed_def ipc_req_temp_def
  ipc_req_matrix_def ipc_req_inval_def ipc_rsp_ok_def ipc_rsp_err_def

section \<open>The result union\<close>

abbreviation (input) sizeof_unpack_result :: nat where "sizeof_unpack_result \<equiv> 36"

definition result_int :: "byte list \<Rightarrow> int" where
  "result_int result = sint (le_word (take 4 result) :: u32)"

definition result_rows :: "byte list \<Rightarrow> byte" where
  "result_rows result = result ! 0"

definition result_matrix :: "byte list \<Rightarrow> byte list" where
  "result_matrix result = take (2 * unat (result_rows result)) (drop 1 result)"

section \<open>Packing\<close>

definition no_objects :: mem where
  "no_objects = (\<lambda>_. [])"

definition pack_error :: "byte list \<Rightarrow> nat \<Rightarrow> int \<Rightarrow> (int \<times> byte list) option" where
  "pack_error buffer bufsize error =
     packf no_objects buffer bufsize ''%hhu%hhu%d''
       [VWord (1 + 1 + 4), VWord (ucast ipc_rsp_err), VWord (word_of_int error)]"

definition pack_speed :: "byte list \<Rightarrow> nat \<Rightarrow> int \<Rightarrow> (int \<times> byte list) option" where
  "pack_speed buffer bufsize speed =
     packf no_objects buffer bufsize ''%hhu%hhu%d''
       [VWord (1 + 1 + 4), VWord (ucast ipc_rsp_ok), VWord (word_of_int speed)]"

definition pack_temp :: "byte list \<Rightarrow> nat \<Rightarrow> int \<Rightarrow> (int \<times> byte list) option" where
  "pack_temp buffer bufsize temp =
     packf no_objects buffer bufsize ''%hhu%hhu%d''
       [VWord (1 + 1 + 4), VWord (ucast ipc_rsp_ok), VWord (word_of_int temp)]"

text \<open>The length byte of \<open>pack_matrix\<close> is computed in \<open>size_t\<close> and truncated to \<open>unsigned char\<close>.\<close>

definition pack_matrix :: "byte list \<Rightarrow> nat \<Rightarrow> byte list \<Rightarrow> byte \<Rightarrow> (int \<times> byte list) option" where
  "pack_matrix buffer bufsize matrix nrows =
     (let len = of_nat (1 + 1 * (unat nrows * 2 + 2)) :: byte in
      packf (no_objects(0 := matrix)) buffer bufsize ''%hhu%hhu%hhu%*hhu''
        [VWord (ucast len), VWord (ucast ipc_rsp_ok), VWord (ucast nrows),
         VWord (of_nat (2 * unat nrows)), VPtr 0 0])"

definition pack_exit_rsp :: "byte list \<Rightarrow> nat \<Rightarrow> (int \<times> byte list) option" where
  "pack_exit_rsp buffer bufsize =
     packf no_objects buffer bufsize ''%hhu%hhu'' [VWord (1 + 1), VWord (ucast ipc_rsp_ok)]"

section \<open>Unpacking\<close>

definition locals :: "byte list \<Rightarrow> mem" where
  "locals result = no_objects(0 := [0], 1 := [0], 2 := result)"

definition unpack_int :: "byte list \<Rightarrow> nat \<Rightarrow> byte list \<Rightarrow> (int \<times> byte list) option" where
  "unpack_int buffer bufsize result =
     (case unpackf (locals result) buffer bufsize ''%hhu%hhu'' [VPtr 0 0, VPtr 1 0] of
        None \<Rightarrow> None
      | Some (rsplen, m) \<Rightarrow>
          if rsplen < 0 then Some (rsplen, m 2)
          else let len = m 0 ! 0; rsp = m 1 ! 0; rest = drop (nat rsplen) buffer;
                   restsize = bufsize - nat rsplen in
            case (if rsp \<noteq> 0 then unpackf m rest restsize ''%d'' [VPtr 2 0]
                  else unpackf m rest restsize ''%d'' [VPtr 2 0]) of
              None \<Rightarrow> None
            | Some (n, m') \<Rightarrow>
                if rsplen + n \<noteq> uint len then Some (- 1, m' 2) else Some (uint rsp, m' 2))"

definition unpack_speed :: "byte list \<Rightarrow> nat \<Rightarrow> byte list \<Rightarrow> (int \<times> byte list) option" where
  "unpack_speed buffer bufsize result = unpack_int buffer bufsize result"

definition unpack_temp :: "byte list \<Rightarrow> nat \<Rightarrow> byte list \<Rightarrow> (int \<times> byte list) option" where
  "unpack_temp buffer bufsize result = unpack_int buffer bufsize result"

definition unpack_matrix :: "byte list \<Rightarrow> nat \<Rightarrow> byte list \<Rightarrow> (int \<times> byte list) option" where
  "unpack_matrix buffer bufsize result =
     (case unpackf (locals result) buffer bufsize ''%hhu%hhu'' [VPtr 0 0, VPtr 1 0] of
        None \<Rightarrow> None
      | Some (rsplen, m) \<Rightarrow>
          if rsplen < 0 then Some (rsplen, m 2)
          else let len = m 0 ! 0; rsp = m 1 ! 0;
                   finish = (\<lambda>(total, m'). if total < 0 then Some (total, m' 2)
                      else if total \<noteq> uint len then Some (- 1, m' 2) else Some (uint rsp, m' 2)) in
            if rsp \<noteq> 0
            then (case unpackf m (drop (nat rsplen) buffer) (bufsize - nat rsplen) ''%d'' [VPtr 2 0] of
                    None \<Rightarrow> None | Some (n, m') \<Rightarrow> finish (rsplen + n, m'))
            else (case unpackf m (drop (nat rsplen) buffer) (bufsize - nat rsplen) ''%hhu'' [VPtr 2 0] of
                    None \<Rightarrow> None
                  | Some (n, m1) \<Rightarrow>
                      if rsplen + n < 0 then Some (rsplen + n, m1 2)
                      else let rsplen1 = rsplen + n in
                        case unpackf m1 (drop (nat rsplen1) buffer) (bufsize - nat rsplen1) ''%*hhu''
                               [VWord (of_nat (2 * unat (m1 2 ! 0))), VPtr 2 1] of
                          None \<Rightarrow> None | Some (n', m2) \<Rightarrow> finish (rsplen1 + n', m2)))"

definition unpack_exit_rsp :: "byte list \<Rightarrow> nat \<Rightarrow> byte list \<Rightarrow> (int \<times> byte list) option" where
  "unpack_exit_rsp buffer bufsize result =
     (case unpackf (locals result) buffer bufsize ''%hhu%hhu'' [VPtr 0 0, VPtr 1 0] of
        None \<Rightarrow> None
      | Some (rsplen, m) \<Rightarrow>
          if rsplen < 0 then Some (rsplen, m 2)
          else let len = m 0 ! 0; rsp = m 1 ! 0 in
            if rsp \<noteq> 0
            then (case unpackf m (drop (nat rsplen) buffer) (bufsize - nat rsplen) ''%d'' [VPtr 2 0] of
                    None \<Rightarrow> None
                  | Some (n, m') \<Rightarrow>
                      if uint len \<noteq> rsplen + n then Some (- 1, m' 2) else Some (uint rsp, m' 2))
            else if uint len \<noteq> rsplen then Some (- 1, m 2) else Some (uint rsp, m 2))"

section \<open>What is on the wire\<close>

lemma dfa_valsize_simps [simp]:
  "dfa_valsize FMT_HHD = 1" "dfa_valsize FMT_HD = 2" "dfa_valsize FMT_D = 4" "dfa_valsize FMT_LD = 8"
  "dfa_valsize FMT_LLD = 8" "dfa_valsize FMT_HHU = 1" "dfa_valsize FMT_HU = 2" "dfa_valsize FMT_U = 4"
  "dfa_valsize FMT_LU = 8" "dfa_valsize FMT_LLU = 8"
  by (simp_all add: dfa_valsize_def)

lemma pack_int_wire:
  assumes "6 \<le> bufsize" "bufsize \<le> length buffer"
  shows "packf m buffer bufsize ''%hhu%hhu%d'' [VWord a, VWord b, VWord c] =
    Some (6, [ucast a, ucast b] @ le_bytes 4 c @ drop 6 buffer)"
  using packf_items [of "[Scalar FMT_HHU a, Scalar FMT_HHU b, Scalar FMT_D c]" m bufsize buffer] assms
  by (simp add: c_conv c_buffer ucast_int_to_byte)

lemma drop_Suc_Suc: "drop (Suc (Suc 0)) xs = drop 2 xs"
  by (simp add: numeral_2_eq_2)

lemma pack_exit_wire:
  assumes "2 \<le> bufsize" "bufsize \<le> length buffer"
  shows "pack_exit_rsp buffer bufsize = Some (2, [2, 0] @ drop 2 buffer)"
  using packf_items [of "[Scalar FMT_HHU 2, Scalar FMT_HHU 0]" no_objects bufsize buffer] assms
  by (simp add: pack_exit_rsp_def ipc_codes c_conv c_buffer drop_Suc_Suc)

lemma ucast_byte_u64 [simp]: "(ucast (ucast (b :: byte) :: u64) :: byte) = b"
  by (rule bit_word_eqI) (simp add: bit_ucast_iff)

lemma unat_of_nat_u32: "n < 2 ^ 32 \<Longrightarrow> unat (of_nat n :: u32) = n"
  by (simp add: unsigned_of_nat take_bit_nat_eq_self)

lemma ucast_of_nat_u32: "n < 2 ^ 32 \<Longrightarrow> (ucast (of_nat n :: u32) :: u64) = of_nat n"
  by (simp add: unsigned_of_nat take_bit_nat_eq_self)

lemma pack_matrix_wire:
  assumes "0 < unat nrows" "2 * unat nrows \<le> length matrix" "3 + 2 * unat nrows \<le> bufsize"
    "bufsize \<le> length buffer"
  shows "pack_matrix buffer bufsize matrix nrows =
    Some (3 + 2 * int (unat nrows),
      [of_nat (3 + 2 * unat nrows), 0, nrows] @ take (2 * unat nrows) matrix @ drop (3 + 2 * unat nrows) buffer)"
proof -
  let ?n = "of_nat (2 * unat nrows) :: u32"
  have rows: "unat nrows < 256" using unsigned_less [of nrows] by simp
  then have n: "unat ?n = 2 * unat nrows" by (intro unat_of_nat_u32) simp
  from rows have u: "ucast ?n = (of_nat (2 * unat nrows) :: u64)" by (intro ucast_of_nat_u32) simp
  have e: "Suc (Suc (Suc (unat nrows * 2))) = 3 + 2 * unat nrows"
    "Suc (Suc (Suc (2 * unat nrows))) = 3 + 2 * unat nrows" by simp_all
  have ok: "?n \<noteq> 0" "?n \<noteq> 1"
    using n assms(1) by (metis unsigned_0 mult_is_0 zero_neq_numeral less_irrefl,
        metis unsigned_1 even_mult_iff dvd_refl odd_one)
  show ?thesis
    using packf_items [of "[Scalar FMT_HHU (ucast (of_nat (1 + 1 * (unat nrows * 2 + 2)) :: byte)),
          Scalar FMT_HHU 0, Scalar FMT_HHU (ucast nrows), Array FMT_HHU ?n 0 0]" "no_objects(0 := matrix)" bufsize buffer]
      assms ok rows
    by (simp add: pack_matrix_def Let_def ipc_codes c_conv c_buffer n u e ucast_int_to_byte
        min_absorb2 del: of_nat_mult of_nat_add of_nat_Suc) simp
qed

section \<open>What is read from the wire\<close>

text \<open>The memory of an \<open>unpack_*\<close> function once the header has been read.\<close>

definition frame :: "byte \<Rightarrow> byte \<Rightarrow> byte list \<Rightarrow> mem" where
  "frame len rsp result = no_objects(0 := [len], 1 := [rsp], 2 := result)"

lemma frame_simps [simp]:
  "frame len rsp result 0 = [len]" "frame len rsp result (Suc 0) = [rsp]" "frame len rsp result 2 = result"
  "(frame len rsp result)(2 := result') = frame len rsp result'"
  by (simp_all add: frame_def)

lemma unpack_header:
  assumes "2 \<le> bufsize" "bufsize \<le> length buffer"
  shows "unpackf (locals result) buffer bufsize ''%hhu%hhu'' [VPtr 0 0, VPtr 1 0] =
    Some (2, frame (buffer ! 0) (buffer ! 1) result)"
proof -
  obtain a b rest where "buffer = a # b # rest"
    using assms by (cases buffer rule: remdups_adj.cases) auto
  then show ?thesis
    using unpackf_dests [of "[Dest FMT_HHU None 0 0, Dest FMT_HHU None 1 0]" bufsize buffer "locals result"] assms
    by (simp add: store_def locals_def frame_def no_objects_def c_buffer fun_upd_twist)
qed

lemma unpack_header_short:
  assumes "bufsize < 2" "bufsize \<le> length buffer"
  shows "\<exists>m. unpackf (locals result) buffer bufsize ''%hhu%hhu'' [VPtr 0 0, VPtr 1 0] = Some (- E2BIG, m)
           \<and> m 2 = result"
  using unpackf_loop_dest [of "Dest FMT_HHU None 0 0" "locals result" buffer bufsize 0 "''%hhu''" "[VPtr 1 0]"]
    unpackf_loop_dest [of "Dest FMT_HHU None 1 0" "(locals result)(0 := take 1 buffer)" buffer bufsize 1 "[]" "[]"]
    assms
  by (cases "bufsize = 0") (auto simp: unpackf_def store_def locals_def no_objects_def c_buffer)

lemma unpack_d:
  assumes "restsize \<le> length rest" "4 \<le> length (m 2)"
  shows "unpackf m rest restsize ''%d'' [VPtr 2 0] =
    (if 4 \<le> restsize then Some (4, m(2 := take 4 rest @ drop 4 (m 2))) else Some (- E2BIG, m))"
  using unpackf_loop_dest [of "Dest FMT_D None 2 0" m rest restsize 0 "[]" "[]"] assms
  by (simp add: unpackf_def store_def c_buffer)

lemma unpack_hhu:
  assumes "restsize \<le> length rest" "1 \<le> length (m 2)"
  shows "unpackf m rest restsize ''%hhu'' [VPtr 2 0] =
    (if 1 \<le> restsize then Some (1, m(2 := take 1 rest @ drop 1 (m 2))) else Some (- E2BIG, m))"
  using unpackf_loop_dest [of "Dest FMT_HHU None 2 0" m rest restsize 0 "[]" "[]"] assms
  by (simp add: unpackf_def store_def c_buffer)

lemma unpack_rows:
  assumes "restsize \<le> length rest" "k < 2 ^ 32" "0 < k"
  shows "unpackf m rest restsize ''%*hhu'' [VWord (of_nat k), VPtr 2 1] =
    (if k \<le> restsize
     then if 1 + k \<le> length (m 2) then Some (int k, m(2 := overwrite (m 2) 1 (take k rest))) else None
     else Some (- E2BIG, m))"
proof -
  have n: "unat (of_nat k :: u32) = k" "ucast (of_nat k :: u32) = (of_nat k :: u64)"
    using assms(2) by (simp_all add: unat_of_nat_u32 ucast_of_nat_u32)
  then have "(of_nat k :: u32) \<noteq> 0" using assms(3) by (metis unsigned_0 less_irrefl)
  with n show ?thesis
    using unpackf_loop_dest [of "Dest FMT_HHU (Some (of_nat k)) 2 1" m rest restsize 0 "[]" "[]"] assms
    by (simp add: unpackf_def store_def)
qed

lemma unpack_rows_zero: "unpackf m rest restsize ''%*hhu'' [VWord 0, VPtr 2 1] = Some (- 1, m)"
  by (simp add: unpackf_def unpackf_loop.simps strip_repeat_def)

lemma uint_byte_eq_iff: "uint (b :: byte) = 6 \<longleftrightarrow> b = 6" "uint (b :: byte) = 2 \<longleftrightarrow> b = 2"
  "6 = uint (b :: byte) \<longleftrightarrow> b = 6" "2 = uint (b :: byte) \<longleftrightarrow> b = 2"
  by (auto simp: word_uint_eq_iff)

text \<open>The complete behaviour of the integer unpacker on every buffer.\<close>

lemma unpack_int_cases:
  assumes "bufsize \<le> length buffer" "4 \<le> length result"
  shows "unpack_int buffer bufsize result =
    (if bufsize < 2 then Some (- E2BIG, result)
     else if bufsize < 6 then Some (- 1, result)
     else Some (if buffer ! 0 = 6 then uint (buffer ! 1) else - 1, take 4 (drop 2 buffer) @ drop 4 result))"
proof (cases "bufsize < 2")
  case True
  with unpack_header_short [OF True assms(1), of result] show ?thesis
    by (auto simp: unpack_int_def)
next
  case False
  have neg: "uint (buffer ! 0) \<noteq> - 5" by (metis unsigned_greater_eq neg_0_le_iff_le not_numeral_le_zero)
  have "restsize \<le> length (drop 2 buffer)" if "restsize = bufsize - 2" for restsize
    using that assms(1) by simp
  with False neg show ?thesis
    using unpack_header [of bufsize buffer result] assms
    by (auto simp: unpack_int_def Let_def unpack_d uint_byte_eq_iff)
qed

lemma unpack_exit_cases:
  assumes "bufsize \<le> length buffer" "4 \<le> length result"
  shows "unpack_exit_rsp buffer bufsize result =
    (if bufsize < 2 then Some (- E2BIG, result)
     else if buffer ! 1 = 0 then Some (if buffer ! 0 = 2 then 0 else - 1, result)
     else if bufsize < 6 then Some (- 1, result)
     else Some (if buffer ! 0 = 6 then uint (buffer ! 1) else - 1, take 4 (drop 2 buffer) @ drop 4 result))"
proof (cases "bufsize < 2")
  case True
  with unpack_header_short [OF True assms(1), of result] show ?thesis
    by (auto simp: unpack_exit_rsp_def)
next
  case False
  have neg: "uint (buffer ! 0) \<noteq> - 5" by (metis unsigned_greater_eq neg_0_le_iff_le not_numeral_le_zero)
  with False show ?thesis
    using unpack_header [of bufsize buffer result] assms
    by (auto simp: unpack_exit_rsp_def Let_def unpack_d uint_byte_eq_iff)
qed

lemma unpack_matrix_rows:
  fixes buffer :: "byte list"
  defines "r \<equiv> unat (buffer ! 2)"
  assumes "3 + 2 * r \<le> bufsize" "bufsize \<le> length buffer" "buffer ! 1 = 0" "0 < r" "1 \<le> length result"
  shows "unpack_matrix buffer bufsize result =
    (if 1 + 2 * r \<le> length result
     then Some (if uint (buffer ! 0) = int (3 + 2 * r) then 0 else - 1,
                buffer ! 2 # take (2 * r) (drop 3 buffer) @ drop (1 + 2 * r) result)
     else None)"
proof -
  obtain a c rest where buf: "buffer = a # 0 # c # rest"
    using assms(2-4) by (cases buffer; cases "tl buffer"; cases "tl (tl buffer)") auto
  have r: "r = unat c" "r < 256" using unsigned_less [of c] by (simp_all add: r_def buf)
  obtain x res where result: "result = x # res" using assms(6) by (cases result) auto
  have rows: "unpackf m rest (bufsize - 3) ''%*hhu'' [VWord (of_nat (2 * unat c)), VPtr 2 1] =
    (if 1 + 2 * r \<le> length (m 2) then Some (int (2 * r), m(2 := overwrite (m 2) 1 (take (2 * r) rest))) else None)" for m
  proof -
    have "2 * r \<le> bufsize - 3" "bufsize - 3 \<le> length rest" using assms(2,3) by (simp_all add: buf)
    then show ?thesis
      using unpack_rows [of "bufsize - 3" rest "2 * r" m] assms(5) r by simp
  qed
  have "unpackf (frame a 0 result) (c # rest) (bufsize - 2) ''%hhu'' [VPtr 2 0] =
      Some (1, frame a 0 (c # res))"
    using unpack_hhu [of "bufsize - 2" "c # rest" "frame a 0 result"] assms(2,3)
    by (simp add: buf result)
  moreover have "2 * r \<le> length rest" using assms(2,3) by (simp add: buf)
  moreover have "\<not> 3 + 2 * uint c < 0" using unsigned_greater_eq [of c, where 'a = int] by linarith
  ultimately show ?thesis
    using unpack_header [of bufsize buffer result] assms(2,3) rows [of "frame a 0 (c # res)"]
    by (auto simp: unpack_matrix_def Let_def buf result r(1) overwrite_def min_absorb2)
qed

section \<open>Properties of the messages\<close>

lemma ucast_word_of_int: "(ucast (word_of_int v :: u64) :: u32) = word_of_int v"
  by (rule bit_word_eqI) (simp add: bit_ucast_iff bit_word_of_int_iff)

lemma result_int_of_bytes:
  assumes "- (2 ^ 31) \<le> v" "v < 2 ^ 31"
  shows "result_int (le_bytes 4 (word_of_int v :: u64) @ rest) = v"
proof -
  have "le_bytes 4 (word_of_int v :: u64) = le_bytes 4 (word_of_int v :: u32)"
    using le_bytes_ucast [of 4 "word_of_int v :: u64", where 'b = 32] by (simp add: ucast_word_of_int)
  then have "result_int (le_bytes 4 (word_of_int v :: u64) @ rest) = sint (word_of_int v :: u32)"
    by (simp add: result_int_def codec4.dec_enc)
  also have "\<dots> = v"
    using assms by (simp add: signed_of_int signed_take_bit_int_eq_self)
  finally show ?thesis .
qed

text \<open>One argument for the three integer messages: packed with any status, unpacked with that status.\<close>

lemma int_message_roundtrip:
  assumes "- (2 ^ 31) \<le> v" "v < 2 ^ 31" "6 \<le> length buffer" "4 \<le> length result"
  shows "\<exists>buffer' result'.
    packf no_objects buffer (length buffer) ''%hhu%hhu%d'' [VWord 6, VWord (ucast (rsp :: byte)), VWord (word_of_int v)]
      = Some (6, buffer') \<and>
    unpack_int (take 6 buffer') 6 result = Some (uint rsp, result') \<and> result_int result' = v"
proof -
  let ?w = "le_bytes 4 (word_of_int v :: u64)"
  have "unpack_int (6 # rsp # ?w) 6 result = Some (uint rsp, ?w @ drop 4 result)"
    using unpack_int_cases [of 6 "6 # rsp # ?w" result] assms(4) by simp
  then show ?thesis
    using pack_int_wire [of "length buffer" buffer no_objects 6 "ucast rsp" "word_of_int v"] assms
    by (simp add: result_int_of_bytes)
qed

text \<open>
  C22: an integer response survives the trip over the socket: a speed, a temperature or an error
  number packed by the daemon into any buffer of at least six bytes is six bytes long, and the
  client's unpacker reads the same number from these bytes and returns the status that was packed
  (0 for a value, 1 for an error).
\<close>

theorem int_responses_roundtrip:
  assumes "- (2 ^ 31) \<le> v" and "v < 2 ^ 31" and "6 \<le> length buffer" and "4 \<le> length result"
  shows "(\<exists>b r. pack_speed buffer (length buffer) v = Some (6, b) \<and>
      unpack_speed (take 6 b) 6 result = Some (0, r) \<and> result_int r = v) \<and>
    (\<exists>b r. pack_temp buffer (length buffer) v = Some (6, b) \<and>
      unpack_temp (take 6 b) 6 result = Some (0, r) \<and> result_int r = v) \<and>
    (\<exists>b r. pack_error buffer (length buffer) v = Some (6, b) \<and>
      unpack_speed (take 6 b) 6 result = Some (1, r) \<and> result_int r = v)"
  using int_message_roundtrip [OF assms, of 0] int_message_roundtrip [OF assms, of 1]
  by (simp add: pack_speed_def pack_temp_def pack_error_def unpack_speed_def unpack_temp_def ipc_codes)

theorem int_responses_roundtrip_witness:
  "\<exists>b r. pack_error (replicate 48 0) 48 22 = Some (6, b) \<and>
     unpack_speed (take 6 b) 6 (replicate 36 0) = Some (1, r) \<and> result_int r = 22"
  using int_responses_roundtrip [of 22 "replicate 48 0" "replicate 36 0"] by simp

text \<open>
  C23: the matrix response survives the trip: for 1 to 16 rows, packing the first \<open>2 * nrows\<close> matrix
  bytes into the server's 48-byte buffer succeeds with a message of \<open>3 + 2 * nrows\<close> bytes, and the
  client unpacks the same number of rows and the same bytes into its 36-byte result.
\<close>

theorem matrix_response_roundtrip:
  assumes "0 < unat nrows" and "unat nrows \<le> MAX_TEMP_THRESHOLDS" and "2 * unat nrows \<le> length matrix"
    and "length buffer = IPC_MAX_MSG_LENGTH" and "length result = sizeof_unpack_result"
  shows "\<exists>b r. pack_matrix buffer IPC_MAX_MSG_LENGTH matrix nrows = Some (3 + 2 * int (unat nrows), b) \<and>
    unpack_matrix (take (3 + 2 * unat nrows) b) (3 + 2 * unat nrows) result = Some (0, r) \<and>
    result_rows r = nrows \<and> result_matrix r = take (2 * unat nrows) matrix"
proof -
  let ?k = "unat nrows"
  let ?msg = "[of_nat (3 + 2 * ?k), 0, nrows] @ take (2 * ?k) matrix"
  have len: "length ?msg = 3 + 2 * ?k" using assms(3) by simp
  have "uint (of_nat (3 + 2 * ?k) :: byte) = int (3 + 2 * ?k)"
    using assms(2) by (simp add: unsigned_of_nat take_bit_nat_eq_self flip: of_nat_add of_nat_mult
        del: of_nat_add of_nat_mult)
  moreover have "?msg ! 0 = of_nat (3 + 2 * ?k)" "?msg ! 1 = 0" "?msg ! 2 = nrows" by simp_all
  ultimately have un: "unpack_matrix ?msg (3 + 2 * ?k) result =
      Some (0, nrows # take (2 * ?k) matrix @ drop (1 + 2 * ?k) result)"
    using unpack_matrix_rows [of ?msg "3 + 2 * ?k" result] len assms by simp
  have "take (3 + 2 * ?k) (?msg @ drop (3 + 2 * ?k) buffer) = ?msg"
    using len by (metis append_eq_conv_conj)
  moreover have "pack_matrix buffer 48 matrix nrows = Some (3 + 2 * int ?k, ?msg @ drop (3 + 2 * ?k) buffer)"
    using pack_matrix_wire [of nrows matrix 48 buffer] assms by simp
  ultimately show ?thesis
    using un assms(3) by (auto simp: result_rows_def result_matrix_def min_absorb2 simp del: append.simps)
qed

theorem matrix_response_roundtrip_witness:
  "\<exists>b r. pack_matrix (replicate 48 0) 48 [50, 20, 60, 50] 2 = Some (7, b) \<and>
    unpack_matrix (take 7 b) 7 (replicate 36 0) = Some (0, r) \<and>
    result_rows r = 2 \<and> result_matrix r = [50, 20, 60, 50]"
  using matrix_response_roundtrip [of 2 "[50, 20, 60, 50]" "replicate 48 0" "replicate 36 0"] by simp



text \<open>
  The integer unpacker accepts a message only if it is complete: a non-negative result means
  that at least six bytes were received, that the length byte is 6 and that the result is the status
  byte; on every other buffer the result is negative.
\<close>

theorem unpack_int_accepts:
  assumes "bufsize \<le> length buffer" and "4 \<le> length result"
  shows "\<exists>r result'. unpack_int buffer bufsize result = Some (r, result') \<and> length result' = length result \<and>
    (r \<ge> 0 \<longleftrightarrow> 6 \<le> bufsize \<and> buffer ! 0 = 6) \<and> (r \<ge> 0 \<longrightarrow> r = uint (buffer ! 1))"
  using unpack_int_cases [OF assms] assms by auto

theorem unpack_int_accepts_witness:
  "\<exists>r result'. unpack_int [6, 0, 42, 0, 0, 0] 6 (replicate 36 0) = Some (r, result') \<and>
    length result' = 36 \<and> r \<ge> 0 \<and> r = 0"
  using unpack_int_accepts [of 6 "[6, 0, 42, 0, 0, 0]" "replicate 36 0"] by auto

end
