(* ===== verification/Regex.thy ===== *)
theory Regex
  imports Strutils
begin

text \<open>
  \<open>regcomp\<close> and \<open>regexec\<close> for the extended regular expressions that the program uses
  (\<^verbatim>\<open>src/fand/config.c\<close>, through \<^verbatim>\<open>src/common/regutils.c\<close>).  Every one of them is a sequence of
  repetitions of character classes, so an expression is a list of such items; a parenthesised group is
  an interval of item indices.

  The match that POSIX prescribes is the leftmost one, among those the longest, and among those the
  one in which every item from left to right is as long as possible.  \<open>ways\<close> enumerates the matches
  at one position with the greediest first.
\<close>

section \<open>Expressions and matches\<close>

datatype item = Rep "char \<Rightarrow> bool" nat "nat option" | End

abbreviation (input) Cls :: "(char \<Rightarrow> bool) \<Rightarrow> item" where "Cls p \<equiv> Rep p 1 (Some 1)"
abbreviation (input) Lit :: "char \<Rightarrow> item" where "Lit c \<equiv> Rep (\<lambda>d. d = c) 1 (Some 1)"
abbreviation (input) Opt :: "char \<Rightarrow> item" where "Opt c \<equiv> Rep (\<lambda>d. d = c) 0 (Some 1)"
abbreviation (input) Star :: "(char \<Rightarrow> bool) \<Rightarrow> item" where "Star p \<equiv> Rep p 0 None"
abbreviation (input) Plus :: "(char \<Rightarrow> bool) \<Rightarrow> item" where "Plus p \<equiv> Rep p 1 None"

text \<open>The most repetitions that are possible at the start of a string.\<close>

definition most :: "(char \<Rightarrow> bool) \<Rightarrow> nat option \<Rightarrow> string \<Rightarrow> nat" where
  "most p hi s = (case hi of None \<Rightarrow> length (takeWhile p s) | Some h \<Rightarrow> min h (length (takeWhile p s)))"

text \<open>The lengths of the items in every match that starts at the beginning of the string.\<close>

fun ways :: "item list \<Rightarrow> string \<Rightarrow> nat list list" where
  "ways [] s = [[]]"
| "ways (Rep p lo hi # r) s =
     concat (map (\<lambda>k. map ((#) k) (ways r (drop k s))) (rev [lo..<Suc (most p hi s)]))"
| "ways (End # r) s = (if s = [] then map ((#) 0) (ways r s) else [])"

fun longest :: "nat list list \<Rightarrow> nat list option" where
  "longest [] = None"
| "longest (w # ws) =
     (case longest ws of None \<Rightarrow> Some w | Some v \<Rightarrow> if sum_list v > sum_list w then Some v else Some w)"

fun regexec_from :: "item list \<Rightarrow> nat \<Rightarrow> string \<Rightarrow> (nat \<times> nat list) option" where
  "regexec_from re i [] = map_option (Pair i) (longest (ways re []))"
| "regexec_from re i (c # s) =
     (case longest (ways re (c # s)) of Some ks \<Rightarrow> Some (i, ks) | None \<Rightarrow> regexec_from re (Suc i) s)"

definition regexec :: "item list \<Rightarrow> string \<Rightarrow> (nat \<times> nat list) option" where
  "regexec re s = regexec_from re 0 s"

text \<open>An expression that starts with \<open>^\<close>.\<close>

definition regexec_anchored :: "item list \<Rightarrow> string \<Rightarrow> (nat \<times> nat list) option" where
  "regexec_anchored re s = map_option (Pair 0) (longest (ways re s))"

text \<open>Offset (\<open>rm_so\<close>) and length of the group that spans the items \<open>a\<close> up to \<open>b\<close>.\<close>

definition rm_so :: "nat \<times> nat list \<Rightarrow> nat \<Rightarrow> nat" where
  "rm_so m a = fst m + sum_list (take a (snd m))"

definition regmatch_length :: "nat \<times> nat list \<Rightarrow> nat \<Rightarrow> nat \<Rightarrow> nat" where
  "regmatch_length m a b = sum_list (take (b - a) (drop a (snd m)))"

section \<open>What a match is\<close>

fun fits :: "item list \<Rightarrow> string \<Rightarrow> nat list \<Rightarrow> bool" where
  "fits [] s ks \<longleftrightarrow> ks = []"
| "fits (Rep p lo hi # r) s (k # ks) \<longleftrightarrow>
     lo \<le> k \<and> (\<forall>h. hi = Some h \<longrightarrow> k \<le> h) \<and> k \<le> length s \<and> list_all p (take k s) \<and> fits r (drop k s) ks"
| "fits (End # r) s (k # ks) \<longleftrightarrow> k = 0 \<and> s = [] \<and> fits r s ks"
| "fits (i # r) s [] \<longleftrightarrow> False"

lemma le_takeWhile_iff: "k \<le> length (takeWhile p s) \<longleftrightarrow> k \<le> length s \<and> list_all p (take k s)"
proof (induction s arbitrary: k)
  case (Cons c s)
  then show ?case by (cases k) auto
qed simp

lemma le_most_iff: "k \<le> most p hi s \<longleftrightarrow> (\<forall>h. hi = Some h \<longrightarrow> k \<le> h) \<and> k \<le> length s \<and> list_all p (take k s)"
  by (cases hi) (auto simp: most_def le_takeWhile_iff)

lemma in_ways_Rep:
  "k # ks \<in> set (ways (Rep p lo hi # r) s) \<longleftrightarrow> lo \<le> k \<and> k \<le> most p hi s \<and> ks \<in> set (ways r (drop k s))"
  by (auto simp: less_Suc_eq_le simp del: upt_Suc)

lemma in_ways: "ks \<in> set (ways re s) \<longleftrightarrow> fits re s ks"
proof (induction re s ks rule: fits.induct)
  case (2 p lo hi r s k ks)
  then show ?case unfolding in_ways_Rep le_most_iff by auto
next
  case (4 i r s)
  then show ?case by (cases i) auto
qed auto

lemma fits_sum: "fits re s ks \<Longrightarrow> sum_list ks \<le> length s"
  by (induction re s ks rule: fits.induct) fastforce+

lemma fits_length: "fits re s ks \<Longrightarrow> length ks = length re"
  by (induction re s ks rule: fits.induct) auto

lemma fits_End: "fits (re @ [End]) s ks \<Longrightarrow> sum_list ks = length s"
proof (induction re arbitrary: s ks)
  case Nil
  then show ?case by (cases ks) auto
next
  case (Cons i re)
  then obtain k ks' where ks: "ks = k # ks'" by (cases ks) auto
  with Cons show ?case by (cases i) fastforce+
qed

lemma longest_None [simp]: "longest ws = None \<longleftrightarrow> ws = []"
  by (cases ws) (auto split: option.splits)

lemma longest_in: "longest ws = Some v \<Longrightarrow> v \<in> set ws \<and> (\<forall>w \<in> set ws. sum_list w \<le> sum_list v)"
  by (induction ws arbitrary: v) (force split: option.splits if_splits)+

lemma longest_hd: "ws \<noteq> [] \<Longrightarrow> (\<And>w. w \<in> set ws \<Longrightarrow> sum_list w \<le> sum_list (hd ws)) \<Longrightarrow> longest ws = Some (hd ws)"
proof (cases ws)
  case (Cons w ws')
  assume "\<And>w. w \<in> set ws \<Longrightarrow> sum_list w \<le> sum_list (hd ws)"
  then show ?thesis using longest_in [of ws'] by (force simp: Cons not_less split: option.split)
qed simp

lemma regexec_from_Some:
  assumes "regexec_from re i s = Some (j, ks)"
  shows "i \<le> j \<and> j - i \<le> length s \<and> fits re (drop (j - i) s) ks"
  using assms
proof (induction re i s rule: regexec_from.induct)
  case (1 re i)
  then show ?case using longest_in in_ways by fastforce
next
  case (2 re i c s)
  show ?case
  proof (cases "longest (ways re (c # s))")
    case None
    with 2 show ?thesis by (auto simp: Suc_diff_le dest!: Suc_leD simp flip: Suc_diff_Suc)
  next
    case (Some v)
    with 2 show ?thesis using longest_in [OF Some] in_ways by fastforce
  qed
qed

lemma regexec_Some: "regexec re s = Some (j, ks) \<Longrightarrow> j \<le> length s \<and> fits re (drop j s) ks"
  using regexec_from_Some [of re 0 s j ks] by (simp add: regexec_def)

lemma regexec_anchored_Some: "regexec_anchored re s = Some (j, ks) \<Longrightarrow> j = 0 \<and> fits re s ks"
  using longest_in in_ways by (fastforce simp: regexec_anchored_def)

lemma regexec_first:
  assumes "ways re s \<noteq> []"
  shows "regexec re s = map_option (Pair 0) (longest (ways re s))"
  using assms by (cases s) (auto simp: regexec_def split: option.split)

lemma regexec_End_hd:
  assumes "ways (re @ [End]) s \<noteq> []"
  shows "longest (ways (re @ [End]) s) = Some (hd (ways (re @ [End]) s))"
proof (rule longest_hd [OF assms])
  fix w assume "w \<in> set (ways (re @ [End]) s)"
  moreover have "hd (ways (re @ [End]) s) \<in> set (ways (re @ [End]) s)" using assms by simp
  ultimately show "sum_list w \<le> sum_list (hd (ways (re @ [End]) s))"
    by (simp add: in_ways fits_End)
qed

section \<open>Whether there is a match\<close>

lemma fits_Cls:
  "(\<exists>ks. fits (Cls p # re) s ks) \<longleftrightarrow> (\<exists>c t. s = c # t \<and> p c \<and> (\<exists>ks. fits re t ks))"
proof
  assume "\<exists>ks. fits (Cls p # re) s ks"
  then obtain k ks where "k = 1" "k \<le> length s" "list_all p (take k s)" "fits re (drop k s) ks"
    by (metis fits.simps(2,4) le_antisym neq_Nil_conv)
  then show "\<exists>c t. s = c # t \<and> p c \<and> (\<exists>ks. fits re t ks)" by (cases s) auto
next
  assume "\<exists>c t. s = c # t \<and> p c \<and> (\<exists>ks. fits re t ks)"
  then obtain c t ks where "s = c # t" "p c" "fits re t ks" by blast
  then have "fits (Cls p # re) s (1 # ks)" by simp
  then show "\<exists>ks. fits (Cls p # re) s ks" ..
qed

lemma fits_Plus:
  "(\<exists>ks. fits (Plus p # re) s ks) \<longleftrightarrow> (\<exists>u t. s = u @ t \<and> u \<noteq> [] \<and> list_all p u \<and> (\<exists>ks. fits re t ks))"
proof
  assume "\<exists>ks. fits (Plus p # re) s ks"
  then obtain k ks where k: "1 \<le> k" "k \<le> length s" "list_all p (take k s)" "fits re (drop k s) ks"
    by (metis fits.simps(2,4) neq_Nil_conv)
  moreover have "take k s \<noteq> []" using k(1,2) by auto
  ultimately show "\<exists>u t. s = u @ t \<and> u \<noteq> [] \<and> list_all p u \<and> (\<exists>ks. fits re t ks)" by (metis append_take_drop_id)
next
  assume "\<exists>u t. s = u @ t \<and> u \<noteq> [] \<and> list_all p u \<and> (\<exists>ks. fits re t ks)"
  then obtain u t ks where "s = u @ t" "u \<noteq> []" "list_all p u" "fits re t ks" by blast
  then have "fits (Plus p # re) s (length u # ks)" by (simp add: Suc_le_eq)
  then show "\<exists>ks. fits (Plus p # re) s ks" ..
qed

lemma ways_fits: "ways re s \<noteq> [] \<longleftrightarrow> (\<exists>ks. fits re s ks)"
  unfolding in_ways [symmetric] by (cases "ways re s") auto

lemma regexec_found: "regexec re s \<noteq> None \<longleftrightarrow> (\<exists>pre t. s = pre @ t \<and> (\<exists>ks. fits re t ks))"
proof -
  have "regexec_from re i s \<noteq> None \<longleftrightarrow> (\<exists>pre t. s = pre @ t \<and> (\<exists>ks. fits re t ks))" for i
  proof (induction re i s rule: regexec_from.induct)
    case (1 re i)
    show ?case using ways_fits [of re "[]"] by auto
  next
    case (2 re i c s)
    show ?case
    proof (cases "longest (ways re (c # s))")
      case None
      then have "\<not> fits re (c # s) ks" for ks using ways_fits [of re "c # s"] by auto
      with 2 None show ?thesis by (auto simp: Cons_eq_append_conv)
    next
      case (Some v)
      then show ?thesis using longest_in [OF Some] in_ways [of v re "c # s"] by (auto intro: exI [of _ "[]"])
    qed
  qed
  then show ?thesis by (simp add: regexec_def)
qed

section \<open>The greediest match\<close>

text \<open>The first of the \<open>ways\<close>, item by item.\<close>

inductive greedy :: "item list \<Rightarrow> string \<Rightarrow> nat list \<Rightarrow> bool" where
  greedy_Nil: "greedy [] s []"
| greedy_Rep: "greedy r (drop k s) ks \<Longrightarrow> lo \<le> k \<Longrightarrow> k \<le> most p hi s \<Longrightarrow>
     (\<And>k'. k < k' \<Longrightarrow> k' \<le> most p hi s \<Longrightarrow> ways r (drop k' s) = []) \<Longrightarrow> greedy (Rep p lo hi # r) s (k # ks)"
| greedy_End: "greedy r [] ks \<Longrightarrow> greedy (End # r) [] (0 # ks)"

lemma concat_first:
  assumes "xs = us @ x # vs" "\<And>u. u \<in> set us \<Longrightarrow> f u = []" "f x = y # ys"
  shows "concat (map f xs) = y # ys @ concat (map f vs)"
  using assms by simp

lemma rev_upt_split:
  assumes "lo \<le> k" "k \<le> m"
  shows "rev [lo..<Suc m] = rev [Suc k..<Suc m] @ k # rev [lo..<k]"
proof -
  have "[lo..<Suc m] = [lo..<Suc k] @ [Suc k..<Suc m]"
    using assms upt_add_eq_append [of lo "Suc k" "m - k"] by simp
  then show ?thesis using assms(1) by simp
qed

lemma greedy_hd: "greedy re s ks \<Longrightarrow> \<exists>rest. ways re s = ks # rest"
proof (induction rule: greedy.induct)
  case (greedy_Rep r k s ks lo p hi)
  then obtain rest where "ways r (drop k s) = ks # rest" by blast
  then show ?case
    unfolding ways.simps rev_upt_split [OF greedy_Rep(2,3)]
    using greedy_Rep(4) by (intro exI, subst concat_first [OF refl, where y = "k # ks"]) auto
qed auto

lemma greedy_regexec: "greedy (re @ [End]) s ks \<Longrightarrow> regexec (re @ [End]) s = Some (0, ks)"
  using greedy_hd [of "re @ [End]" s ks] regexec_End_hd [of re s] regexec_first [of "re @ [End]" s] by auto

lemma greedy_regexec_anchored: "greedy (re @ [End]) s ks \<Longrightarrow> regexec_anchored (re @ [End]) s = Some (0, ks)"
  using greedy_hd [of "re @ [End]" s ks] regexec_End_hd [of re s] by (auto simp: regexec_anchored_def)

text \<open>Steps of the greediest match that need no backtracking.\<close>

lemma greedy_run:
  assumes "greedy r b ks" "list_all p a" "b = [] \<or> \<not> p (hd b)" "lo \<le> length a"
  shows "greedy (Rep p lo None # r) (a @ b) (length a # ks)"
proof (rule greedy_Rep)
  have "takeWhile p (a @ b) = a" using assms(2,3)
    by (cases b) (auto simp: takeWhile_append list_all_iff takeWhile_eq_all_conv)
  then have "most p None (a @ b) = length a" by (simp add: most_def)
  then show "length a \<le> most p None (a @ b)"
    and "\<And>k'. length a < k' \<Longrightarrow> k' \<le> most p None (a @ b) \<Longrightarrow> ways r (drop k' (a @ b)) = []" by simp_all
qed (use assms in simp_all)

lemma greedy_one:
  assumes "greedy r s ks" "p c" "lo \<le> 1"
  shows "greedy (Rep p lo (Some 1) # r) (c # s) (1 # ks)"
  by (rule greedy_Rep) (use assms in \<open>auto simp: most_def\<close>)

lemma greedy_none:
  assumes "greedy r s ks" "s = [] \<or> \<not> p (hd s)"
  shows "greedy (Rep p 0 hi # r) s (0 # ks)"
  by (rule greedy_Rep) (use assms in \<open>cases s; auto simp: most_def split: option.splits\<close>)+

text \<open>A literal that does not occur cannot be matched.\<close>

lemma fits_absent:
  assumes "Lit c \<in> set re" "c \<notin> set s"
  shows "\<not> fits re s ks"
  using assms
proof (induction re s ks rule: fits.induct)
  case (2 p lo hi r s k ks)
  show ?case
  proof (cases "Lit c \<in> set r")
    case True
    then show ?thesis using 2 in_set_dropD by fastforce
  next
    case False
    with 2(2) have "p = (\<lambda>d. d = c)" "lo = 1" by auto
    then show ?thesis using 2(3) by (cases s; cases k) auto
  qed
qed auto

lemma ways_absent: "Lit c \<in> set re \<Longrightarrow> c \<notin> set s \<Longrightarrow> ways re s = []"
  using fits_absent in_ways by (metis list.set_intros(1) neq_Nil_conv)

end
