(* ===== verification/File.thy ===== *)
theory File
  imports Strutils
begin

text \<open>
  \<^verbatim>\<open>src/fand/file.c\<close> and \<^verbatim>\<open>src/fand/filesystem.c\<close> over a small model of the kernel.

  The state \<open>fs\<close> holds the contents of the regular files, the directories, the sockets and the table
  of open file descriptors.  What the kernel may refuse is an argument: a record \<open>io\<close> says which of
  the calls of one operation fail, with which \<open>errno\<close>, and which descriptor the next \<open>open\<close> returns.
  Attribute files of sysfs are files whose content is the last value written.  Paths are absolute
  strings; \<open>realpath\<close> is an argument.
\<close>

section \<open>Characters and bytes\<close>

definition chars :: "byte list \<Rightarrow> string" where
  "chars bs = map (\<lambda>b. char_of (unat b)) bs"

definition bytes :: "string \<Rightarrow> byte list" where
  "bytes s = map (\<lambda>c. of_nat (of_char c)) s"

lemma length_chars [simp]: "length (chars bs) = length bs"
  by (simp add: chars_def)

lemma length_bytes [simp]: "length (bytes s) = length s"
  by (simp add: bytes_def)

lemma chars_bytes [simp]: "chars (bytes s) = s"
  unfolding chars_def bytes_def map_map
  by (rule map_idI) (simp add: unsigned_of_nat take_bit_nat_eq_self)

lemma bytes_chars [simp]: "bytes (chars bs) = bs"
  unfolding chars_def bytes_def map_map
proof (rule map_idI)
  fix b :: byte
  have "of_char (char_of (unat b) :: char) = unat b"
    using unsigned_less [of b, where 'a = nat] by simp
  then show "((\<lambda>c. of_nat (of_char c)) \<circ> (\<lambda>b. char_of (unat b))) b = b" by simp
qed

section \<open>The kernel\<close>

record fs =
  fs_files :: "string \<Rightarrow> byte list option"
  fs_dirs :: "string \<Rightarrow> bool"
  fs_sockets :: "string \<Rightarrow> bool"
  fs_fds :: "int \<Rightarrow> string option"

record io =
  io_open_err :: "int option"
  io_lock_err :: "int option"
  io_read_err :: bool
  io_write_err :: bool
  io_close_err :: bool
  io_newfd :: int

definition io_ok :: "int \<Rightarrow> io" where
  "io_ok fd = \<lparr>io_open_err = None, io_lock_err = None, io_read_err = False, io_write_err = False,
     io_close_err = False, io_newfd = fd\<rparr>"

definition no_files :: fs where
  "no_files = \<lparr>fs_files = Map.empty, fs_dirs = (\<lambda>_. False), fs_sockets = (\<lambda>_. False), fs_fds = Map.empty\<rparr>"

definition put_file :: "fs \<Rightarrow> string \<Rightarrow> byte list \<Rightarrow> fs" where
  "put_file s path content = s\<lparr>fs_files := (fs_files s)(path \<mapsto> content)\<rparr>"

definition path_exists :: "fs \<Rightarrow> string \<Rightarrow> bool" where
  "path_exists s path \<longleftrightarrow> fs_files s path \<noteq> None \<or> fs_dirs s path \<or> fs_sockets s path"

definition sys_close :: "fs \<Rightarrow> int \<Rightarrow> int \<times> fs" where
  "sys_close s fd = (if fs_fds s fd = None then (- 1, s) else (0, s\<lparr>fs_fds := (fs_fds s)(fd := None)\<rparr>))"

section \<open>file.c\<close>

abbreviation (input) FILE_ULONG_BUFSIZE :: nat where "FILE_ULONG_BUFSIZE \<equiv> 16"

datatype fmode = Mode_r | Mode_w

text \<open>\<open>fopen(path, "r")\<close> and \<open>fopen(path, "w")\<close>: the \<open>errno\<close>, or success.\<close>

definition fopen :: "io \<Rightarrow> fs \<Rightarrow> string \<Rightarrow> fmode \<Rightarrow> int option \<times> fs" where
  "fopen k s path mode =
     (case io_open_err k of
        Some e \<Rightarrow> (Some e, s)
      | None \<Rightarrow> (case mode of
                   Mode_r \<Rightarrow> (if fs_files s path = None then (Some ENOENT, s) else (None, s))
                 | Mode_w \<Rightarrow> (None, put_file s path [])))"

definition fopen_excl :: "io \<Rightarrow> fs \<Rightarrow> string \<Rightarrow> fmode \<Rightarrow> int option \<times> fs" where
  "fopen_excl k s path mode =
     (case fopen k s path mode of
        (Some e, s') \<Rightarrow> (Some e, s')
      | (None, s') \<Rightarrow> (io_lock_err k, s'))"

text \<open>A failure to release the lock is only logged.\<close>

definition fclose_excl :: "io \<Rightarrow> int" where
  "fclose_excl k = (if io_close_err k then - 1 else 0)"

text \<open>What \<open>fprintf\<close> buffered reaches the file when \<open>fclose\<close> succeeds.\<close>

definition fwrite_ulong_excl :: "io \<Rightarrow> fs \<Rightarrow> string \<Rightarrow> u64 \<Rightarrow> int \<times> fs" where
  "fwrite_ulong_excl k s path value =
     (case fopen_excl k s path Mode_w of
        (Some e, s') \<Rightarrow> (- 1, s')
      | (None, s') \<Rightarrow>
          (fclose_excl k, if io_close_err k then s' else put_file s' path (bytes (print_ulong value))))"

text \<open>\<open>fgets\<close>: at most \<open>n - 1\<close> characters, up to and including a newline; the line and the rest.\<close>

fun fgets_loop :: "nat \<Rightarrow> string \<Rightarrow> string \<times> string" where
  "fgets_loop 0 s = ([], s)"
| "fgets_loop (Suc n) [] = ([], [])"
| "fgets_loop (Suc n) (c # s) =
     (if c = CHR 0x0A then ([c], s) else case fgets_loop n s of (line, rest) \<Rightarrow> (c # line, rest))"

definition fgets :: "nat \<Rightarrow> string \<Rightarrow> (string \<times> string) option" where
  "fgets n s = (if s = [] then None else Some (fgets_loop (n - 1) s))"

text \<open>The result is \<open>errno\<close> when the file cannot be opened or locked.\<close>

definition fread_ulong_excl :: "io \<Rightarrow> fs \<Rightarrow> string \<Rightarrow> u64 \<Rightarrow> int \<times> u64" where
  "fread_ulong_excl k s path value =
     (case fopen_excl k s path Mode_r of
        (Some e, _) \<Rightarrow> (e, value)
      | (None, _) \<Rightarrow>
          (case (if io_read_err k then None
                 else fgets FILE_ULONG_BUFSIZE (chars (the (fs_files s path)))) of
             None \<Rightarrow> (- EAGAIN, value)
           | Some (line, _) \<Rightarrow> strstoul (takeWhile (\<lambda>c. c \<noteq> CHR 0x0A) (cstr (line @ [NUL]))) value))"

definition fdopen_excl :: "io \<Rightarrow> fs \<Rightarrow> string \<Rightarrow> int \<times> fs" where
  "fdopen_excl k s path =
     (if io_open_err k \<noteq> None \<or> fs_files s path = None then (- 1, s)
      else (io_newfd k, s\<lparr>fs_fds := (fs_fds s)(io_newfd k \<mapsto> path)\<rparr>))"

definition fdclose_excl :: "fs \<Rightarrow> int \<Rightarrow> int \<times> fs" where
  "fdclose_excl s fd = (case sys_close s fd of (r, s') \<Rightarrow> (if r \<noteq> 0 then (- 1, s') else (0, s')))"

definition fdwrite_ulong :: "io \<Rightarrow> fs \<Rightarrow> int \<Rightarrow> u64 \<Rightarrow> int \<times> fs" where
  "fdwrite_ulong k s fd value =
     (let buffer = take (FILE_ULONG_BUFSIZE - 1) (print_ulong value) in
      case fs_fds s fd of
        None \<Rightarrow> (- 1, s)
      | Some path \<Rightarrow> if io_write_err k then (- 1, s) else (0, put_file s path (bytes buffer)))"

text \<open>Whether \<open>strtoul\<close> finds neither a terminator nor another character that stops it.\<close>

definition strtoul_overruns :: "char list \<Rightarrow> bool" where
  "strtoul_overruns buffer \<longleftrightarrow>
     (let s1 = dropWhile isspace buffer;
          s2 = (if s1 \<noteq> [] \<and> (hd s1 = CHR ''-'' \<or> hd s1 = CHR ''+'') then tl s1 else s1)
      in dropWhile isdigit s2 = [])"

text \<open>
  \<open>fdread_ulong\<close> reads one character at a time, from \<open>content\<close>, until a newline or a NUL; \<open>err\<close> is the call
  of \<open>read\<close> that fails, if any.  At the end of the file \<open>read\<close> returns 0 and leaves the uninitialised
  character as it is.  The call for the seventeenth character writes past the end of the buffer.
\<close>

fun fdread_loop :: "string \<Rightarrow> nat option \<Rightarrow> char list \<Rightarrow> nat list \<Rightarrow> char list option" where
  "fdread_loop content err buffer [] = None"
| "fdread_loop content err buffer (i # rest) =
     (if err = Some i then Some buffer
      else if i \<ge> FILE_ULONG_BUFSIZE then None
      else let c = (if i < length content then content ! i else buffer ! i);
               buffer' = buffer[i := c] in
        if c = CHR 0x0A \<or> c = NUL then Some buffer' else fdread_loop content err buffer' rest)"

definition fdread_ulong :: "string \<Rightarrow> nat option \<Rightarrow> char list \<Rightarrow> u64 \<Rightarrow> (int \<times> u64) option" where
  "fdread_ulong content err buffer value =
     (case fdread_loop content err buffer [0..<Suc FILE_ULONG_BUFSIZE] of
        None \<Rightarrow> None
      | Some b \<Rightarrow>
          if NUL \<notin> set b \<and> strtoul_overruns b then None else Some (strstoul (cstr b) value))"

text \<open>The newline is not removed: a line with a number is refused.\<close>

lemma fdread_ulong_newline:
  "fdread_ulong [CHR ''7'', CHR 0x0A] None (replicate 16 NUL) 0 = Some (- EINVAL, 7)"
  by code_simp

section \<open>filesystem.c\<close>

text \<open>The offset of the last slash (\<open>strrchr\<close>).\<close>

definition strrchr :: "string \<Rightarrow> char \<Rightarrow> nat option" where
  "strrchr s c = (if c \<in> set s then Some (length s - 1 - length (takeWhile (\<lambda>d. d \<noteq> c) (rev s))) else None)"

definition fsys_strip_filename :: "string \<Rightarrow> int \<times> string" where
  "fsys_strip_filename path =
     (case strrchr path CHR ''/'' of None \<Rightarrow> (- ENOENT, path) | Some i \<Rightarrow> (0, take i path))"

definition fsys_check_entry :: "fs \<Rightarrow> string \<Rightarrow> int" where
  "fsys_check_entry s path = (if path_exists s path then 0 else ENOENT)"

definition fsys_dir_exists :: "fs \<Rightarrow> string \<Rightarrow> bool" where
  "fsys_dir_exists s path = fs_dirs s path"

definition fsys_file_exists :: "fs \<Rightarrow> string \<Rightarrow> bool" where
  "fsys_file_exists s path \<longleftrightarrow> fs_files s path \<noteq> None"

text \<open>\<open>strscpy(buf + pos, src, bufsize - pos)\<close> on a buffer of \<open>bufsize\<close> characters.\<close>

definition strscpy_at :: "char list \<Rightarrow> nat \<Rightarrow> string \<Rightarrow> (int \<times> char list) option" where
  "strscpy_at buf pos src =
     map_option (\<lambda>(r, b). (r, take pos buf @ b)) (strscpy (drop pos buf) src (length buf - pos))"

definition fsys_append :: "char list \<Rightarrow> string \<Rightarrow> (int \<times> char list) option" where
  "fsys_append stem app =
     (let pos = length (cstr stem) in
      case strscpy_at stem pos ''/'' of
        None \<Rightarrow> None
      | Some (r, stem1) \<Rightarrow>
          if int pos + r < 0 then Some (int pos + r, stem1)
          else let pos1 = nat (int pos + r) in
            case strscpy_at stem1 pos1 app of
              None \<Rightarrow> None
            | Some (r', stem2) \<Rightarrow> Some (int pos1 + r', stem2))"

definition fsys_abspath :: "(string \<Rightarrow> string option) \<Rightarrow> char list \<Rightarrow> string \<Rightarrow> (int \<times> char list) option" where
  "fsys_abspath realpath dst path =
     (case realpath path of
        None \<Rightarrow> Some (- 1, dst)
      | Some buffer \<Rightarrow>
          (case strscpy dst buffer (length dst) of
             None \<Rightarrow> None
           | Some (nbytes, dst') \<Rightarrow> Some (if nbytes < 0 then (- 1, dst') else (nbytes, dst'))))"

record inotify_watch =
  watch_fd :: int
  watch_wd :: int
  watch_flags :: u32
  watch_triggered :: bool

record inotify_event =
  ev_mask :: u32
  ev_len :: nat
  ev_name :: string

text \<open>
  \<open>fsys_watch_init\<close>: \<open>fd\<close> and \<open>wd\<close> are what \<open>inotify_init1\<close> and \<open>inotify_add_watch\<close> return.  The
  buffer \<open>abspath\<close> is a local array of 256 characters.
\<close>

definition fsys_watch_init ::
    "(string \<Rightarrow> string option) \<Rightarrow> fs \<Rightarrow> string \<Rightarrow> inotify_watch \<Rightarrow> u32 \<Rightarrow> int \<Rightarrow> int \<Rightarrow> (int \<times> inotify_watch \<times> fs) option" where
  "fsys_watch_init realpath s path watch flags fd wd =
     (if fsys_check_entry s path \<noteq> 0 then Some (- 1, watch, s)
      else case fsys_abspath realpath (replicate 256 NUL) path of
        None \<Rightarrow> None
      | Some (r, abspath) \<Rightarrow>
          if r < 0 then Some (- 1, watch, s)
          else case (if fsys_dir_exists s (cstr abspath) then (0, cstr abspath)
                     else fsys_strip_filename (cstr abspath)) of (err, dir) \<Rightarrow>
            if err \<noteq> 0 then Some (- 1, watch, s)
            else if \<not> fsys_dir_exists s dir then Some (- 1, watch, s)
            else if fd = - 1 then Some (- 1, watch, s)
            else if wd = - 1 then Some (- 1, watch, s)
            else Some (0, watch\<lparr>watch_fd := fd, watch_wd := wd, watch_flags := flags, watch_triggered := False\<rparr>,
                       s\<lparr>fs_fds := (fs_fds s)(fd \<mapsto> dir)\<rparr>))"

text \<open>
  The events that \<open>read\<close> delivers are a list, \<open>None\<close> when nothing is available.
\<close>

definition event_matches :: "string \<Rightarrow> u32 \<Rightarrow> inotify_event \<Rightarrow> bool" where
  "event_matches filename flags ev \<longleftrightarrow>
     ev_mask ev AND flags \<noteq> 0 \<and> ev_len ev \<noteq> 0 \<and> ev_name ev = filename"

fun watch_scan :: "string \<Rightarrow> inotify_watch \<Rightarrow> inotify_event list \<Rightarrow> inotify_watch" where
  "watch_scan filename watch [] = watch"
| "watch_scan filename watch (ev # evs) =
     (if event_matches filename (watch_flags watch) ev then watch\<lparr>watch_triggered := True\<rparr>
      else watch_scan filename watch evs)"

definition fsys_watch_event :: "string \<Rightarrow> inotify_watch \<Rightarrow> inotify_event list option \<Rightarrow> int \<times> inotify_watch" where
  "fsys_watch_event path watch events =
     (let watch1 = watch\<lparr>watch_triggered := False\<rparr>;
          filename = (case strrchr path CHR ''/'' of None \<Rightarrow> path | Some i \<Rightarrow> drop (i + 1) path)
      in case events of None \<Rightarrow> (0, watch1) | Some evs \<Rightarrow> (0, watch_scan filename watch1 evs))"

definition fsys_watch_clear :: "bool \<Rightarrow> fs \<Rightarrow> inotify_watch \<Rightarrow> int \<times> fs" where
  "fsys_watch_clear rm_fails s watch =
     (if watch_fd watch = - 1 \<and> watch_wd watch = - 1 then (0, s)
      else case sys_close s (watch_fd watch) of (r, s') \<Rightarrow> (if rm_fails \<or> r = - 1 then - 1 else 0, s'))"

section \<open>Copies into the rest of a buffer\<close>

lemma strscpy_at_fits:
  assumes "pos \<le> length buf" "length src < length buf - pos"
  shows "strscpy_at buf pos src =
    Some (int (length src), take pos buf @ src @ NUL # drop (Suc (length src)) (drop pos buf))"
  using assms strscpy_fits [of src "length buf - pos" "drop pos buf"] by (simp add: strscpy_at_def)

lemma strscpy_at_truncates:
  assumes "pos < length buf" "length buf - pos \<le> length src"
  shows "strscpy_at buf pos src = Some (- E2BIG, take pos buf @ take (length buf - pos - 1) src @ [NUL])"
  using assms strscpy_truncates [of "length buf - pos" src "drop pos buf"] by (simp add: strscpy_at_def)

lemma strscpy_at_return:
  assumes "strscpy_at dst pos src = Some (r, dst')" "pos < length dst"
  shows "r = - E2BIG \<or> r = int (length src) \<and> pos + length src < length dst"
  using assms strscpy_at_fits [of pos dst src] strscpy_at_truncates [of pos dst src]
  by (cases "length src < length dst - pos") auto

section \<open>Reading back what was written\<close>

lemma length_print_nat: "n < 10 ^ Suc k \<Longrightarrow> length (print_nat n) \<le> Suc k"
proof (induction k arbitrary: n)
  case 0
  then show ?case by (subst print_nat.simps) simp
next
  case (Suc k)
  show ?case
  proof (cases "n < 10")
    case True
    then show ?thesis by (subst print_nat.simps) simp
  next
    case False
    have "n div 10 < 10 ^ Suc k" using Suc.prems by (simp add: div_less_iff_less_mult)
    from Suc.IH [OF this] False show ?thesis by (subst print_nat.simps) simp
  qed
qed

lemma fgets_loop_append: "fgets_loop n s = (line, rest) \<Longrightarrow> s = line @ rest"
  by (induction n s arbitrary: line rule: fgets_loop.induct) (auto split: if_splits prod.splits)

lemma fgets_consumes: "fgets (Suc (Suc n)) s = Some (line, rest) \<Longrightarrow> length rest < length s"
  using fgets_loop_append [of n "tl s"] by (cases s) (fastforce simp: fgets_def split: if_splits prod.splits)+

lemma fgets_whole_line:
  assumes "CHR 0x0A \<notin> set line" "Suc (length line) < n"
  shows "fgets n (line @ CHR 0x0A # rest) = Some (line @ [CHR 0x0A], rest)"
proof -
  have "fgets_loop m (line @ CHR 0x0A # rest) = (line @ [CHR 0x0A], rest)" if "length line < m" for m
    using assms(1) that
  proof (induction line arbitrary: m)
    case Nil
    then show ?case by (cases m) auto
  next
    case (Cons c line)
    then show ?case by (cases m) auto
  qed
  with assms(2) show ?thesis by (simp add: fgets_def)
qed

lemma fgets_loop_no_newline:
  "CHR 0x0A \<notin> set s \<Longrightarrow> length s \<le> n \<Longrightarrow> fgets_loop n s = (s, [])"
  by (induction n s rule: fgets_loop.induct) auto

lemma digits_plain:
  assumes "\<forall>c \<in> set s. isdigit c"
  shows "CHR 0x0A \<notin> set s" and "NUL \<notin> set s"
  using assms by (auto simp: isdigit_def)

lemma fread_digits:
  assumes "\<forall>c \<in> set s. isdigit c" "s \<noteq> []" "length s < FILE_ULONG_BUFSIZE"
    and "fs_files f path = Some (bytes s)" "io_open_err k = None" "io_lock_err k = None" "\<not> io_read_err k"
  shows "fread_ulong_excl k f path v = strstoul s v"
proof -
  note p = digits_plain [OF assms(1)]
  have "takeWhile (\<lambda>c. c \<noteq> CHR 0x0A) (cstr (s @ [NUL])) = s"
    using p by (auto simp: cstr_def takeWhile_append takeWhile_eq_all_conv)
  moreover have "fgets_loop 15 s = (s, [])" using p assms(3) by (intro fgets_loop_no_newline) simp_all
  ultimately show ?thesis
    using assms(2-7) by (simp add: fread_ulong_excl_def fopen_excl_def fopen_def fgets_def)
qed

text \<open>A sensor file of sysfs: a number and a newline.\<close>

lemma fread_digits_line:
  assumes "\<forall>c \<in> set s. isdigit c" "s \<noteq> []" "Suc (length s) < FILE_ULONG_BUFSIZE"
    and "fs_files f path = Some (bytes (s @ [CHR 0x0A]))" "io_open_err k = None" "io_lock_err k = None" "\<not> io_read_err k"
  shows "fread_ulong_excl k f path v = strstoul s v"
proof -
  note p = digits_plain [OF assms(1)]
  have "cstr (s @ [CHR 0x0A, NUL]) = s @ [CHR 0x0A]" using p by (auto simp: cstr_def takeWhile_append takeWhile_eq_all_conv)
  moreover have "takeWhile (\<lambda>c. c \<noteq> CHR 0x0A) (s @ [CHR 0x0A]) = s"
    using p by (auto simp: takeWhile_append takeWhile_eq_all_conv)
  moreover have "fgets 16 (s @ [CHR 0x0A]) = Some (s @ [CHR 0x0A], [])" using p assms(3) fgets_whole_line [of s 16 "[]"] by simp
  ultimately show ?thesis using assms(4-7) by (simp add: fread_ulong_excl_def fopen_excl_def fopen_def)
qed

section \<open>Properties\<close>

text \<open>
  A value of at most fifteen digits that \<open>fwrite_ulong_excl\<close> wrote is what \<open>fread_ulong_excl\<close>
  returns, whatever the file held before (every value the daemon writes is at most 255; the read
  buffer holds fifteen digits).
\<close>

theorem fread_fwrite_roundtrip:
  assumes "fwrite_ulong_excl k s path value = (0, s')" and "unat value < 10 ^ 15"
    and "io_open_err k' = None" and "io_lock_err k' = None" and "\<not> io_read_err k'"
  shows "fread_ulong_excl k' s' path v = (0, value)"
proof -
  have f: "fs_files s' path = Some (bytes (print_ulong value))"
    using assms(1) by (auto simp: fwrite_ulong_excl_def fclose_excl_def put_file_def split: prod.splits option.splits if_splits)
  have d: "\<forall>c \<in> set (print_ulong value). isdigit c" "print_ulong value \<noteq> []"
    by (simp_all add: print_ulong_def digits_print_nat)
  have "length (print_ulong value) \<le> 15"
    using length_print_nat [of "unat value" 14] assms(2) by (simp add: print_ulong_def)
  then have "fread_ulong_excl k' s' path v = strstoul (print_ulong value) v"
    using fread_digits [OF d _ f assms(3-5)] by simp
  moreover have "digits_val (print_ulong value) = unat value" by (simp add: print_ulong_def digits_val_print_nat)
  ultimately show ?thesis
    using strstoul_digits [OF d(2,1), of v] unsigned_less [of "value", where 'a = nat] by simp
qed

theorem fread_fwrite_roundtrip_witness:
  "\<exists>s'. fwrite_ulong_excl (io_ok 3) \<lparr>fs_files = Map.empty, fs_dirs = (\<lambda>_. False), fs_sockets = (\<lambda>_. False), fs_fds = Map.empty\<rparr>
      ''/sys/pwm1'' 255 = (0, s') \<and> fread_ulong_excl (io_ok 3) s' ''/sys/pwm1'' 0 = (0, 255)"
  using fread_fwrite_roundtrip [of "io_ok 3" "\<lparr>fs_files = Map.empty, fs_dirs = (\<lambda>_. False), fs_sockets = (\<lambda>_. False), fs_fds = Map.empty\<rparr>"
      "''/sys/pwm1''" 255 _ "io_ok 3" 0]
  by (simp add: fwrite_ulong_excl_def fopen_excl_def fopen_def fclose_excl_def io_ok_def)

lemma watch_scan_eq:
  "watch_scan filename watch evs =
     watch\<lparr>watch_triggered := watch_triggered watch \<or> (\<exists>ev \<in> set evs. event_matches filename (watch_flags watch) ev)\<rparr>"
  by (induction evs) auto

lemma strrchr_append:
  assumes "c \<notin> set name"
  shows "strrchr (dir @ c # name) c = Some (length dir)"
proof -
  have "takeWhile (\<lambda>d. d \<noteq> c) (rev (dir @ c # name)) = rev name"
    using assms by (simp add: takeWhile_append takeWhile_eq_all_conv)
  then show ?thesis by (simp add: strrchr_def)
qed

text \<open>
  C32: the configuration watch fires exactly for the configured file.  After \<open>fsys_watch_event\<close> the
  flag is set if and only if the events read contain one with a watched mask and the file name of the
  path (the part after the last slash); a flag left over from an earlier call is cleared, also when
  nothing can be read.
\<close>

theorem fsys_watch_event_correct:
  assumes "CHR ''/'' \<notin> set name"
  shows "fsys_watch_event (dir @ CHR ''/'' # name) watch events =
    (0, watch\<lparr>watch_triggered := (\<exists>evs. events = Some evs \<and>
        (\<exists>ev \<in> set evs. ev_mask ev AND watch_flags watch \<noteq> 0 \<and> ev_len ev \<noteq> 0 \<and> ev_name ev = name))\<rparr>)"
  using strrchr_append [OF assms, of dir]
  by (auto simp: fsys_watch_event_def Let_def watch_scan_eq event_matches_def split: option.split)

theorem fsys_watch_event_correct_witness:
  "fsys_watch_event (''/etc'' @ CHR ''/'' # ''f.conf'')
     \<lparr>watch_fd = 5, watch_wd = 1, watch_flags = 2, watch_triggered = False\<rparr>
     (Some [\<lparr>ev_mask = 2, ev_len = 16, ev_name = ''g''\<rparr>, \<lparr>ev_mask = 2, ev_len = 16, ev_name = ''f.conf''\<rparr>]) =
   (0, \<lparr>watch_fd = 5, watch_wd = 1, watch_flags = 2, watch_triggered = True\<rparr>)"
  using fsys_watch_event_correct [of "''f.conf''" "''/etc''"] by simp

end
