(* ===== verification/Interpolation.thy ===== *)
theory Interpolation
  imports Prelude Complex_Main "HOL-Library.Log_Nat"
begin

text \<open>
  \<^verbatim>\<open>src/fand/interpolation.c\<close>: linear interpolation in single precision.

  A \<open>float\<close> is the rational number it denotes.  Every operation of the source rounds its exact
  result to a 24-bit significand, ties to even (IEEE 754 binary32, the default rounding mode, no
  excess precision: \<open>FLT_EVAL_METHOD\<close> is 0 on x86-64).  The exponent is not bounded in the model:
  the operands are 64-bit integers and quotients of them, so a non-zero intermediate value lies
  between \<open>2 powi -64\<close> and \<open>2 powi 129\<close>, and no subnormal number occurs; results of \<open>2 powi 128\<close> and
  above (infinity in C) only occur for factors above 1, which no caller passes.  \<^term>\<open>None\<close> is a
  result that is not a finite number, or a conversion to \<open>unsigned long\<close> out of its range.
\<close>

section \<open>Single-precision rounding\<close>

definition round_half_even :: "rat \<Rightarrow> int" where
  "round_half_even x =
     (let f = \<lfloor>x\<rfloor>; d = x - of_int f
      in if d < 1 / 2 then f else if d > 1 / 2 then f + 1 else if even f then f else f + 1)"

text \<open>The exponent \<open>e\<close> with \<open>2 powi e \<le> x < 2 powi (e + 1)\<close>, for positive \<open>x\<close>.\<close>

definition float_exponent :: "rat \<Rightarrow> int" where
  "float_exponent x =
     (let (p, q) = quotient_of x; e = bitlen p - bitlen q
      in if 2 powi e \<le> x then e else e - 1)"

definition float_round :: "rat \<Rightarrow> rat" where
  "float_round x =
     (if x = 0 then 0
      else let ulp = 2 powi (float_exponent \<bar>x\<bar> - 23)
           in of_int (round_half_even (x / ulp)) * ulp)"

definition float_of_u64 :: "u64 \<Rightarrow> rat" where
  "float_of_u64 w = float_round (of_nat (unat w))"

text \<open>\<open>round\<close> of the C library: halfway cases away from zero.\<close>

definition c_round :: "rat \<Rightarrow> int" where
  "c_round x = (if 0 \<le> x then \<lfloor>x + 1 / 2\<rfloor> else - \<lfloor>- x + 1 / 2\<rfloor>)"

section \<open>The two functions of the source\<close>

definition lerp_inverse :: "u64 \<Rightarrow> u64 \<Rightarrow> u64 \<Rightarrow> rat option" where
  "lerp_inverse a b x =
     (if b = a then None else Some (float_round (float_of_u64 (x - a) / float_of_u64 (b - a))))"

definition lerp :: "u64 \<Rightarrow> u64 \<Rightarrow> rat \<Rightarrow> u64 option" where
  "lerp a b x =
     (let r = c_round (float_round (float_of_u64 a + float_round (float_of_u64 (b - a) * x)))
      in if 0 \<le> r \<and> r < 2 ^ 64 then Some (word_of_int r) else None)"

section \<open>The rounding is monotone and exact on 24-bit integers\<close>

lemma round_half_even_int [simp]: "round_half_even (of_int k) = k"
  by (simp add: round_half_even_def)

lemma round_half_even_floor:
  "round_half_even x = \<lfloor>x\<rfloor> \<or> round_half_even x = \<lfloor>x\<rfloor> + 1 \<and> x - of_int \<lfloor>x\<rfloor> \<ge> 1 / 2"
  by (auto simp: round_half_even_def Let_def)

lemma round_half_even_mono: "x \<le> y \<Longrightarrow> round_half_even x \<le> round_half_even y"
proof -
  assume le: "x \<le> y"
  then have "\<lfloor>x\<rfloor> \<le> \<lfloor>y\<rfloor>" by (rule floor_mono)
  then consider "\<lfloor>x\<rfloor> + 1 \<le> \<lfloor>y\<rfloor>" | "\<lfloor>x\<rfloor> = \<lfloor>y\<rfloor>" by linarith
  then show ?thesis
  proof cases
    case 1
    then show ?thesis using round_half_even_floor [of x] round_half_even_floor [of y] by linarith
  next
    case 2
    with le show ?thesis by (auto simp: round_half_even_def Let_def)
  qed
qed

lemma bitlen_powi:
  assumes "0 < k"
  shows "2 powi (bitlen k - 1) \<le> (of_int k :: rat)" and "(of_int k :: rat) < 2 powi bitlen k"
proof -
  have pos: "0 < bitlen k"
    using assms bitlen_nonneg [of k] bitlen_eq_zero_iff [of k] by linarith
  have "2 ^ nat (bitlen k - 1) \<le> k" "k < 2 ^ nat (bitlen k)"
    using bitlen_bounds [OF assms] by simp_all
  then have "of_int (2 ^ nat (bitlen k - 1)) \<le> (of_int k :: rat)"
    "(of_int k :: rat) < of_int (2 ^ nat (bitlen k))"
    by (simp_all only: of_int_le_iff of_int_less_iff)
  then show "2 powi (bitlen k - 1) \<le> (of_int k :: rat)" and "(of_int k :: rat) < 2 powi bitlen k"
    using pos by (simp_all add: power_int_nonneg_exp)
qed

lemma float_exponent_bounds:
  assumes "0 < x"
  shows "2 powi float_exponent x \<le> x" and "x < 2 powi (float_exponent x + 1)"
proof -
  obtain p q where pq: "quotient_of x = (p, q)" by (cases "quotient_of x")
  then have q: "0 < q" and x: "x = of_int p / of_int q"
    by (simp_all add: quotient_of_denom_pos quotient_of_div)
  with assms have p: "0 < p" by (simp add: zero_less_divide_iff)
  let ?e = "bitlen p - bitlen q"
  have "2 powi (?e - 1) = (2 powi (bitlen p - 1) :: rat) / 2 powi bitlen q"
    by (simp add: power_int_diff)
  also have "\<dots> \<le> of_int p / of_int q"
    using bitlen_powi(1) [OF p] bitlen_powi(2) [OF q] p q
    by (intro frac_le) simp_all
  finally have lo: "2 powi (?e - 1) \<le> x" using x by simp
  have "of_int p / of_int q < (2 powi bitlen p :: rat) / 2 powi (bitlen q - 1)"
    using bitlen_powi(2) [OF p] bitlen_powi(1) [OF q] p q
    by (intro frac_less) simp_all
  also have "\<dots> = 2 powi (?e + 1)"
    by (simp add: power_int_diff power_int_add)
  finally have hi: "x < 2 powi (?e + 1)" using x by simp
  show "2 powi float_exponent x \<le> x" and "x < 2 powi (float_exponent x + 1)"
    using lo hi by (auto simp: float_exponent_def pq Let_def not_le)
qed

lemma float_exponent_mono: "0 < x \<Longrightarrow> x \<le> y \<Longrightarrow> float_exponent x \<le> float_exponent y"
proof (rule ccontr)
  assume xy: "0 < x" "x \<le> y" and "\<not> float_exponent x \<le> float_exponent y"
  then have "(2 :: rat) powi (float_exponent y + 1) \<le> 2 powi float_exponent x"
    by (intro power_int_increasing) simp_all
  with float_exponent_bounds(1) [of x] float_exponent_bounds(2) [of y] xy show False by linarith
qed

lemma float_round_within_binade:
  assumes "0 < x"
  shows "2 powi float_exponent x \<le> float_round x" and "float_round x \<le> 2 powi (float_exponent x + 1)"
proof -
  let ?e = "float_exponent x"
  let ?u = "(2 :: rat) powi (?e - 23)"
  have u: "2 powi ?e = of_int (2 ^ 23) * ?u" "2 powi (?e + 1) = of_int (2 ^ 24) * ?u"
    by (simp_all add: power_int_diff power_int_add)
  have "of_int (2 ^ 23) \<le> x / ?u" "x / ?u \<le> of_int (2 ^ 24)"
    using float_exponent_bounds [OF assms] unfolding u by (simp_all add: field_simps)
  then have "round_half_even (of_int (2 ^ 23)) \<le> round_half_even (x / ?u)"
    "round_half_even (x / ?u) \<le> round_half_even (of_int (2 ^ 24))"
    by (blast intro: round_half_even_mono)+
  then have "(of_int (2 ^ 23) :: rat) \<le> of_int (round_half_even (x / ?u))"
    "(of_int (round_half_even (x / ?u)) :: rat) \<le> of_int (2 ^ 24)"
    unfolding round_half_even_int by (simp_all only: of_int_le_iff)
  then show "2 powi ?e \<le> float_round x" and "float_round x \<le> 2 powi (?e + 1)"
    using assms unfolding u float_round_def by (simp_all add: Let_def)
qed

lemma float_round_mono: "0 \<le> x \<Longrightarrow> x \<le> y \<Longrightarrow> float_round x \<le> float_round y"
proof -
  assume xy: "0 \<le> x" "x \<le> y"
  show ?thesis
  proof (cases "x = 0")
    case True
    then show ?thesis
      using xy float_round_within_binade(1) [of y]
      by (cases "y = 0") (auto simp: float_round_def [of 0] intro: order_trans [rotated])
  next
    case False
    with xy have x: "0 < x" by simp
    show ?thesis
    proof (cases "float_exponent x = float_exponent y")
      case True
      let ?u = "(2 :: rat) powi (float_exponent y - 23)"
      have "x / ?u \<le> y / ?u" using xy by (simp add: divide_right_mono)
      then have "round_half_even (x / ?u) \<le> round_half_even (y / ?u)" by (rule round_half_even_mono)
      with True x xy show ?thesis by (simp add: float_round_def Let_def)
    next
      case False
      with float_exponent_mono [OF x xy(2)] have "float_exponent x + 1 \<le> float_exponent y" by simp
      then have "(2 :: rat) powi (float_exponent x + 1) \<le> 2 powi float_exponent y"
        by (intro power_int_increasing) simp_all
      with float_round_within_binade(2) [OF x] float_round_within_binade(1) [of y] x xy(2)
      show ?thesis by linarith
    qed
  qed
qed

text \<open>Every number with a 24-bit significand is a fixed point, whatever its exponent.\<close>

lemma float_round_exact:
  assumes "0 \<le> m" "m \<le> 2 ^ 24"
  shows "float_round (of_int m * 2 powi k) = of_int m * 2 powi k"
proof (cases "m = 0")
  case True
  then show ?thesis by (simp add: float_round_def)
next
  case False
  let ?x = "of_int m * (2 :: rat) powi k"
  let ?e = "float_exponent ?x"
  have x: "0 < ?x" using False assms(1) by simp
  have "?x \<le> of_int (2 ^ 24) * 2 powi k"
    using assms(2) by (intro mult_right_mono) (simp_all only: of_int_le_iff, simp)
  with float_exponent_bounds(1) [OF x] have "2 powi ?e \<le> of_int (2 ^ 24) * (2 :: rat) powi k"
    by (rule order_trans)
  then have "2 powi ?e \<le> (2 :: rat) powi (24 + k)"
    by (simp add: power_int_add)
  then have e: "?e \<le> 24 + k"
    using power_int_strict_increasing [of "24 + k" ?e "2 :: rat"] by linarith
  have "\<exists>j. ?x / 2 powi (?e - 23) = of_int j"
  proof (cases "?e = 24 + k")
    case True
    then have "of_int (2 ^ 24) * 2 powi k \<le> ?x"
      using float_exponent_bounds(1) [OF x] by (simp add: power_int_add)
    then have "m = 2 ^ 24" using assms(2) by simp
    with True show ?thesis
      by (intro exI [of _ "2 ^ 23"]) (simp add: power_int_diff power_int_add)
  next
    case False
    with e have "(2 :: rat) powi k / 2 powi (?e - 23) = of_int (2 ^ nat (23 + k - ?e))"
      by (simp flip: power_int_diff add: algebra_simps power_int_nonneg_exp)
    then have "?x / 2 powi (?e - 23) = of_int (m * 2 ^ nat (23 + k - ?e))"
      by (simp add: mult.assoc flip: times_divide_eq_right)
    then show ?thesis by blast
  qed
  then obtain j where j: "?x / 2 powi (?e - 23) = of_int j" by blast
  then have "?x = of_int j * 2 powi (?e - 23)" by (simp add: field_simps)
  with j x show ?thesis by (simp add: float_round_def Let_def)
qed

text \<open>The relative error of a rounding is at most half a unit in the last place.\<close>

lemma round_half_even_error: "\<bar>of_int (round_half_even x) - x\<bar> \<le> 1 / 2"
proof -
  have "of_int \<lfloor>x\<rfloor> \<le> x" "x < of_int \<lfloor>x\<rfloor> + 1" by linarith+
  then show ?thesis
    unfolding round_half_even_def Let_def by (simp add: abs_le_iff)
qed

lemma float_round_error:
  assumes "0 \<le> x"
  shows "\<bar>float_round x - x\<bar> \<le> x / 2 ^ 24"
proof (cases "x = 0")
  case True
  then show ?thesis by (simp add: float_round_def)
next
  case False
  with assms have x: "0 < x" by simp
  let ?u = "(2 :: rat) powi (float_exponent x - 23)"
  have "float_round x - x = (of_int (round_half_even (x / ?u)) - x / ?u) * ?u"
    using x by (simp add: float_round_def Let_def left_diff_distrib)
  then have "\<bar>float_round x - x\<bar> = \<bar>of_int (round_half_even (x / ?u)) - x / ?u\<bar> * ?u"
    by (simp add: abs_mult)
  also have "\<dots> \<le> 1 / 2 * ?u"
    by (intro mult_right_mono round_half_even_error) simp
  also have "\<dots> = 2 powi float_exponent x / 2 ^ 24" by (simp add: power_int_diff)
  also have "\<dots> \<le> x / 2 ^ 24" using float_exponent_bounds(1) [OF x] by (simp add: divide_right_mono)
  finally show ?thesis .
qed

section \<open>Interpolation over any monotone rounding\<close>

text \<open>
  What the fan controller relies on holds for every rounding that is monotone and exact on small
  integers: a fraction stays in the unit interval, a blend stays between its end points, and both
  are monotone.
\<close>

locale monotone_rounding =
  fixes rnd :: "rat \<Rightarrow> rat"
  assumes rnd_mono: "0 \<le> x \<Longrightarrow> x \<le> y \<Longrightarrow> rnd x \<le> rnd y"
    and rnd_exact: "0 \<le> m \<Longrightarrow> m \<le> 2 ^ 24 \<Longrightarrow> rnd (of_int m) = of_int m"
begin

lemma rnd_0: "rnd 0 = 0" and rnd_1: "rnd 1 = 1"
  using rnd_exact [of 0] rnd_exact [of 1] by simp_all

lemma rnd_ge: "0 \<le> m \<Longrightarrow> m \<le> 2 ^ 24 \<Longrightarrow> of_int m \<le> x \<Longrightarrow> of_int m \<le> rnd x"
  using rnd_mono [of "of_int m" x] rnd_exact [of m] by simp

lemma rnd_le: "0 \<le> m \<Longrightarrow> m \<le> 2 ^ 24 \<Longrightarrow> 0 \<le> x \<Longrightarrow> x \<le> of_int m \<Longrightarrow> rnd x \<le> of_int m"
  using rnd_mono [of x "of_int m"] rnd_exact [of m] by simp

lemma rnd_nonneg: "0 \<le> x \<Longrightarrow> 0 \<le> rnd x"
  using rnd_ge [of 0 x] by simp

lemma rnd_fraction_bounds: "0 \<le> x \<Longrightarrow> x \<le> y \<Longrightarrow> 0 < y \<Longrightarrow> 0 \<le> rnd (x / y) \<and> rnd (x / y) \<le> 1"
  using rnd_nonneg [of "x / y"] rnd_le [of 1 "x / y"] by simp

lemma rnd_fraction_mono: "0 \<le> x \<Longrightarrow> x \<le> x' \<Longrightarrow> 0 < y \<Longrightarrow> rnd (x / y) \<le> rnd (x' / y)"
  by (intro rnd_mono) (simp_all add: divide_right_mono)

lemma rnd_blend_bounds:
  assumes "0 \<le> a" "a \<le> b" "b \<le> 2 ^ 24" "0 \<le> t" "t \<le> 1"
  shows "of_int a \<le> rnd (of_int a + rnd (of_int (b - a) * t))"
    and "rnd (of_int a + rnd (of_int (b - a) * t)) \<le> of_int b"
proof -
  have "of_int (b - a) * t \<le> of_int (b - a)"
    using assms by (intro mult_left_le) simp_all
  then have "rnd (of_int (b - a) * t) \<le> of_int (b - a)"
    using assms by (intro rnd_le) simp_all
  moreover have "0 \<le> rnd (of_int (b - a) * t)"
    using assms by (intro rnd_nonneg) simp
  ultimately show "of_int a \<le> rnd (of_int a + rnd (of_int (b - a) * t))"
    and "rnd (of_int a + rnd (of_int (b - a) * t)) \<le> of_int b"
    using assms by (intro rnd_ge rnd_le; simp)+
qed

lemma rnd_blend_mono:
  assumes "0 \<le> a" "a \<le> b" "0 \<le> t" "t \<le> t'"
  shows "rnd (of_int a + rnd (of_int (b - a) * t)) \<le> rnd (of_int a + rnd (of_int (b - a) * t'))"
proof -
  have "rnd (of_int (b - a) * t) \<le> rnd (of_int (b - a) * t')"
    using assms by (intro rnd_mono mult_left_mono) simp_all
  moreover have "0 \<le> rnd (of_int (b - a) * t)"
    using assms by (intro rnd_nonneg) simp
  ultimately show ?thesis
    using assms by (intro rnd_mono) simp_all
qed

lemma rnd_blend_ends:
  assumes "0 \<le> a" "a \<le> b" "b \<le> 2 ^ 24"
  shows "rnd (of_int a + rnd (of_int (b - a) * 0)) = of_int a"
    and "rnd (of_int a + rnd (of_int (b - a) * 1)) = of_int b"
  using assms rnd_exact [of a] rnd_exact [of b] rnd_exact [of "b - a"] by (simp_all add: rnd_0)

end

interpretation binary32: monotone_rounding float_round
proof unfold_locales
  fix m :: int assume "0 \<le> m" "m \<le> 2 ^ 24"
  then show "float_round (of_int m) = of_int m"
    using float_round_exact [of m 0] by simp
qed (rule float_round_mono)

section \<open>The source functions on 24-bit integers\<close>

lemma c_round_bounds:
  assumes "of_int m \<le> x" "x \<le> of_int n" "0 \<le> m"
  shows "m \<le> c_round x" and "c_round x \<le> n"
proof -
  have "0 \<le> x" using assms(1,3) by (metis of_int_0_le_iff order_trans)
  then have "c_round x = \<lfloor>x + 1 / 2\<rfloor>" by (simp add: c_round_def)
  moreover have "m \<le> \<lfloor>x + 1 / 2\<rfloor>" using assms(1) by (simp add: le_floor_iff)
  moreover have "\<lfloor>x + 1 / 2\<rfloor> < n + 1" using assms(2) unfolding floor_less_iff by simp
  ultimately show "m \<le> c_round x" and "c_round x \<le> n" by simp_all
qed

lemma c_round_mono: "0 \<le> x \<Longrightarrow> x \<le> y \<Longrightarrow> c_round x \<le> c_round y"
  by (simp add: c_round_def floor_mono)

lemma c_round_of_int: "0 \<le> k \<Longrightarrow> c_round (of_int k) = k"
  using c_round_bounds [of k "of_int k" k] by simp

lemma unat_of_nat_u64: "n \<le> 2 ^ 24 \<Longrightarrow> unat (of_nat n :: u64) = n"
  by (simp add: unsigned_of_nat take_bit_nat_eq_self)

lemma unat_diff_u64:
  "a \<le> b \<Longrightarrow> b \<le> 2 ^ 24 \<Longrightarrow> unat (of_nat b - of_nat a :: u64) = b - a"
  by (simp add: unat_of_nat_u64 flip: of_nat_diff)

lemma float_of_u64_exact: "n \<le> 2 ^ 24 \<Longrightarrow> float_of_u64 (of_nat n) = of_nat n"
  using binary32.rnd_exact [of "int n"] by (simp add: float_of_u64_def unat_of_nat_u64)

lemma float_of_u64_diff: "a \<le> b \<Longrightarrow> b \<le> 2 ^ 24 \<Longrightarrow> float_of_u64 (of_nat b - of_nat a) = of_nat (b - a)"
  using float_of_u64_exact [of "b - a"] by (simp add: of_nat_diff)

text \<open>The value of \<open>lerp\<close> and of \<open>lerp_inverse\<close> without the word conversions.\<close>

definition blend :: "nat \<Rightarrow> nat \<Rightarrow> rat \<Rightarrow> int" where
  "blend a b t = c_round (float_round (of_nat a + float_round (of_nat (b - a) * t)))"

definition fraction :: "nat \<Rightarrow> nat \<Rightarrow> nat \<Rightarrow> rat" where
  "fraction a b x = float_round (of_nat (x - a) / of_nat (b - a))"

lemma lerp_inverse_fraction:
  assumes "a \<le> x" "x \<le> 2 ^ 24" "a < b" "b \<le> 2 ^ 24"
  shows "lerp_inverse (of_nat a) (of_nat b) (of_nat x) = Some (fraction a b x)"
proof -
  have "(of_nat b :: u64) \<noteq> of_nat a"
    using assms by (metis less_le_not_le less_irrefl order.strict_implies_order order_trans unat_of_nat_u64)
  with assms show ?thesis
    by (simp add: lerp_inverse_def fraction_def float_of_u64_diff)
qed

lemma fraction_bounds: "a \<le> x \<Longrightarrow> x \<le> b \<Longrightarrow> a < b \<Longrightarrow> 0 \<le> fraction a b x \<and> fraction a b x \<le> 1"
  unfolding fraction_def by (intro binary32.rnd_fraction_bounds) simp_all

lemma fraction_mono: "x \<le> x' \<Longrightarrow> a < b \<Longrightarrow> fraction a b x \<le> fraction a b x'"
  unfolding fraction_def by (intro binary32.rnd_fraction_mono) simp_all

lemma fraction_end: "a < b \<Longrightarrow> fraction a b b = 1"
  by (simp add: fraction_def binary32.rnd_1)

lemma blend_between:
  assumes "a \<le> b" "b \<le> 2 ^ 24" "0 \<le> t" "t \<le> 1"
  shows "int a \<le> blend a b t" and "blend a b t \<le> int b"
  using c_round_bounds [of "int a" _ "int b"] binary32.rnd_blend_bounds [of "int a" "int b" t] assms
  by (simp_all add: blend_def of_nat_diff)

lemma blend_mono:
  assumes "a \<le> b" "b \<le> 2 ^ 24" "0 \<le> t" "t \<le> t'" "t' \<le> 1"
  shows "blend a b t \<le> blend a b t'"
  unfolding blend_def
proof (rule c_round_mono)
  show "float_round (of_nat a + float_round (of_nat (b - a) * t))
      \<le> float_round (of_nat a + float_round (of_nat (b - a) * t'))"
    using binary32.rnd_blend_mono [of "int a" "int b" t t'] assms by (simp add: of_nat_diff)
  show "0 \<le> float_round (of_nat a + float_round (of_nat (b - a) * t))"
    using assms by (intro binary32.rnd_nonneg add_nonneg_nonneg) simp_all
qed

lemma blend_end: "a \<le> b \<Longrightarrow> b \<le> 2 ^ 24 \<Longrightarrow> blend a b 1 = int b"
  using binary32.rnd_blend_ends(2) [of "int a" "int b"] c_round_of_int [of "int b"]
  by (simp add: blend_def of_nat_diff)

lemma lerp_blend:
  assumes "a \<le> b" "b \<le> 2 ^ 24" "0 \<le> t" "t \<le> 1"
  shows "lerp (of_nat a) (of_nat b) t = Some (word_of_int (blend a b t))"
proof -
  have "float_of_u64 (of_nat a) = of_nat a"
    using assms by (intro float_of_u64_exact) simp
  with blend_between [OF assms] assms show ?thesis
    by (simp add: lerp_def float_of_u64_diff blend_def [symmetric] Let_def del: of_nat_diff)
qed

section \<open>A falling interval\<close>

text \<open>
  When the upper end is below the lower one, the unsigned difference wraps to almost \<open>2\<^sup>6\<^sup>4\<close>, which
  single precision rounds to \<open>2\<^sup>6\<^sup>4\<close>.  The sum is then a multiple of a large power of two.
\<close>

lemma float_of_wrapped: "b < a \<Longrightarrow> a \<le> 255 \<Longrightarrow> float_of_u64 (of_nat b - of_nat a) = 2 ^ 64"
proof -
  assume ab: "b < a" "a \<le> 255"
  have "(of_nat b - of_nat a :: u64) = of_nat (2 ^ 64 - (a - b))"
    using ab by (simp add: of_nat_diff)
  moreover have "unat (of_nat (2 ^ 64 - (a - b)) :: u64) = 2 ^ 64 - (a - b)"
    using ab by (simp only: unsigned_of_nat) (simp add: take_bit_nat_eq_self)
  ultimately have "unat (of_nat b - of_nat a :: u64) = 2 ^ 64 - (a - b)" by (simp only:)
  moreover have "(of_nat (2 ^ 64 - (a - b)) :: rat) = of_int (2 ^ 64 - int (a - b))"
    using ab by (simp add: of_nat_diff)
  ultimately have f: "float_of_u64 (of_nat b - of_nat a) = float_round (of_int (2 ^ 64 - int (a - b)))"
    by (simp only: float_of_u64_def)
  have top: "float_round (of_int (2 ^ 64)) = 2 ^ 64"
    using float_round_exact [of 1 64] by (simp add: power_int_nonneg_exp)
  have bottom: "float_round (of_int (2 ^ 64 - 255)) = 2 ^ 64" by code_simp
  have "float_round (of_int (2 ^ 64 - 255)) \<le> float_round (of_int (2 ^ 64 - int (a - b)))"
    using ab by (intro float_round_mono) simp_all
  moreover have "float_round (of_int (2 ^ 64 - int (a - b))) \<le> float_round (of_int (2 ^ 64))"
    using ab by (intro float_round_mono) simp_all
  ultimately show ?thesis unfolding f top bottom by simp
qed

lemma float_round_multiple:
  assumes "2 powi k \<le> x"
  shows "\<exists>j. float_round x = of_int j * 2 powi (k - 23)"
proof -
  have x: "0 < x" using assms less_le_trans [of 0 "2 powi k" x] by simp
  let ?e = "float_exponent x"
  have "k \<le> ?e"
  proof (rule ccontr)
    assume "\<not> k \<le> ?e"
    then have "(2 :: rat) powi (?e + 1) \<le> 2 powi k" by (intro power_int_increasing) simp_all
    with assms float_exponent_bounds(2) [OF x] show False by simp
  qed
  then have "(2 :: rat) powi (?e - k) = of_int (2 ^ nat (?e - k))" by (simp add: power_int_nonneg_exp)
  moreover have "(2 :: rat) powi (?e - 23) = 2 powi (?e - k) * 2 powi (k - 23)"
    using power_int_add [of "2 :: rat" "?e - k" "k - 23"] by simp
  ultimately have "(2 :: rat) powi (?e - 23) = of_int (2 ^ nat (?e - k)) * 2 powi (k - 23)" by simp
  then have "float_round x = of_int (round_half_even (x / 2 powi (?e - 23)) * 2 ^ nat (?e - k)) * 2 powi (k - 23)"
    using x by (simp add: float_round_def Let_def)
  then show ?thesis by blast
qed

lemma fraction_interior:
  assumes "c < x" "x < d" "d \<le> 255"
  shows "1 / 256 \<le> fraction c d x" and "fraction c d x \<le> 999 / 1000"
proof -
  define n m where "n = x - c" and "m = d - c"
  have nm: "1 \<le> n" "n + 1 \<le> m" "m \<le> 255" using assms by (simp_all add: n_def m_def)
  then have q: "(of_nat n :: rat) \<ge> 1" "of_nat n + 1 \<le> (of_nat m :: rat)" "(of_nat m :: rat) \<le> 255"
    using of_nat_mono [of 1 n, where 'a = rat] of_nat_mono [of "n + 1" m, where 'a = rat]
      of_nat_mono [of m 255, where 'a = rat] by simp_all
  then have lo: "1 / 255 \<le> (of_nat n :: rat) / of_nat m" and hi: "(of_nat n :: rat) / of_nat m \<le> 254 / 255"
    by (simp_all add: field_simps)
  have err: "\<bar>fraction c d x - of_nat n / of_nat m\<bar> \<le> of_nat n / of_nat m / 2 ^ 24"
    unfolding fraction_def n_def m_def by (rule float_round_error) simp
  show "1 / 256 \<le> fraction c d x" and "fraction c d x \<le> 999 / 1000"
    using err lo hi unfolding abs_le_iff by simp_all
qed

lemma c_int_multiple: "c_int (word_of_int (j * 2 ^ 32) :: u64) = 0"
proof -
  have "(ucast (word_of_int k :: u64) :: u32) = word_of_int k" for k
    by (simp add: unsigned_of_int word_of_int_eq_iff take_bit_take_bit)
  moreover have "(word_of_int (j * 2 ^ 32) :: u32) = 0"
    unfolding word_of_int_eq_0_iff by simp
  ultimately show ?thesis by (simp only: c_int_def) simp
qed

lemma lerp_falling:
  assumes "b < a" "a \<le> 255" "c < x" "x < d" "d \<le> 255"
  shows "\<exists>w. lerp (of_nat a) (of_nat b) (fraction c d x) = Some w \<and> c_int w = 0"
proof -
  define t where "t = fraction c d x"
  note t = fraction_interior [OF assms(3-5), folded t_def]
  define N where "N = float_round (2 ^ 64 * t)"
  define s where "s = float_round (of_nat a + N)"
  have lower: "2 powi 56 \<le> 2 ^ 64 * t" using t(1) by (simp add: power_int_nonneg_exp)
  have N: "2 powi 56 \<le> N"
    unfolding N_def using float_round_mono [OF _ lower] float_round_exact [of 1 56] by simp
  have errN: "\<bar>N - 2 ^ 64 * t\<bar> \<le> 2 ^ 64 * t / 2 ^ 24"
    unfolding N_def using t by (intro float_round_error) simp
  have "2 powi 56 \<le> of_nat a + N" using N by (simp add: add_increasing)
  then obtain j where j: "s = of_int j * 2 powi 33" unfolding s_def using float_round_multiple by fastforce
  have pos: "0 \<le> of_nat a + N" using N by (simp add: power_int_nonneg_exp)
  have errs: "\<bar>s - (of_nat a + N)\<bar> \<le> (of_nat a + N) / 2 ^ 24"
    unfolding s_def using pos by (rule float_round_error)
  have a: "(of_nat a :: rat) \<le> 255" using of_nat_mono [OF assms(2), where 'a = rat] by simp
  have s: "s < 2 ^ 64" using errN errs a t unfolding abs_le_iff by simp
  have s0: "0 \<le> s" unfolding s_def using pos by (rule binary32.rnd_nonneg)
  define r where "r = j * 2 ^ 33"
  have sr: "s = of_int r" by (simp add: j r_def power_int_nonneg_exp)
  have r: "0 \<le> r" "r < 2 ^ 64"
    using s s0 unfolding sr by (simp_all only: of_int_0_le_iff) (metis of_int_less_iff of_int_numeral of_int_power)
  have "float_of_u64 (of_nat a) = of_nat a" using assms(2) by (intro float_of_u64_exact) simp
  then have "lerp (of_nat a) (of_nat b) t = Some (word_of_int r)"
    unfolding lerp_def float_of_wrapped [OF assms(1,2)] Let_def
    using r c_round_of_int [OF r(1)] by (simp only: N_def [symmetric] s_def [symmetric] sr) simp
  moreover have "c_int (word_of_int r :: u64) = 0"
    using c_int_multiple [of "j * 2"] by (simp add: r_def mult.assoc)
  ultimately show ?thesis by (auto simp: t_def)
qed

lemma lerp_falling_end:
  assumes "b < a" "a \<le> 255"
  shows "lerp (of_nat a) (of_nat b) 1 = None"
proof -
  have top: "float_round (2 ^ 64) = 2 ^ 64"
    using float_round_exact [of 1 64] by (simp add: power_int_nonneg_exp)
  then have "2 ^ 64 \<le> float_round (of_nat a + 2 ^ 64)"
    using float_round_mono [of "2 ^ 64" "of_nat a + 2 ^ 64"] by simp
  then have "(2 ^ 64 :: int) \<le> c_round (float_round (of_nat a + 2 ^ 64))"
    by (simp add: c_round_def le_floor_iff)
  moreover have "float_of_u64 (of_nat a) = of_nat a" using assms(2) by (intro float_of_u64_exact) simp
  ultimately show ?thesis
    unfolding lerp_def float_of_wrapped [OF assms] Let_def by (simp only: mult_1_right top) simp
qed

section \<open>Properties\<close>

text \<open>
  Between two integers of at most 24 bits in ascending order, and for a factor in the unit
  interval, \<open>lerp\<close> returns a number (no undefined conversion) that lies between the two, is monotone
  in the factor, and is the upper end for the factor 1, in spite of three roundings to single
  precision.
\<close>

theorem lerp_stays_between:
  assumes "a \<le> b" and "b \<le> 2 ^ 24" and "0 \<le> t" and "t \<le> t'" and "t' \<le> 1"
  shows "\<exists>r r'. lerp (of_nat a) (of_nat b) t = Some r \<and> lerp (of_nat a) (of_nat b) t' = Some r' \<and>
    a \<le> unat r \<and> unat r \<le> unat r' \<and> unat r' \<le> b \<and> lerp (of_nat a) (of_nat b) 1 = Some (of_nat b)"
proof -
  have t: "t \<le> 1" "0 \<le> t'" using assms by auto
  have conv: "unat (word_of_int k :: u64) = nat k" if "0 \<le> k" "k \<le> int b" for k
    using that assms(2) by (simp add: unsigned_of_int take_bit_int_eq_self)
  note B = blend_between [OF assms(1,2,3) t(1)] blend_between [OF assms(1,2) t(2) assms(5)]
  have "unat (word_of_int (blend a b t) :: u64) = nat (blend a b t)"
    "unat (word_of_int (blend a b t') :: u64) = nat (blend a b t')"
    using B by (intro conv; simp)+
  then show ?thesis
    using lerp_blend [OF assms(1,2,3) t(1)] lerp_blend [OF assms(1,2) t(2) assms(5)]
      lerp_blend [of a b 1] blend_end [OF assms(1,2)] blend_mono [OF assms] B assms
    by auto
qed

theorem lerp_stays_between_witness:
  "\<exists>r r'. lerp 20 30 (1 / 4) = Some r \<and> lerp 20 30 (1 / 2) = Some r' \<and>
    20 \<le> unat r \<and> unat r \<le> unat r' \<and> unat r' \<le> 30 \<and> lerp 20 30 1 = Some 30"
  using lerp_stays_between [of 20 30 "1 / 4" "1 / 2"] by simp

lemma c_round_near: "0 \<le> x \<Longrightarrow> \<bar>x - of_int k\<bar> < 1 / 2 \<Longrightarrow> c_round x = k"
proof -
  assume x: "0 \<le> x" and "\<bar>x - of_int k\<bar> < 1 / 2"
  then have "- (1 / 2) < x - of_int k" "x - of_int k < 1 / 2" by (simp_all only: abs_less_iff) linarith+
  then have "of_int k \<le> x + 1 / 2" "x + 1 / 2 < of_int k + 1" by linarith+
  with x show ?thesis by (simp add: c_round_def floor_eq_iff)
qed

lemma three_roundings:
  fixes q X p A s M :: rat
  assumes "\<bar>q - X\<bar> \<le> X / 2 ^ 24" "\<bar>p - q\<bar> \<le> q / 2 ^ 24" "\<bar>s - (A + p)\<bar> \<le> (A + p) / 2 ^ 24"
    and "0 \<le> X" "X \<le> M" "0 \<le> A" "A \<le> M"
  shows "\<bar>s - (A + X)\<bar> \<le> M / 2 ^ 18"
proof -
  have "q - X \<le> X / 2 ^ 24" "X - q \<le> X / 2 ^ 24" "p - q \<le> q / 2 ^ 24" "q - p \<le> q / 2 ^ 24"
    "s - (A + p) \<le> (A + p) / 2 ^ 24" "(A + p) - s \<le> (A + p) / 2 ^ 24"
    using assms(1-3) by (simp_all only: abs_le_iff) linarith+
  then have "s - (A + X) \<le> M / 2 ^ 18" "(A + X) - s \<le> M / 2 ^ 18"
    using assms(4-7) by (simp_all add: field_simps)
  then show ?thesis by linarith
qed

text \<open>
  The float that \<open>lerp\<close> rounds, for the position of \<open>x\<close> between \<open>c\<close> and \<open>d\<close>, is close to the exact
  interpolation between \<open>a\<close> and \<open>b\<close>.
\<close>

definition blend_float :: "nat \<Rightarrow> nat \<Rightarrow> rat \<Rightarrow> rat" where
  "blend_float a b t = float_round (of_nat a + float_round (of_nat (b - a) * t))"

definition exact_blend :: "nat \<Rightarrow> nat \<Rightarrow> nat \<Rightarrow> nat \<Rightarrow> nat \<Rightarrow> rat" where
  "exact_blend a b c d x = of_nat a + of_nat (b - a) * of_nat (x - c) / of_nat (d - c)"

lemma blend_blend_float: "blend a b t = c_round (blend_float a b t)"
  by (simp add: blend_def blend_float_def)

lemma blend_float_nonneg: "0 \<le> t \<Longrightarrow> 0 \<le> blend_float a b t"
  unfolding blend_float_def by (intro binary32.rnd_nonneg add_nonneg_nonneg) simp_all

lemma blend_float_error:
  assumes "a \<le> b" "c \<le> x" "x \<le> d" "c < d"
  shows "\<bar>blend_float a b (fraction c d x) - exact_blend a b c d x\<bar> \<le> of_nat b / 2 ^ 18"
proof -
  define D F where "D = (of_nat (b - a) :: rat)" and "F = (of_nat (x - c) / of_nat (d - c) :: rat)"
  define t where "t = fraction c d x"
  have F: "0 \<le> F" "F \<le> 1" and D: "0 \<le> D" "D \<le> of_nat b"
    using assms by (simp_all add: F_def D_def)
  have t0: "0 \<le> t" using fraction_bounds [of c x d] assms by (simp add: t_def)
  have "\<bar>t - F\<bar> \<le> F / 2 ^ 24" using float_round_error [OF F(1)] by (simp add: t_def fraction_def F_def)
  then have "D * \<bar>t - F\<bar> \<le> D * (F / 2 ^ 24)" using D(1) by (rule mult_left_mono)
  then have "\<bar>D * t - D * F\<bar> \<le> D * F / 2 ^ 24"
    using abs_mult [of D "t - F"] D(1) by (simp add: right_diff_distrib)
  moreover have "\<bar>float_round (D * t) - D * t\<bar> \<le> D * t / 2 ^ 24"
    using D(1) t0 by (intro float_round_error) simp
  moreover have "\<bar>blend_float a b t - (of_nat a + float_round (D * t))\<bar> \<le> (of_nat a + float_round (D * t)) / 2 ^ 24"
    unfolding blend_float_def D_def [symmetric]
    using D(1) t0 by (intro float_round_error add_nonneg_nonneg binary32.rnd_nonneg) simp_all
  moreover have "D * F \<le> of_nat b" using mult_left_le [OF F(2) D(1)] D(2) by (rule order_trans)
  ultimately have "\<bar>blend_float a b t - (of_nat a + D * F)\<bar> \<le> of_nat b / 2 ^ 18"
    using F(1) D(1) assms(1) by (intro three_roundings [of "D * t"]) simp_all
  then show ?thesis by (simp add: exact_blend_def D_def F_def t_def)
qed

lemma blend_fraction:
  assumes "a < b" "b \<le> 2 ^ 16" "a \<le> x" "x \<le> b"
  shows "blend a b (fraction a b x) = int x"
  unfolding blend_blend_float
proof (rule c_round_near)
  have "exact_blend a b a b x = of_nat x" using assms by (simp add: exact_blend_def of_nat_diff)
  moreover have "(of_nat b :: rat) / 2 ^ 18 < 1 / 2" using assms(2) by simp
  ultimately show "\<bar>blend_float a b (fraction a b x) - of_int (int x)\<bar> < 1 / 2"
    using blend_float_error [of a b a x b] assms by simp
  show "0 \<le> blend_float a b (fraction a b x)"
    using fraction_bounds [of a x b] assms by (simp add: blend_float_nonneg)
qed

text \<open>Rounding to the nearest integer adds at most one half.\<close>

lemma c_round_error: "0 \<le> x \<Longrightarrow> \<bar>of_int (c_round x) - x\<bar> \<le> 1 / 2"
proof -
  assume "0 \<le> x"
  moreover have "of_int \<lfloor>x + 1 / 2\<rfloor> \<le> x + 1 / 2" "x + 1 / 2 < of_int \<lfloor>x + 1 / 2\<rfloor> + 1" by linarith+
  ultimately have "of_int (c_round x) \<le> x + 1 / 2" "x + 1 / 2 < of_int (c_round x) + 1"
    by (simp_all only: c_round_def if_True)
  then show ?thesis by linarith
qed

lemma blend_error:
  assumes "a \<le> b" "c \<le> x" "x \<le> d" "c < d"
  shows "\<bar>of_int (blend a b (fraction c d x)) - exact_blend a b c d x\<bar> \<le> 1 / 2 + of_nat b / 2 ^ 18"
  using blend_float_error [OF assms] c_round_error [of "blend_float a b (fraction c d x)"]
    fraction_bounds [of c x d] assms blend_float_nonneg [of "fraction c d x" a b]
  unfolding blend_blend_float by linarith

text \<open>
  \<open>lerp\<close> inverts \<open>lerp_inverse\<close>: on integers of at most 16 bits, the position of \<open>x\<close> between \<open>a\<close>
  and \<open>b\<close> leads back to exactly \<open>x\<close>; the accumulated rounding error never reaches one half.
\<close>

theorem lerp_lerp_inverse:
  assumes "a < b" and "b \<le> 2 ^ 16" and "a \<le> x" and "x \<le> b"
  shows "\<exists>t. lerp_inverse (of_nat a) (of_nat b) (of_nat x) = Some t \<and> lerp (of_nat a) (of_nat b) t = Some (of_nat x)"
  using lerp_inverse_fraction [of a x b] lerp_blend [of a b "fraction a b x"] fraction_bounds [of a x b]
    blend_fraction [OF assms] assms by simp

theorem lerp_lerp_inverse_witness:
  "\<exists>t. lerp_inverse 20 30 27 = Some t \<and> lerp 20 30 t = Some 27"
  using lerp_lerp_inverse [of 20 30 27] by simp

end
