(* ===== verification/Fanctrl.thy ===== *)
theory Fanctrl
  imports Interpolation
begin

text \<open>
  The fan controller, \<^verbatim>\<open>src/fand/fanctrl.c\<close>, with the range check of \<open>hwmon_write_pwm\<close> from
  \<^verbatim>\<open>src/fand/hwmon.c\<close> and the configuration structure of \<^verbatim>\<open>src/fand/config.h\<close>.

  The static variables are the record \<open>fanctrl_state\<close>.  What the sensor returned in millidegrees (or
  a negative error) is an argument, and so is the status with which the kernel answers the write of
  a value to the \<open>pwm1\<close> file (\<open>fwrite_ulong_excl\<close>); an operation returns its status, the new state
  and the value it wrote, if any.  \<^term>\<open>None\<close> is undefined behaviour (a conversion of an
  out-of-range floating-point number).
\<close>

section \<open>Configuration data\<close>

abbreviation (input) MATRIX_MAX_SIZE :: nat where "MATRIX_MAX_SIZE \<equiv> 32"
abbreviation (input) FAND_FATAL_ERR :: int where "FAND_FATAL_ERR \<equiv> - 0x20"
abbreviation (input) PWM_MIN :: u64 where "PWM_MIN \<equiv> 0"
abbreviation (input) PWM_MAX :: u64 where "PWM_MAX \<equiv> 255"

record fand_config =
  cfg_throttle :: bool
  cfg_matrix_rows :: byte
  cfg_hysteresis :: byte
  cfg_interval :: u16
  cfg_matrix :: "byte list"

section \<open>State\<close>

record fanctrl_matrix =
  mat_rows :: byte
  mat_temps :: "byte list"
  mat_speeds :: "byte list"

record fanctrl_state =
  fs_matrix :: fanctrl_matrix
  fs_hysteresis :: byte
  fs_current_threshold :: int
  fs_throttle :: bool

abbreviation temps :: "fanctrl_state \<Rightarrow> byte list" where "temps s \<equiv> mat_temps (fs_matrix s)"
abbreviation speeds :: "fanctrl_state \<Rightarrow> byte list" where "speeds s \<equiv> mat_speeds (fs_matrix s)"
abbreviation rows :: "fanctrl_state \<Rightarrow> nat" where "rows s \<equiv> unat (mat_rows (fs_matrix s))"

text \<open>Static storage starts zeroed.\<close>

definition fanctrl_initial :: fanctrl_state where
  "fanctrl_initial =
     \<lparr>fs_matrix = \<lparr>mat_rows = 0, mat_temps = replicate 16 0, mat_speeds = replicate 16 0\<rparr>,
      fs_hysteresis = 0, fs_current_threshold = 0, fs_throttle = False\<rparr>"

section \<open>Operations\<close>

definition fanctrl_percentage_to_pwm :: "u64 \<Rightarrow> u64 option" where
  "fanctrl_percentage_to_pwm percentage =
     lerp PWM_MIN PWM_MAX (float_round (float_of_u64 percentage / 100))"

definition fanctrl_set_matrix :: "fanctrl_state \<Rightarrow> byte list \<Rightarrow> byte \<Rightarrow> int \<times> fanctrl_state" where
  "fanctrl_set_matrix s mat nrows =
     (if unat nrows > MATRIX_MAX_SIZE div 2 then (- 1, s)
      else (0, s\<lparr>fs_matrix :=
        \<lparr>mat_rows = nrows,
         mat_temps = foldl (\<lambda>ts i. ts[i := mat ! (2 * i)]) (temps s) [0..<unat nrows],
         mat_speeds = foldl (\<lambda>ss i. ss[i := mat ! (2 * i + 1)]) (speeds s) [0..<unat nrows]\<rparr>\<rparr>))"

definition fanctrl_configure :: "fanctrl_state \<Rightarrow> fand_config \<Rightarrow> int \<times> fanctrl_state" where
  "fanctrl_configure s config =
     fanctrl_set_matrix
       (s\<lparr>fs_current_threshold := - 1, fs_hysteresis := cfg_hysteresis config,
          fs_throttle := cfg_throttle config\<rparr>)
       (cfg_matrix config) (cfg_matrix_rows config)"

definition fanctrl_get_temp :: "int \<Rightarrow> int" where
  "fanctrl_get_temp sensor = (if sensor < 0 then sensor else sensor div 1000)"

definition hwmon_write_pwm :: "(u64 \<Rightarrow> int) \<Rightarrow> u64 \<Rightarrow> int \<times> u64 option" where
  "hwmon_write_pwm fwrite pwm =
     (if pwm > PWM_MAX then (FAND_FATAL_ERR, None) else (fwrite pwm, Some pwm))"

text \<open>The \<open>for\<close> loop over the intervals: the first one that contains the temperature.\<close>

definition find_interval :: "fanctrl_state \<Rightarrow> int \<Rightarrow> nat option" where
  "find_interval s temp =
     find (\<lambda>i. uint (temps s ! i) < temp \<and> uint (temps s ! (i + 1)) \<ge> temp) [0..<rows s - 1]"

text \<open>
  The threshold and the speed (an \<open>int\<close>) for a temperature, before hysteresis.  The assignment
  \<open>speed = lerp(...)\<close> converts \<open>unsigned long\<close> to \<open>int\<close>.
\<close>

definition fanctrl_select :: "fanctrl_state \<Rightarrow> int \<Rightarrow> (int \<times> int) option" where
  "fanctrl_select s temp =
     (if temp \<le> uint (temps s ! 0)
      then Some (- 1, uint (speeds s ! 0) * (if fs_throttle s then 0 else 1))
      else if temp \<le> uint (temps s ! (rows s - 1))
      then (case find_interval s temp of
              None \<Rightarrow> Some (- 1, uint (speeds s ! (rows s - 1)))
            | Some i \<Rightarrow>
                (case lerp_inverse (ucast (temps s ! i)) (ucast (temps s ! (i + 1))) (word_of_int temp) of
                   None \<Rightarrow> None
                 | Some q \<Rightarrow>
                     (case lerp (ucast (speeds s ! i)) (ucast (speeds s ! (i + 1))) q of
                        None \<Rightarrow> None
                      | Some speed \<Rightarrow> Some (int i, c_int speed))))
      else Some (int (rows s) - 1, uint (speeds s ! (rows s - 1))))"

text \<open>
  Test builds link \<open>fanctrl_get_temp\<close> and \<open>hwmon_write_pwm\<close> as weak symbols and replace them: \<open>temp\<close> is what the
  one returns, \<open>write_pwm\<close> is the other.
\<close>

definition fanctrl_adjust_with ::
    "fanctrl_state \<Rightarrow> int \<Rightarrow> (u64 \<Rightarrow> int \<times> u64 option) \<Rightarrow> (int \<times> fanctrl_state \<times> u64 option) option" where
  "fanctrl_adjust_with s temp write_pwm =
     (if rows s = 0 then Some (FAND_FATAL_ERR, s, None)
      else if temp < 0 then Some (temp, s, None)
      else case fanctrl_select s temp of
        None \<Rightarrow> None
      | Some (threshold, speed) \<Rightarrow>
          let cur = fs_current_threshold s;
              hold = (cur > - 1 \<and> threshold < cur \<and>
                      temp + uint (fs_hysteresis s) > uint (temps s ! nat cur));
              speed' = (if hold then uint (speeds s ! nat cur) else speed);
              s' = (if hold then s else s\<lparr>fs_current_threshold := threshold\<rparr>)
          in case fanctrl_percentage_to_pwm (word_of_int speed') of
               None \<Rightarrow> None
             | Some pwm \<Rightarrow> (case write_pwm pwm of (ret, written) \<Rightarrow> Some (ret, s', written)))"

definition fanctrl_adjust ::
    "fanctrl_state \<Rightarrow> int \<Rightarrow> (u64 \<Rightarrow> int) \<Rightarrow> (int \<times> fanctrl_state \<times> u64 option) option" where
  "fanctrl_adjust s sensor fwrite = fanctrl_adjust_with s (fanctrl_get_temp sensor) (hwmon_write_pwm fwrite)"

lemmas fanctrl_adjust_unfold = fanctrl_adjust_def fanctrl_adjust_with_def

definition fanctrl_get_speed :: "int \<Rightarrow> int option" where
  "fanctrl_get_speed pwm =
     (if pwm < 0 then Some (- 1)
      else map_option (\<lambda>q. \<lfloor>float_round (100 * q)\<rfloor>) (lerp_inverse PWM_MIN PWM_MAX (word_of_int pwm)))"

section \<open>The percentage of a pwm value\<close>

lemma nearest_twentieth:
  fixes s :: rat
  assumes "0 \<le> s" and near: "\<bar>s - of_nat (51 * p) / 20\<bar> < 1 / 40" and tie: "p mod 20 \<noteq> 10"
  shows "c_round s = int ((51 * p + 10) div 20)"
proof -
  define n r where "n = (51 * p + 10) div 20" and "r = (51 * p + 10) mod 20"
  have r: "0 < r" "r < 20" "51 * p + 10 = 20 * n + r"
  proof -
    have "r = (51 * (p mod 20) + 10) mod 20" unfolding r_def by (metis mod_add_left_eq mod_mult_right_eq)
    moreover have "\<forall>m \<in> {..<20 :: nat}. (51 * m + 10) mod 20 = 0 \<longrightarrow> m = 10" by code_simp
    ultimately have "r \<noteq> 0" using tie by (metis lessThan_iff mod_less_divisor zero_less_numeral)
    then show "0 < r" by simp
  qed (simp_all add: n_def r_def)
  have "(of_nat (51 * p) :: rat) + 10 = 20 * of_nat n + of_nat r"
    using arg_cong [OF r(3), of "of_nat :: nat \<Rightarrow> rat"] by simp
  moreover have "1 \<le> (of_nat r :: rat)" "(of_nat r :: rat) \<le> 19"
    using r(1,2) of_nat_mono [of 1 r, where 'a = rat] of_nat_mono [of r 19, where 'a = rat] by simp_all
  moreover have "- (1 / 40) < s - of_nat (51 * p) / 20" "s - of_nat (51 * p) / 20 < 1 / 40"
    using near by (simp_all only: abs_less_iff) linarith
  ultimately have "of_int (int n) \<le> s + 1 / 2" "s + 1 / 2 < of_int (int n) + 1"
    by (simp_all add: field_simps)
  then have "\<lfloor>s + 1 / 2\<rfloor> = int n" by (rule floor_unique)
  with assms(1) show ?thesis by (simp add: c_round_def n_def)
qed

lemma blend_ties:
  "p \<in> {10, 30, 50, 70, 90} \<Longrightarrow> blend 0 255 (fraction 0 100 p) = int ((51 * p + 10) div 20)"
proof -
  have "c_round (float_round (float_round (255 * float_round (rat_of_int 10 / 100)))) = 26"
    "c_round (float_round (float_round (255 * float_round (rat_of_int 30 / 100)))) = 77"
    "c_round (float_round (float_round (255 * float_round (rat_of_int 50 / 100)))) = 128"
    "c_round (float_round (float_round (255 * float_round (rat_of_int 70 / 100)))) = 179"
    "c_round (float_round (float_round (255 * float_round (rat_of_int 90 / 100)))) = 230"
    by code_simp+
  then show "p \<in> {10, 30, 50, 70, 90} \<Longrightarrow> blend 0 255 (fraction 0 100 p) = int ((51 * p + 10) div 20)"
    unfolding blend_def fraction_def by (elim insertE) simp_all
qed

lemma blend_percentage:
  assumes "p \<le> 100"
  shows "blend 0 255 (fraction 0 100 p) = int ((51 * p + 10) div 20)"
proof (cases "p mod 20 = 10")
  case True
  then have "p \<in> {10, 30, 50, 70, 90}"
    using assms mod_div_mult_eq [of p 20] by (cases "p div 20") auto
  then show ?thesis by (rule blend_ties)
next
  case False
  have f: "0 \<le> fraction 0 100 p" using fraction_bounds [of 0 p 100] assms by simp
  have "exact_blend 0 255 0 100 p = of_nat (51 * p) / 20" by (simp add: exact_blend_def)
  note exact = this
  have "\<bar>blend_float 0 255 (fraction 0 100 p) - of_nat (51 * p) / 20\<bar> < 1 / 40"
    using blend_float_error [of 0 255 0 p 100] assms unfolding exact by (simp del: of_nat_mult)
  with False show ?thesis
    unfolding blend_blend_float by (intro nearest_twentieth blend_float_nonneg f)
qed

lemma percentage_to_pwm_eq:
  assumes "p \<le> 100"
  shows "fanctrl_percentage_to_pwm (of_nat p) = Some (of_nat ((51 * p + 10) div 20))"
proof -
  have "float_of_u64 (of_nat p) = of_nat p" using assms by (intro float_of_u64_exact) simp
  then have "fanctrl_percentage_to_pwm (of_nat p) = lerp (of_nat 0) (of_nat 255) (fraction 0 100 p)"
    by (simp add: fanctrl_percentage_to_pwm_def fraction_def)
  also have "\<dots> = Some (word_of_int (blend 0 255 (fraction 0 100 p)))"
    using fraction_bounds [of 0 p 100] assms by (intro lerp_blend) simp_all
  finally show ?thesis unfolding blend_percentage [OF assms] by simp
qed

section \<open>Configurations and the states they load\<close>

definition row_temp :: "fand_config \<Rightarrow> nat \<Rightarrow> nat" where
  "row_temp cfg i = unat (cfg_matrix cfg ! (2 * i))"

definition row_speed :: "fand_config \<Rightarrow> nat \<Rightarrow> nat" where
  "row_speed cfg i = unat (cfg_matrix cfg ! (2 * i + 1))"

definition nrows :: "fand_config \<Rightarrow> nat" where
  "nrows cfg = unat (cfg_matrix_rows cfg)"

definition hyst :: "fand_config \<Rightarrow> nat" where
  "hyst cfg = unat (cfg_hysteresis cfg)"

text \<open>A usable matrix: 1 to 16 rows, percentages, speeds that do not fall as the rows advance.\<close>

definition matrix_ok :: "fand_config \<Rightarrow> bool" where
  "matrix_ok cfg \<longleftrightarrow> 1 \<le> nrows cfg \<and> nrows cfg \<le> 16 \<and> length (cfg_matrix cfg) = 32 \<and>
     (\<forall>i < nrows cfg. row_speed cfg i \<le> 100) \<and>
     (\<forall>i. i + 1 < nrows cfg \<longrightarrow> row_speed cfg i \<le> row_speed cfg (i + 1))"

definition ascending :: "fand_config \<Rightarrow> bool" where
  "ascending cfg \<longleftrightarrow> (\<forall>i. i + 1 < nrows cfg \<longrightarrow> row_temp cfg i < row_temp cfg (i + 1))"

text \<open>The state after \<open>cfg\<close> was loaded, whatever was adjusted since.\<close>

definition loaded :: "fand_config \<Rightarrow> fanctrl_state \<Rightarrow> bool" where
  "loaded cfg s \<longleftrightarrow> length (temps s) = 16 \<and> length (speeds s) = 16 \<and>
     mat_rows (fs_matrix s) = cfg_matrix_rows cfg \<and> nrows cfg \<le> 16 \<and>
     (\<forall>i < nrows cfg. temps s ! i = cfg_matrix cfg ! (2 * i) \<and> speeds s ! i = cfg_matrix cfg ! (2 * i + 1)) \<and>
     fs_hysteresis s = cfg_hysteresis cfg \<and> fs_throttle s = cfg_throttle cfg \<and>
     - 1 \<le> fs_current_threshold s \<and> fs_current_threshold s < int (nrows cfg)"

lemma foldl_update:
  "length (foldl (\<lambda>ts i. ts[i := f i]) xs [0..<n]) = length xs"
  "j < length xs \<Longrightarrow> foldl (\<lambda>ts i. ts[i := f i]) xs [0..<n] ! j = (if j < n then f j else xs ! j)"
  by (induction n) (auto simp: nth_list_update less_Suc_eq)

lemma configure_loads:
  assumes "length (temps s) = 16" "length (speeds s) = 16" "nrows cfg \<le> 16"
  shows "fst (fanctrl_configure s cfg) = 0" and "loaded cfg (snd (fanctrl_configure s cfg))"
    and "fs_current_threshold (snd (fanctrl_configure s cfg)) = - 1"
  using assms by (auto simp: fanctrl_configure_def fanctrl_set_matrix_def loaded_def nrows_def foldl_update not_less
      intro: less_le_trans [of _ 0])

lemma configure_too_many_rows:
  "nrows cfg > 16 \<Longrightarrow> fst (fanctrl_configure s cfg) = - 1 \<and> fs_matrix (snd (fanctrl_configure s cfg)) = fs_matrix s"
  by (simp add: fanctrl_configure_def fanctrl_set_matrix_def nrows_def)

section \<open>The selected interval\<close>

lemma crossing:
  fixes f :: "nat \<Rightarrow> int"
  assumes "f 0 < x" "x \<le> f n"
  shows "\<exists>i < n. f i < x \<and> x \<le> f (i + 1)"
  using assms(2)
proof (induction n)
  case 0
  then show ?case using assms(1) by simp
next
  case (Suc n)
  then show ?case by (cases "x \<le> f n") (auto intro: less_SucI)
qed

lemma c_int_word_of_int: "0 \<le> k \<Longrightarrow> k \<le> 255 \<Longrightarrow> c_int (word_of_int k :: u64) = k"
  using c_int_of_nat_small [of "nat k", where 'a = 64] by (simp add: of_nat_nat)

lemma byte_bounds: "unat (b :: byte) \<le> 255"
  using unsigned_less [of b, where 'a = nat] by simp

lemma row_bounds: "row_temp cfg i \<le> 255" "row_speed cfg i \<le> 255"
  by (simp_all only: row_temp_def row_speed_def byte_bounds)

lemma ucast_byte: "(ucast (b :: byte) :: u64) = of_nat (unat b)"
  by (metis of_nat_unat)

lemma loaded_rows: "loaded cfg s \<Longrightarrow> rows s = nrows cfg"
  by (simp add: loaded_def nrows_def)

lemma loaded_temp:
  assumes "loaded cfg s" "i < nrows cfg"
  shows "uint (temps s ! i) = int (row_temp cfg i)" and "(ucast (temps s ! i) :: u64) = of_nat (row_temp cfg i)"
proof -
  have eq: "temps s ! i = cfg_matrix cfg ! (2 * i)" using assms by (simp add: loaded_def)
  show "uint (temps s ! i) = int (row_temp cfg i)" by (simp add: eq row_temp_def)
  show "(ucast (temps s ! i) :: u64) = of_nat (row_temp cfg i)" by (simp only: eq row_temp_def ucast_byte)
qed

lemma loaded_speed:
  assumes "loaded cfg s" "i < nrows cfg"
  shows "uint (speeds s ! i) = int (row_speed cfg i)" and "(ucast (speeds s ! i) :: u64) = of_nat (row_speed cfg i)"
proof -
  have eq: "speeds s ! i = cfg_matrix cfg ! (2 * i + 1)" using assms by (simp add: loaded_def)
  show "uint (speeds s ! i) = int (row_speed cfg i)" by (simp add: eq row_speed_def)
  show "(ucast (speeds s ! i) :: u64) = of_nat (row_speed cfg i)" by (simp only: eq row_speed_def ucast_byte)
qed

text \<open>The interval and the speed in terms of the configuration.\<close>

definition interval_of :: "fand_config \<Rightarrow> nat \<Rightarrow> nat option" where
  "interval_of cfg temp =
     find (\<lambda>i. row_temp cfg i < temp \<and> temp \<le> row_temp cfg (i + 1)) [0..<nrows cfg - 1]"

definition speed_at :: "fand_config \<Rightarrow> nat \<Rightarrow> nat \<Rightarrow> int" where
  "speed_at cfg i temp =
     blend (row_speed cfg i) (row_speed cfg (i + 1)) (fraction (row_temp cfg i) (row_temp cfg (i + 1)) temp)"

lemma find_interval_of:
  assumes "loaded cfg s"
  shows "find_interval s (int temp) = interval_of cfg temp"
  unfolding find_interval_def interval_of_def loaded_rows [OF assms]
  by (rule find_cong [OF refl]) (auto simp: loaded_temp [OF assms])

lemma interval_of_SomeD:
  "interval_of cfg temp = Some i \<Longrightarrow>
     i + 1 < nrows cfg \<and> row_temp cfg i < temp \<and> temp \<le> row_temp cfg (i + 1)"
  by (auto simp: interval_of_def find_Some_iff)

lemma interval_of_exists:
  assumes "row_temp cfg 0 < temp" "temp \<le> row_temp cfg (nrows cfg - 1)"
  shows "\<exists>i. interval_of cfg temp = Some i"
proof -
  have "\<exists>i < nrows cfg - 1. row_temp cfg i < temp \<and> temp \<le> row_temp cfg (i + 1)"
    using crossing [of "\<lambda>i. int (row_temp cfg i)" "int temp" "nrows cfg - 1"] assms by simp
  then show ?thesis
    by (auto simp: interval_of_def find_None_iff simp flip: not_None_eq)
qed

lemma speed_at_between:
  assumes "matrix_ok cfg" "interval_of cfg temp = Some i"
  shows "int (row_speed cfg i) \<le> speed_at cfg i temp" and "speed_at cfg i temp \<le> int (row_speed cfg (i + 1))"
  unfolding speed_at_def
  using interval_of_SomeD [OF assms(2)] assms(1) row_bounds
    fraction_bounds [of "row_temp cfg i" temp "row_temp cfg (i + 1)"]
  by (intro blend_between; simp add: matrix_ok_def order_trans [OF row_bounds(2)])+

lemma select_lerp:
  assumes "matrix_ok cfg" "interval_of cfg temp = Some i" "temp \<le> 255"
  shows "lerp_inverse (of_nat (row_temp cfg i)) (of_nat (row_temp cfg (i + 1))) (of_nat temp) =
      Some (fraction (row_temp cfg i) (row_temp cfg (i + 1)) temp)"
    and "lerp (of_nat (row_speed cfg i)) (of_nat (row_speed cfg (i + 1)))
      (fraction (row_temp cfg i) (row_temp cfg (i + 1)) temp) = Some (word_of_int (speed_at cfg i temp))"
    and "c_int (word_of_int (speed_at cfg i temp) :: u64) = speed_at cfg i temp"
proof -
  note i = interval_of_SomeD [OF assms(2)]
  have sp: "row_speed cfg i \<le> row_speed cfg (i + 1)" using i assms(1) by (simp add: matrix_ok_def)
  have le: "row_temp cfg (i + 1) \<le> 2 ^ 24" "row_speed cfg (i + 1) \<le> 2 ^ 24" "temp \<le> 2 ^ 24"
    using row_bounds [of cfg "i + 1"] assms(3) by simp_all
  show "lerp_inverse (of_nat (row_temp cfg i)) (of_nat (row_temp cfg (i + 1))) (of_nat temp) =
      Some (fraction (row_temp cfg i) (row_temp cfg (i + 1)) temp)"
    using i le by (intro lerp_inverse_fraction) linarith+
  show "lerp (of_nat (row_speed cfg i)) (of_nat (row_speed cfg (i + 1)))
      (fraction (row_temp cfg i) (row_temp cfg (i + 1)) temp) = Some (word_of_int (speed_at cfg i temp))"
    unfolding speed_at_def
    using i le sp fraction_bounds [of "row_temp cfg i" temp "row_temp cfg (i + 1)"]
    by (intro lerp_blend) linarith+
  show "c_int (word_of_int (speed_at cfg i temp) :: u64) = speed_at cfg i temp"
    using speed_at_between [OF assms(1,2)] row_bounds(2) [of cfg "i + 1"]
    by (intro c_int_word_of_int) linarith+
qed

text \<open>What \<open>fanctrl_adjust\<close> selects before hysteresis: threshold index and percentage.\<close>

definition curve :: "fand_config \<Rightarrow> nat \<Rightarrow> int \<times> int" where
  "curve cfg temp =
     (if temp \<le> row_temp cfg 0 then (- 1, if cfg_throttle cfg then 0 else int (row_speed cfg 0))
      else if temp \<le> row_temp cfg (nrows cfg - 1)
      then (case interval_of cfg temp of
              Some i \<Rightarrow> (int i, speed_at cfg i temp)
            | None \<Rightarrow> (- 1, int (row_speed cfg (nrows cfg - 1))))
      else (int (nrows cfg) - 1, int (row_speed cfg (nrows cfg - 1))))"

lemma curve_cases:
  obtains (low) "temp \<le> row_temp cfg 0" "curve cfg temp = (- 1, if cfg_throttle cfg then 0 else int (row_speed cfg 0))"
  | (mid) i where "row_temp cfg 0 < temp" "temp \<le> row_temp cfg (nrows cfg - 1)" "interval_of cfg temp = Some i"
      "curve cfg temp = (int i, speed_at cfg i temp)"
  | (high) "row_temp cfg 0 < temp" "row_temp cfg (nrows cfg - 1) < temp"
      "curve cfg temp = (int (nrows cfg) - 1, int (row_speed cfg (nrows cfg - 1)))"
proof -
  consider "temp \<le> row_temp cfg 0" | "row_temp cfg 0 < temp" "temp \<le> row_temp cfg (nrows cfg - 1)"
    | "row_temp cfg 0 < temp" "row_temp cfg (nrows cfg - 1) < temp" by linarith
  then show thesis
  proof cases
    case 1
    then show thesis by (intro low) (simp_all add: curve_def)
  next
    case 2
    then obtain i where "interval_of cfg temp = Some i" using interval_of_exists by blast
    with 2 show thesis by (intro mid) (simp_all add: curve_def)
  next
    case 3
    then show thesis by (intro high) (simp_all add: curve_def)
  qed
qed

lemma curve_bounds:
  assumes "matrix_ok cfg" "curve cfg temp = (th, sp)"
  shows "- 1 \<le> th" "th < int (nrows cfg)" "0 \<le> sp" "sp \<le> 100"
proof -
  have n: "1 \<le> nrows cfg" and le: "\<And>i. i < nrows cfg \<Longrightarrow> row_speed cfg i \<le> 100"
    using assms(1) by (simp_all add: matrix_ok_def)
  have "- 1 \<le> th \<and> th < int (nrows cfg) \<and> 0 \<le> sp \<and> sp \<le> 100"
  proof (cases rule: curve_cases [of temp cfg])
    case low
    then show ?thesis using assms(2) n le [of 0] by auto
  next
    case (mid i)
    then show ?thesis
      using assms(2) speed_at_between [OF assms(1) mid(3)] interval_of_SomeD [OF mid(3)] le [of "i + 1"]
      by (auto simp: less_diff_conv)
  next
    case high
    then show ?thesis using assms(2) n le [of "nrows cfg - 1"] by auto
  qed
  then show "- 1 \<le> th" "th < int (nrows cfg)" "0 \<le> sp" "sp \<le> 100" by blast+
qed

lemma select_curve:
  assumes ld: "loaded cfg s" and ok: "matrix_ok cfg"
  shows "fanctrl_select s (int temp) = Some (curve cfg temp)"
proof -
  have n: "0 < nrows cfg" "nrows cfg - Suc 0 < nrows cfg" and thr: "fs_throttle s = cfg_throttle cfg"
    using ok ld by (auto simp: matrix_ok_def loaded_def)
  note r = loaded_rows [OF ld] loaded_temp [OF ld n(1)] loaded_temp [OF ld n(2)]
    loaded_speed [OF ld n(1)] loaded_speed [OF ld n(2)] find_interval_of [OF ld] thr
  show ?thesis
  proof (cases rule: curve_cases [of temp cfg])
    case low
    then show ?thesis by (simp add: fanctrl_select_def r)
  next
    case (mid i)
    then have "i < nrows cfg" "Suc i < nrows cfg" using interval_of_SomeD by fastforce+
    note ri = loaded_temp [OF ld this(1)] loaded_temp [OF ld this(2)] loaded_speed [OF ld this(1)]
      loaded_speed [OF ld this(2)]
    have "temp \<le> 255" using mid(2) row_bounds(1) by (rule order_trans)
    with mid show ?thesis
      using select_lerp [OF ok mid(3)] by (simp add: fanctrl_select_def r ri)
  next
    case high
    then show ?thesis by (simp add: fanctrl_select_def r)
  qed
qed

section \<open>One adjustment\<close>

text \<open>
  The temperature at which the speed of a threshold is given up lies the hysteresis below it.
\<close>

definition held :: "fand_config \<Rightarrow> int \<Rightarrow> nat \<Rightarrow> bool" where
  "held cfg cur temp \<longleftrightarrow> 0 \<le> cur \<and> fst (curve cfg temp) < cur \<and>
     row_temp cfg (nat cur) < temp + hyst cfg"

definition next_threshold :: "fand_config \<Rightarrow> int \<Rightarrow> nat \<Rightarrow> int" where
  "next_threshold cfg cur temp = (if held cfg cur temp then cur else fst (curve cfg temp))"

definition percentage :: "fand_config \<Rightarrow> int \<Rightarrow> nat \<Rightarrow> nat" where
  "percentage cfg cur temp = (if held cfg cur temp then row_speed cfg (nat cur) else nat (snd (curve cfg temp)))"

definition pwm_of :: "nat \<Rightarrow> u64" where
  "pwm_of p = of_nat ((51 * p + 10) div 20)"

lemma percentage_le:
  assumes "matrix_ok cfg" "cur < int (nrows cfg)"
  shows "percentage cfg cur temp \<le> 100"
proof (cases "held cfg cur temp")
  case True
  then have "nat cur < nrows cfg" using assms(2) by (auto simp: held_def)
  with True assms(1) show ?thesis by (simp add: percentage_def matrix_ok_def)
next
  case False
  then show ?thesis
    using curve_bounds(4) [OF assms(1), of temp] by (cases "curve cfg temp") (simp add: percentage_def)
qed

lemma pwm_of_le: "p \<le> 100 \<Longrightarrow> unat (pwm_of p) = (51 * p + 10) div 20 \<and> pwm_of p \<le> 255"
proof -
  assume p: "p \<le> 100"
  then have u: "unat (pwm_of p) = (51 * p + 10) div 20"
    unfolding pwm_of_def by (intro unat_of_nat_u64) simp
  moreover have "(51 * p + 10) div 20 \<le> 255" using p by simp
  ultimately show ?thesis by (simp add: word_le_nat_alt)
qed

lemma adjust_eq:
  assumes ld: "loaded cfg s" and ok: "matrix_ok cfg" and t: "0 \<le> sensor"
    and cur: "fs_current_threshold s = cur" and temp: "temp = nat (sensor div 1000)"
  shows "fanctrl_adjust s sensor fw =
    Some (fw (pwm_of (percentage cfg cur temp)), s\<lparr>fs_current_threshold := next_threshold cfg cur temp\<rparr>,
      Some (pwm_of (percentage cfg cur temp)))"
proof -
  obtain th sp where c: "curve cfg temp = (th, sp)" by (cases "curve cfg temp")
  have n: "rows s \<noteq> 0" using ok by (simp only: loaded_rows [OF ld] matrix_ok_def) simp
  have h: "uint (fs_hysteresis s) = int (hyst cfg)" and cur': "- 1 \<le> cur" "cur < int (nrows cfg)"
    using ld cur by (simp_all add: loaded_def hyst_def)
  have gt: "fanctrl_get_temp sensor = int temp" using t temp by (simp add: fanctrl_get_temp_def)
  have hold: "(cur > - 1 \<and> th < cur \<and> int temp + uint (fs_hysteresis s) > uint (temps s ! nat cur)) = held cfg cur temp"
  proof (cases "0 \<le> cur")
    case True
    then have "uint (temps s ! nat cur) = int (row_temp cfg (nat cur))"
      using cur' by (intro loaded_temp [OF ld]) simp
    with True c show ?thesis by (auto simp: held_def h)
  qed (simp add: held_def)
  have sp: "(if held cfg cur temp then uint (speeds s ! nat cur) else sp) = int (percentage cfg cur temp)"
    using loaded_speed(1) [OF ld, of "nat cur"] cur' c curve_bounds(3) [OF ok c]
    by (auto simp: percentage_def held_def nat_less_iff)
  have le: "percentage cfg cur temp \<le> 100" by (rule percentage_le [OF ok cur'(2)])
  have s': "(if held cfg cur temp then s else s\<lparr>fs_current_threshold := th\<rparr>) =
      s\<lparr>fs_current_threshold := next_threshold cfg cur temp\<rparr>"
    using cur c by (simp add: next_threshold_def)
  show ?thesis
    unfolding fanctrl_adjust_unfold gt Let_def select_curve [OF ld ok] c cur option.case prod.case hold sp s'
    using n pwm_of_le [OF le] percentage_to_pwm_eq [OF le, folded pwm_of_def]
    by (simp add: hwmon_write_pwm_def not_less)
qed

section \<open>Reachable states\<close>

text \<open>
  \<open>controls cfg s\<close>: \<open>s\<close> is a state of the daemon whose last accepted configuration is \<open>cfg\<close>, after
  any number of adjustments and reloads.
\<close>

inductive controls :: "fand_config \<Rightarrow> fanctrl_state \<Rightarrow> bool" where
  boot: "fanctrl_configure fanctrl_initial cfg = (0, s) \<Longrightarrow> controls cfg s"
| reload: "controls cfg s \<Longrightarrow> fanctrl_configure s cfg' = (0, s') \<Longrightarrow> controls cfg' s'"
| adjust: "controls cfg s \<Longrightarrow> fanctrl_adjust s sensor fw = Some (ret, s', written) \<Longrightarrow> controls cfg s'"

lemma configure_okD: "fanctrl_configure s cfg = (0, s') \<Longrightarrow> nrows cfg \<le> 16"
  by (auto simp: fanctrl_configure_def fanctrl_set_matrix_def nrows_def split: if_splits)

lemma select_threshold:
  assumes "fanctrl_select s temp = Some (th, sp)" "rows s \<noteq> 0"
  shows "- 1 \<le> th \<and> th < int (rows s)"
proof -
  consider "th = - 1" | "th = int (rows s) - 1" | i where "find_interval s temp = Some i" "th = int i"
  proof (cases "temp \<le> uint (temps s ! 0)")
    case True
    then show thesis using assms(1) that(1) by (simp add: fanctrl_select_def)
  next
    case False
    then show thesis
      using assms(1) that
      by (cases "temp \<le> uint (temps s ! (rows s - 1))"; cases "find_interval s temp")
        (auto simp: fanctrl_select_def split: option.split_asm)
  qed
  then show ?thesis
  proof cases
    case 3
    then have "i < rows s" by (auto simp: find_interval_def find_Some_iff)
    with 3 show ?thesis by linarith
  qed (use assms(2) in linarith)+
qed

lemma adjust_state:
  assumes "fanctrl_adjust s sensor fw = Some (ret, s', written)"
  obtains "s' = s" | th sp temp where "rows s \<noteq> 0" "fanctrl_select s temp = Some (th, sp)"
    "s' = s\<lparr>fs_current_threshold := th\<rparr>"
proof (cases "rows s = 0 \<or> fanctrl_get_temp sensor < 0")
  case True
  then show thesis using assms that(1) by (auto simp: fanctrl_adjust_unfold Let_def split: if_split_asm)
next
  case False
  then have "fanctrl_select s (fanctrl_get_temp sensor) \<noteq> None"
    using assms by (cases "fanctrl_select s (fanctrl_get_temp sensor)") (simp_all add: fanctrl_adjust_unfold)
  then obtain th sp where sel: "fanctrl_select s (fanctrl_get_temp sensor) = Some (th, sp)" by auto
  have "s' = s \<or> s' = s\<lparr>fs_current_threshold := th\<rparr>"
    using assms False sel
    by (simp add: fanctrl_adjust_unfold Let_def split: option.split_asm prod.split_asm if_split_asm)
  with False sel that show thesis by blast
qed

lemma adjust_keeps_loaded:
  assumes "loaded cfg s" "fanctrl_adjust s sensor fw = Some (ret, s', written)"
  shows "loaded cfg s'"
  using assms(2)
proof (cases rule: adjust_state)
  case (2 th sp temp)
  have "- 1 \<le> th \<and> th < int (nrows cfg)"
    using select_threshold [OF 2(2,1)] by (simp only: loaded_rows [OF assms(1)])
  with assms(1) show ?thesis unfolding 2(3) by (simp add: loaded_def)
qed (use assms(1) in simp)

lemma controls_loaded: "controls cfg s \<Longrightarrow> loaded cfg s"
proof (induction rule: controls.induct)
  case (boot cfg s)
  then show ?case
    using configure_loads(2) [of fanctrl_initial cfg] configure_okD [OF boot]
    by (simp add: fanctrl_initial_def)
next
  case (reload cfg s cfg' s')
  then show ?case
    using configure_loads(2) [of s cfg'] configure_okD [OF reload(2)] by (simp add: loaded_def)
qed (rule adjust_keeps_loaded)

fun fanctrl_run :: "fanctrl_state \<Rightarrow> int list \<Rightarrow> (u64 option list \<times> fanctrl_state) option" where
  "fanctrl_run s [] = Some ([], s)"
| "fanctrl_run s (sensor # rest) =
     (case fanctrl_adjust s sensor (\<lambda>_. 0) of
        None \<Rightarrow> None
      | Some (ret, s', written) \<Rightarrow> map_option (\<lambda>(ws, s''). (written # ws, s'')) (fanctrl_run s' rest))"

section \<open>The fan curve\<close>

lemma ascending_less:
  assumes "ascending cfg" "i < j" "j < nrows cfg"
  shows "row_temp cfg i < row_temp cfg j"
  using assms(2,3)
proof (induction j)
  case (Suc j)
  then have "row_temp cfg j < row_temp cfg (Suc j)" using assms(1) by (simp add: ascending_def)
  with Suc show ?case by (cases "i = j") auto
qed simp

lemma ascending_le:
  "ascending cfg \<Longrightarrow> i \<le> j \<Longrightarrow> j < nrows cfg \<Longrightarrow> row_temp cfg i \<le> row_temp cfg j"
  using ascending_less [of cfg i j] by (cases "i = j") auto

lemma speeds_mono:
  assumes "matrix_ok cfg" "i \<le> j" "j < nrows cfg"
  shows "row_speed cfg i \<le> row_speed cfg j"
  using assms(2,3)
proof (induction j)
  case (Suc j)
  then have "row_speed cfg j \<le> row_speed cfg (Suc j)" using assms(1) by (simp add: matrix_ok_def)
  with Suc show ?case by (cases "i = Suc j") auto
qed simp

lemma curve_threshold_below:
  assumes "ascending cfg" "cur < nrows cfg" "temp \<le> row_temp cfg cur"
  shows "fst (curve cfg temp) < int cur"
proof (cases rule: curve_cases [of temp cfg])
  case (mid i)
  then have i: "i + 1 < nrows cfg" "row_temp cfg i < temp" using interval_of_SomeD by blast+
  have "i < cur"
  proof (rule ccontr)
    assume "\<not> i < cur"
    then have "row_temp cfg cur \<le> row_temp cfg i"
      using i(1) by (intro ascending_le [OF assms(1)]) auto
    with i(2) assms(3) show False by simp
  qed
  with mid show ?thesis by simp
next
  case high
  then show ?thesis
    using assms ascending_le [OF assms(1), of cur "nrows cfg - 1"] by fastforce
qed simp

lemma speed_at_mono:
  assumes ok: "matrix_ok cfg" and asc: "ascending cfg" and le: "temp \<le> temp'"
    and m: "interval_of cfg temp = Some i" and m': "interval_of cfg temp' = Some j"
  shows "speed_at cfg i temp \<le> speed_at cfg j temp'"
proof -
  note i = interval_of_SomeD [OF m] and j = interval_of_SomeD [OF m']
  consider "i < j" | "i = j" | "j < i" by linarith
  then show ?thesis
  proof cases
    case 1
    then have "row_speed cfg (i + 1) \<le> row_speed cfg j" using j by (intro speeds_mono [OF ok]) auto
    with speed_at_between [OF ok m] speed_at_between [OF ok m'] show ?thesis by simp
  next
    case 2
    have "row_temp cfg i < row_temp cfg (i + 1)" "row_speed cfg i \<le> row_speed cfg (i + 1)"
      using i asc ok by (simp_all add: ascending_def matrix_ok_def)
    with i j 2 le row_bounds(2) [of cfg "i + 1"] have "speed_at cfg i temp \<le> speed_at cfg i temp'"
      unfolding speed_at_def
      using fraction_bounds [of "row_temp cfg i" _ "row_temp cfg (i + 1)"]
      by (intro blend_mono fraction_mono) auto
    with 2 show ?thesis by simp
  next
    case 3
    then have "row_temp cfg (j + 1) \<le> row_temp cfg i"
      using i by (intro ascending_le [OF asc]) auto
    with i j le show ?thesis by simp
  qed
qed

lemma curve_mono:
  assumes ok: "matrix_ok cfg" and asc: "ascending cfg" and le: "temp \<le> temp'"
  shows "snd (curve cfg temp) \<le> snd (curve cfg temp')"
proof -
  have n: "nrows cfg - 1 < nrows cfg" using ok by (simp add: matrix_ok_def)
  show ?thesis
  proof (cases rule: curve_cases [of temp cfg])
    case low
    show ?thesis
    proof (cases rule: curve_cases [of temp' cfg])
      case low
      with \<open>temp \<le> row_temp cfg 0\<close> show ?thesis by (simp add: curve_def)
    next
      case (mid i)
      then have "i < nrows cfg" using interval_of_SomeD by fastforce
      then show ?thesis
        using low(2) mid(4) speed_at_between(1) [OF ok mid(3)] speeds_mono [OF ok, of 0 i] by auto
    next
      case high
      then show ?thesis using low(2) speeds_mono [OF ok, of 0, OF _ n] by auto
    qed
  next
    case (mid i)
    note i = interval_of_SomeD [OF mid(3)]
    show ?thesis
    proof (cases rule: curve_cases [of temp' cfg])
      case low
      with mid(1) le show ?thesis by simp
    next
      case mid': (mid j)
      with mid(4) speed_at_mono [OF ok asc le mid(3) mid'(3)] show ?thesis by simp
    next
      case high
      have "row_speed cfg (i + 1) \<le> row_speed cfg (nrows cfg - 1)"
        using i n by (intro speeds_mono [OF ok]) auto
      with speed_at_between(2) [OF ok mid(3)] mid(4) high(3) show ?thesis by simp
    qed
  next
    case high
    then have "row_temp cfg 0 < temp'" "row_temp cfg (nrows cfg - 1) < temp'" using le by auto
    with high show ?thesis by (simp add: curve_def)
  qed
qed

lemma interval_of_unique:
  assumes "ascending cfg" "i + 1 < nrows cfg" "row_temp cfg i < temp" "temp \<le> row_temp cfg (i + 1)"
  shows "interval_of cfg temp = Some i"
proof -
  have "\<not> (row_temp cfg j < temp \<and> temp \<le> row_temp cfg (j + 1))" if "j < i" for j
    using ascending_le [OF assms(1), of "j + 1" i] that assms(2,3) by simp
  with assms(2-4) show ?thesis
    by (auto simp: interval_of_def find_Some_iff intro!: exI [of _ i])
qed

lemma curve_at_interval:
  assumes "matrix_ok cfg" "ascending cfg"
    and i: "i + 1 < nrows cfg \<and> row_temp cfg i < temp \<and> temp \<le> row_temp cfg (i + 1)"
  shows "fst (curve cfg temp) = int i \<and>
    \<bar>of_nat (nat (snd (curve cfg temp))) -
       exact_blend (row_speed cfg i) (row_speed cfg (i + 1)) (row_temp cfg i) (row_temp cfg (i + 1)) temp\<bar>
      \<le> 1 / 2 + 100 / 2 ^ 18 \<and>
    (temp = row_temp cfg (i + 1) \<longrightarrow> nat (snd (curve cfg temp)) = row_speed cfg (i + 1))"
proof -
  have int: "interval_of cfg temp = Some i" using i by (intro interval_of_unique [OF assms(2)]) auto
  have lt: "row_temp cfg 0 < temp" "temp \<le> row_temp cfg (nrows cfg - 1)"
    using i ascending_le [OF assms(2), of 0 i] ascending_le [OF assms(2), of "i + 1" "nrows cfg - 1"]
    by fastforce+
  then have c: "curve cfg temp = (int i, speed_at cfg i temp)" by (simp add: curve_def int)
  have sp: "row_speed cfg i \<le> row_speed cfg (i + 1)" "row_speed cfg (i + 1) \<le> 100"
    and tm: "row_temp cfg i < row_temp cfg (i + 1)"
    using assms(1,2) i by (simp_all add: matrix_ok_def ascending_def)
  have "\<bar>of_int (speed_at cfg i temp) -
      exact_blend (row_speed cfg i) (row_speed cfg (i + 1)) (row_temp cfg i) (row_temp cfg (i + 1)) temp\<bar>
    \<le> 1 / 2 + of_nat (row_speed cfg (i + 1)) / 2 ^ 18"
    unfolding speed_at_def using i tm by (intro blend_error sp) auto
  also have "\<dots> \<le> 1 / 2 + 100 / 2 ^ 18" using sp(2) by simp
  finally have "\<bar>of_nat (nat (speed_at cfg i temp)) -
      exact_blend (row_speed cfg i) (row_speed cfg (i + 1)) (row_temp cfg i) (row_temp cfg (i + 1)) temp\<bar>
    \<le> 1 / 2 + 100 / 2 ^ 18"
    using speed_at_between(1) [OF assms(1) int] by (simp add: of_nat_nat)
  moreover have "speed_at cfg i temp = int (row_speed cfg (i + 1))" if "temp = row_temp cfg (i + 1)"
    using that sp tm by (simp add: speed_at_def fraction_end blend_end)
  ultimately show ?thesis unfolding c fst_conv snd_conv by auto
qed

section \<open>Properties\<close>

text \<open>An example: the configuration of \<^verbatim>\<open>test/fanctrl_test.c\<close>.\<close>

definition example_config :: fand_config where
  "example_config = \<lparr>cfg_throttle = True, cfg_matrix_rows = 3, cfg_hysteresis = 3, cfg_interval = 2,
     cfg_matrix = [50, 20, 60, 50, 80, 100] @ replicate 26 0\<rparr>"

definition example_state :: fanctrl_state where
  "example_state = snd (fanctrl_configure fanctrl_initial example_config)"

lemma example_rows [simp]:
  "row_temp example_config 0 = 50" "row_temp example_config (Suc 0) = 60" "row_temp example_config (Suc (Suc 0)) = 80"
  "row_speed example_config 0 = 20" "row_speed example_config (Suc 0) = 50" "row_speed example_config (Suc (Suc 0)) = 100"
  "nrows example_config = 3" "hyst example_config = 3"
  by (simp_all add: row_temp_def row_speed_def nrows_def hyst_def example_config_def)

lemma example_ok: "matrix_ok example_config" "ascending example_config"
proof -
  have "length (cfg_matrix example_config) = 32" by (simp add: example_config_def)
  then show "matrix_ok example_config" "ascending example_config"
    by (auto simp: matrix_ok_def ascending_def numeral_3_eq_3 less_Suc_eq)
qed

lemma example_controls: "controls example_config example_state"
  by (rule controls.boot) (simp add: example_state_def fanctrl_configure_def fanctrl_set_matrix_def example_config_def)

lemma example_threshold: "fs_current_threshold example_state = - 1"
  by (simp add: example_state_def fanctrl_configure_def fanctrl_set_matrix_def)

text \<open>
  C3: the controller is safe in every state that booting, adjusting and reloading can lead to.  With
  a usable matrix, every reading of the sensor leads to exactly one write of a value in 0..255; the
  float computations never leave the range of the conversions, the fatal error of
  \<open>hwmon_write_pwm\<close> is never raised, the status is the one of the write, and the new state is again
  such a state with its threshold index inside the matrix.  A sensor error is passed on and nothing
  is written.
\<close>

theorem fanctrl_adjust_safe:
  assumes "controls cfg s" and "matrix_ok cfg"
  shows "(sensor < 0 \<longrightarrow> fanctrl_adjust s sensor fw = Some (sensor, s, None)) \<and>
    (0 \<le> sensor \<longrightarrow> (\<exists>pwm s'. fanctrl_adjust s sensor fw = Some (fw pwm, s', Some pwm) \<and> pwm \<le> 255 \<and>
       controls cfg s' \<and> - 1 \<le> fs_current_threshold s' \<and> fs_current_threshold s' < int (rows s')))"
proof (intro conjI impI)
  note ld = controls_loaded [OF assms(1)]
  assume "sensor < 0"
  moreover have "rows s \<noteq> 0" using assms(2) by (simp only: loaded_rows [OF ld] matrix_ok_def) simp
  ultimately show "fanctrl_adjust s sensor fw = Some (sensor, s, None)"
    by (simp add: fanctrl_adjust_unfold fanctrl_get_temp_def)
next
  note ld = controls_loaded [OF assms(1)]
  assume "0 \<le> sensor"
  note eq = adjust_eq [OF ld assms(2) this refl refl, of fw]
  have s': "controls cfg (s\<lparr>fs_current_threshold :=
      next_threshold cfg (fs_current_threshold s) (nat (sensor div 1000))\<rparr>)" (is "controls cfg ?s'")
    using controls.adjust [OF assms(1) eq] .
  have "fs_current_threshold s < int (nrows cfg)" using ld by (simp add: loaded_def)
  from pwm_of_le [OF percentage_le [OF assms(2) this]]
  have "pwm_of (percentage cfg (fs_current_threshold s) (nat (sensor div 1000))) \<le> 255" by blast
  moreover have "- 1 \<le> fs_current_threshold ?s'" "fs_current_threshold ?s' < int (rows ?s')"
    using controls_loaded [OF s'] unfolding loaded_rows [OF controls_loaded [OF s']] by (simp_all add: loaded_def)
  ultimately show "\<exists>pwm s'. fanctrl_adjust s sensor fw = Some (fw pwm, s', Some pwm) \<and> pwm \<le> 255 \<and>
       controls cfg s' \<and> - 1 \<le> fs_current_threshold s' \<and> fs_current_threshold s' < int (rows s')"
    using eq s' by blast
qed

theorem fanctrl_adjust_safe_witness:
  "\<exists>pwm s'. fanctrl_adjust example_state 55000 (\<lambda>_. 0) = Some (0, s', Some pwm) \<and> pwm \<le> 255"
  using fanctrl_adjust_safe [OF example_controls example_ok(1), of 55000 "\<lambda>_. 0"] by auto

text \<open>
  C8: the fan curve.  Starting from no threshold, with strictly ascending temperatures: up to the
  first temperature the fan has the first speed, or stands still when throttling; above the last one
  it has the last speed; between two rows the percentage is the exact linear interpolation up to
  rounding, \<open>1/2 + 100/2\<^sup>1\<^sup>8\<close> at most, and exactly the row's speed at the row's temperature.  The value
  written is the percentage scaled to 0..255 and rounded to the nearest integer, half up.
\<close>

theorem fanctrl_adjust_curve:
  assumes "controls cfg s" and "matrix_ok cfg" and "ascending cfg"
    and "fs_current_threshold s = - 1" and "0 \<le> sensor" and "temp = nat (sensor div 1000)"
  shows "\<exists>p s'. fanctrl_adjust s sensor fw = Some (fw (of_nat ((51 * p + 10) div 20)), s', Some (of_nat ((51 * p + 10) div 20))) \<and>
    (temp \<le> row_temp cfg 0 \<longrightarrow> p = (if cfg_throttle cfg then 0 else row_speed cfg 0) \<and> fs_current_threshold s' = - 1) \<and>
    (row_temp cfg (nrows cfg - 1) < temp \<longrightarrow> p = row_speed cfg (nrows cfg - 1) \<and> fs_current_threshold s' = int (nrows cfg) - 1) \<and>
    (\<forall>i. i + 1 < nrows cfg \<and> row_temp cfg i < temp \<and> temp \<le> row_temp cfg (i + 1) \<longrightarrow>
       fs_current_threshold s' = int i \<and>
       \<bar>of_nat p - exact_blend (row_speed cfg i) (row_speed cfg (i + 1)) (row_temp cfg i) (row_temp cfg (i + 1)) temp\<bar>
         \<le> 1 / 2 + 100 / 2 ^ 18 \<and>
       (temp = row_temp cfg (i + 1) \<longrightarrow> p = row_speed cfg (i + 1)))"
  (is "\<exists>p s'. _ \<and> ?low p s' \<and> ?high p s' \<and> (\<forall>i. ?in i \<longrightarrow> ?mid i p s')")
proof -
  note ld = controls_loaded [OF assms(1)]
  define p where "p = percentage cfg (- 1) temp"
  define s' where "s' = s\<lparr>fs_current_threshold := next_threshold cfg (- 1) temp\<rparr>"
  have eq: "fanctrl_adjust s sensor fw = Some (fw (pwm_of p), s', Some (pwm_of p))"
    unfolding p_def s'_def by (rule adjust_eq [OF ld assms(2,5,4,6)])
  have p: "p = nat (snd (curve cfg temp))" and th: "fs_current_threshold s' = fst (curve cfg temp)"
    by (simp_all add: p_def s'_def percentage_def next_threshold_def held_def)
  have n: "nrows cfg - 1 < nrows cfg" using assms(2) by (simp add: matrix_ok_def)
  have "?low p s'" using p th by (simp add: curve_def)
  moreover have "?high p s'"
    using p th ascending_le [OF assms(3), of 0, OF _ n] by (auto simp: curve_def)
  moreover have "?mid i p s'" if i: "?in i" for i
    using curve_at_interval [OF assms(2,3), of i temp] i p th by simp
  ultimately show ?thesis using eq unfolding pwm_of_def by blast
qed

theorem fanctrl_adjust_curve_witness:
  "\<exists>p s'. fanctrl_adjust example_state 70000 (\<lambda>_. 0) =
       Some (0, s', Some (of_nat ((51 * p + 10) div 20))) \<and> fs_current_threshold s' = 1 \<and>
     \<bar>of_nat p - exact_blend 50 100 60 80 70\<bar> \<le> 1 / 2 + 100 / 2 ^ 18"
proof -
  have "0 \<le> (70000 :: int)" "70 = nat (70000 div 1000)" by simp_all
  from fanctrl_adjust_curve [OF example_controls example_ok example_threshold this, of "\<lambda>_. 0"]
  obtain p s' where adj: "fanctrl_adjust example_state 70000 (\<lambda>_. 0) = Some (0, s', Some (of_nat ((51 * p + 10) div 20)))"
    and mid: "\<And>i. i + 1 < nrows example_config \<and> row_temp example_config i < 70 \<and> 70 \<le> row_temp example_config (i + 1) \<Longrightarrow>
      fs_current_threshold s' = int i \<and>
      \<bar>of_nat p - exact_blend (row_speed example_config i) (row_speed example_config (i + 1))
         (row_temp example_config i) (row_temp example_config (i + 1)) 70\<bar> \<le> 1 / 2 + 100 / 2 ^ 18"
    by blast
  from mid [of 1] have "fs_current_threshold s' = 1 \<and> \<bar>of_nat p - exact_blend 50 100 60 80 70\<bar> \<le> 1 / 2 + 100 / 2 ^ 18"
    by simp
  with adj show ?thesis by blast
qed

text \<open>
  C9: a hotter card never gets a slower fan: from a state without a threshold, with ascending
  temperatures, the value written is monotone in the reading of the sensor.
\<close>

theorem fanctrl_adjust_monotone:
  assumes "controls cfg s" and "matrix_ok cfg" and "ascending cfg"
    and "fs_current_threshold s = - 1" and "0 \<le> sensor" and "sensor \<le> sensor'"
  shows "\<exists>s1 s2 pwm pwm'. fanctrl_adjust s sensor fw = Some (fw pwm, s1, Some pwm) \<and>
    fanctrl_adjust s sensor' fw = Some (fw pwm', s2, Some pwm') \<and> pwm \<le> pwm'"
proof -
  let ?p = "\<lambda>x. percentage cfg (- 1) (nat (x div 1000))"
  note ld = controls_loaded [OF assms(1)]
  have "nat (sensor div 1000) \<le> nat (sensor' div 1000)" using assms(6) by (simp add: nat_mono zdiv_mono1)
  then have le: "?p sensor \<le> ?p sensor'"
    using curve_mono [OF assms(2,3)] by (simp add: percentage_def held_def nat_mono)
  have le': "?p sensor' \<le> 100" using percentage_le [OF assms(2), of "- 1"] by simp
  then have "unat (pwm_of (?p sensor)) \<le> unat (pwm_of (?p sensor'))"
    using le pwm_of_le [of "?p sensor"] pwm_of_le [of "?p sensor'"] by (simp add: div_le_mono)
  then have "pwm_of (?p sensor) \<le> pwm_of (?p sensor')" by (simp add: word_le_nat_alt)
  then show ?thesis
    using adjust_eq [OF ld assms(2,5,4) refl, of fw] assms(5,6)
      adjust_eq [OF ld assms(2) _ assms(4) refl, of sensor' fw] by auto
qed

theorem fanctrl_adjust_monotone_witness:
  "\<exists>s1 s2 pwm pwm'. fanctrl_adjust example_state 55000 (\<lambda>_. 0) = Some (0, s1, Some pwm) \<and>
    fanctrl_adjust example_state 75000 (\<lambda>_. 0) = Some (0, s2, Some pwm') \<and> pwm \<le> pwm'"
  using fanctrl_adjust_monotone [OF example_controls example_ok example_threshold, of 55000 75000 "\<lambda>_. 0"] by auto

lemma run_held:
  assumes "loaded cfg s" "matrix_ok cfg" "fs_current_threshold s = cur"
    and "\<And>r. r \<in> set readings \<Longrightarrow> 0 \<le> r \<and> held cfg cur (nat (r div 1000))"
  shows "fanctrl_run s readings = Some (replicate (length readings) (Some (pwm_of (row_speed cfg (nat cur)))), s)"
  using assms(4)
proof (induction readings)
  case (Cons r rest)
  then have "fanctrl_adjust s r (\<lambda>_. 0) = Some (0, s, Some (pwm_of (row_speed cfg (nat cur))))"
    using adjust_eq [OF assms(1,2) _ assms(3) refl, of r "\<lambda>_. 0"] assms(3)
    by (simp add: percentage_def next_threshold_def)
  with Cons show ?case by simp
qed simp

lemma run_append:
  "fanctrl_run s (xs @ ys) =
     (case fanctrl_run s xs of None \<Rightarrow> None
      | Some (ws, s') \<Rightarrow> map_option (\<lambda>(ws', s''). (ws @ ws', s'')) (fanctrl_run s' ys))"
proof (induction xs arbitrary: s)
  case (Cons x xs)
  show ?case
  proof (cases "fanctrl_adjust s x (\<lambda>_. 0)")
    case (Some res)
    obtain ret s' w where "res = (ret, s', w)" by (cases res)
    with Some show ?thesis
      using Cons.IH [of s'] by (cases "fanctrl_run s' xs"; cases "fanctrl_run (snd (the (fanctrl_run s' xs))) ys") auto
  qed simp
next
  case Nil
  show ?case by (cases "fanctrl_run s ys") auto
qed

text \<open>
  C7: hysteresis.  Once the temperature has exceeded the threshold of row \<open>k\<close>, then however many
  readings follow at or below that threshold but less than the hysteresis below it, the fan keeps the
  speed of row \<open>k\<close> and the threshold stays; the first reading at least the hysteresis below the
  threshold makes the fan follow the curve again.
\<close>

theorem fanctrl_hysteresis:
  assumes "controls cfg s" and "matrix_ok cfg" and "ascending cfg" and "fs_current_threshold s = int k"
    and "\<forall>r \<in> set readings. 0 \<le> r \<and> r div 1000 \<le> int (row_temp cfg k) \<and> int (row_temp cfg k) < r div 1000 + int (hyst cfg)"
    and "0 \<le> final" and "final div 1000 + int (hyst cfg) \<le> int (row_temp cfg k)"
  shows "\<exists>s'. fanctrl_run s (readings @ [final]) =
      Some (replicate (length readings) (Some (of_nat ((51 * row_speed cfg k + 10) div 20))) @
        [Some (of_nat ((51 * nat (snd (curve cfg (nat (final div 1000)))) + 10) div 20))], s') \<and>
    fs_current_threshold s' < int k"
proof -
  note ld = controls_loaded [OF assms(1)]
  have k: "k < nrows cfg" using ld assms(4) by (simp add: loaded_def)
  have "held cfg (int k) (nat (r div 1000))" if "r \<in> set readings" for r
    using assms(5) that curve_threshold_below [OF assms(3) k, of "nat (r div 1000)"]
    by (auto simp: held_def nat_le_iff)
  then have run: "fanctrl_run s readings = Some (replicate (length readings) (Some (pwm_of (row_speed cfg k))), s)"
    using run_held [OF ld assms(2,4), of readings] assms(5) by simp
  have nh: "\<not> held cfg (int k) (nat (final div 1000))"
    using assms(6,7) by (auto simp: held_def)
  have "fst (curve cfg (nat (final div 1000))) < int k"
    using assms(6,7) by (intro curve_threshold_below [OF assms(3) k]) (auto simp: nat_le_iff)
  then show ?thesis
    using adjust_eq [OF ld assms(2,6,4) refl, of "\<lambda>_. 0"] nh
    by (simp add: run_append run percentage_def next_threshold_def pwm_of_def)
qed

theorem fanctrl_hysteresis_witness:
  "\<exists>s1 s'. fanctrl_adjust example_state 70000 (\<lambda>_. 0) = Some (0, s1, Some 191) \<and>
     fanctrl_run s1 ([58000, 59000, 60000] @ [57000]) =
       Some ([Some 128, Some 128, Some 128, Some (of_nat ((51 * nat (snd (curve example_config 57)) + 10) div 20))], s') \<and>
     fs_current_threshold s' < 1"
proof -
  define s1 where "s1 = example_state\<lparr>fs_current_threshold := 1\<rparr>"
  have c: "curve example_config 70 = (1, speed_at example_config 1 70)"
    by (simp add: curve_def interval_of_def numeral_2_eq_2)
  have "blend 50 100 (fraction 60 80 70) = 75"
    unfolding blend_def fraction_def by simp code_simp
  then have "speed_at example_config 1 70 = 75" by (simp add: speed_at_def)
  then have first: "fanctrl_adjust example_state 70000 (\<lambda>_. 0) = Some (0, s1, Some 191)"
    using adjust_eq [OF controls_loaded [OF example_controls] example_ok(1) _ example_threshold, of 70000 70 "\<lambda>_. 0"]
    by (simp add: s1_def percentage_def next_threshold_def held_def c pwm_of_def)
  from controls.adjust [OF example_controls this] have s1: "controls example_config s1" .
  have k: "fs_current_threshold s1 = int 1" by (simp add: s1_def)
  show ?thesis
    using fanctrl_hysteresis [OF s1 example_ok k, of "[58000, 59000, 60000]" 57000] first by auto
qed

lemma get_speed_near:
  fixes f :: rat
  assumes "\<bar>f - 100 * (of_nat w / 255)\<bar> \<le> 1 / 1000" and "w = (51 * p + 10) div 20"
  shows "\<lfloor>f\<rfloor> = int p \<or> \<lfloor>f\<rfloor> = int p - 1"
proof -
  have "51 * p \<le> 20 * w + 10" "20 * w \<le> 51 * p + 10" unfolding assms(2) by simp_all
  then have "(of_nat (51 * p) :: rat) \<le> of_nat (20 * w + 10)" "(of_nat (20 * w) :: rat) \<le> of_nat (51 * p + 10)"
    by (simp_all only: of_nat_le_iff)
  then have "of_nat p - 1 \<le> f" "f < of_nat p + 1"
    using assms(1) unfolding abs_le_iff by (simp_all add: field_simps)
  then show ?thesis by linarith
qed

lemma get_speed_of_pwm:
  assumes "p \<le> 100"
  shows "\<exists>q. fanctrl_get_speed (int ((51 * p + 10) div 20)) = Some q \<and> (q = int p \<or> q = int p - 1)"
proof -
  define w where "w = (51 * p + 10) div 20"
  have w: "w \<le> 255" using assms by (simp add: w_def)
  have "lerp_inverse (of_nat 0) (of_nat 255) (of_nat w) = Some (fraction 0 255 w)"
    using w by (intro lerp_inverse_fraction) simp_all
  then have gs: "fanctrl_get_speed (int w) = Some \<lfloor>float_round (100 * fraction 0 255 w)\<rfloor>"
    unfolding fanctrl_get_speed_def by simp
  have f: "0 \<le> fraction 0 255 w" "fraction 0 255 w \<le> 1" using fraction_bounds [of 0 w 255] w by auto
  have "\<bar>fraction 0 255 w - of_nat w / 255\<bar> \<le> of_nat w / 255 / 2 ^ 24"
    using float_round_error [of "of_nat w / 255"] by (simp add: fraction_def)
  moreover have "(of_nat w :: rat) / 255 / 2 ^ 24 \<le> 1 / 2 ^ 24" using w by simp
  moreover have "\<bar>float_round (100 * fraction 0 255 w) - 100 * fraction 0 255 w\<bar> \<le> 100 * fraction 0 255 w / 2 ^ 24"
    using f by (intro float_round_error) simp
  moreover have "100 * fraction 0 255 w / 2 ^ 24 \<le> 100 / 2 ^ 24" using f by simp
  ultimately have "\<bar>float_round (100 * fraction 0 255 w) - 100 * (of_nat w / 255)\<bar> \<le> 1 / 1000"
    unfolding abs_le_iff by simp
  from get_speed_near [OF this w_def] gs show ?thesis unfolding w_def by blast
qed

text \<open>
  What the control interface reports after a percentage was set is that percentage or one less:
  \<open>fanctrl_get_speed\<close> truncates where \<open>fanctrl_percentage_to_pwm\<close> rounds.  A read error is reported
  as \<open>-1\<close>.
\<close>

theorem fanctrl_get_speed_after_set:
  assumes "p \<le> 100"
  shows "\<exists>pwm q. fanctrl_percentage_to_pwm (of_nat p) = Some pwm \<and> fanctrl_get_speed (uint pwm) = Some q \<and>
    (q = int p \<or> q = int p - 1) \<and> fanctrl_get_speed (- 1) = Some (- 1)"
proof -
  define w where "w = (51 * p + 10) div 20"
  have "w \<le> 255" using assms by (simp add: w_def)
  then have "unat (of_nat w :: u64) = w" by (intro unat_of_nat_u64) simp
  then have "uint (of_nat w :: u64) = int w" by (metis uint_nat)
  moreover have "fanctrl_get_speed (- 1) = Some (- 1)" by (simp add: fanctrl_get_speed_def)
  ultimately show ?thesis
    using percentage_to_pwm_eq [OF assms, folded w_def] get_speed_of_pwm [OF assms, folded w_def] by auto
qed

theorem fanctrl_get_speed_after_set_witness:
  "\<exists>pwm q. fanctrl_percentage_to_pwm 33 = Some pwm \<and> fanctrl_get_speed (uint pwm) = Some q \<and> (q = 33 \<or> q = 32)"
  using fanctrl_get_speed_after_set [of 33] by auto

lemma select_falling:
  assumes ld: "loaded cfg s" and int: "interval_of cfg temp = Some i"
    and low: "row_temp cfg 0 < temp" and high: "temp \<le> row_temp cfg (nrows cfg - 1)"
    and fall: "row_speed cfg (i + 1) < row_speed cfg i"
  shows "fanctrl_select s (int temp) = (if temp < row_temp cfg (i + 1) then Some (int i, 0) else None)"
proof -
  note i = interval_of_SomeD [OF int]
  then have ii: "i < nrows cfg" "Suc i < nrows cfg" and n: "0 < nrows cfg" "nrows cfg - Suc 0 < nrows cfg" by auto
  note r = loaded_rows [OF ld] loaded_temp [OF ld n(1)] loaded_temp [OF ld n(2)] loaded_speed [OF ld n(2)]
    loaded_temp [OF ld ii(1)] loaded_temp [OF ld ii(2)] loaded_speed [OF ld ii(1)] loaded_speed [OF ld ii(2)]
    find_interval_of [OF ld]
  let ?q = "fraction (row_temp cfg i) (row_temp cfg (i + 1)) temp"
  have le: "row_temp cfg (i + 1) \<le> 255" "row_speed cfg i \<le> 255" by (rule row_bounds)+
  have "lerp_inverse (of_nat (row_temp cfg i)) (of_nat (row_temp cfg (i + 1))) (of_nat temp) = Some ?q"
    using i le by (intro lerp_inverse_fraction) auto
  then have sel: "fanctrl_select s (int temp) =
      (case lerp (of_nat (row_speed cfg i)) (of_nat (row_speed cfg (i + 1))) ?q of
         None \<Rightarrow> None | Some speed \<Rightarrow> Some (int i, c_int speed))"
    using low high int by (simp add: fanctrl_select_def r)
  show ?thesis
  proof (cases "temp < row_temp cfg (i + 1)")
    case True
    then obtain w where "lerp (of_nat (row_speed cfg i)) (of_nat (row_speed cfg (i + 1))) ?q = Some w" "c_int w = 0"
      using lerp_falling [OF fall le(2) _ True le(1)] i by blast
    with True show ?thesis by (simp add: sel)
  next
    case False
    with i have "temp = row_temp cfg (i + 1)" by simp
    with i have "?q = 1" by (simp add: fraction_end)
    with False lerp_falling_end [OF fall le(2)] show ?thesis by (simp add: sel)
  qed
qed

text \<open>
  C27: what happens when the speed falls from one row to the next, which nothing rejects: the unsigned
  difference in \<open>lerp\<close> wraps, and for every temperature strictly between the two rows the fan is
  switched off (0 is written), however large both speeds are; at the upper row's own temperature the
  conversion to \<open>unsigned long\<close> is out of range.
\<close>

theorem fanctrl_adjust_falling_speeds:
  assumes "controls cfg s" and "ascending cfg" and "fs_current_threshold s = - 1" and "0 \<le> sensor"
    and "i + 1 < nrows cfg" and "row_speed cfg (i + 1) < row_speed cfg i" and "temp = nat (sensor div 1000)"
    and "row_temp cfg i < temp" and "temp \<le> row_temp cfg (i + 1)"
  shows "fanctrl_adjust s sensor fw =
    (if temp < row_temp cfg (i + 1) then Some (fw 0, s\<lparr>fs_current_threshold := int i\<rparr>, Some 0) else None)"
proof -
  note ld = controls_loaded [OF assms(1)]
  have int: "interval_of cfg temp = Some i" by (rule interval_of_unique [OF assms(2,5,8,9)])
  have "row_temp cfg 0 < temp" "temp \<le> row_temp cfg (nrows cfg - 1)"
    using assms(5,8,9) ascending_le [OF assms(2), of 0 i] ascending_le [OF assms(2), of "i + 1" "nrows cfg - 1"]
    by fastforce+
  note sel = select_falling [OF ld int this assms(6)]
  have gt: "fanctrl_get_temp sensor = int temp" using assms(4,7) by (simp add: fanctrl_get_temp_def)
  have n: "rows s \<noteq> 0" using assms(5) by (simp only: loaded_rows [OF ld])
  have "fanctrl_percentage_to_pwm 0 = Some 0" using percentage_to_pwm_eq [of 0] by simp
  then show ?thesis
    using n by (simp add: fanctrl_adjust_unfold gt sel assms(3) hwmon_write_pwm_def)
qed

definition falling_config :: fand_config where
  "falling_config = \<lparr>cfg_throttle = False, cfg_matrix_rows = 2, cfg_hysteresis = 3, cfg_interval = 2,
     cfg_matrix = [50, 100, 90, 90] @ replicate 28 0\<rparr>"

theorem fanctrl_adjust_falling_speeds_witness:
  "\<exists>s. controls falling_config s \<and>
     fanctrl_adjust s 89000 (\<lambda>_. 0) = Some (0, s\<lparr>fs_current_threshold := 0\<rparr>, Some 0) \<and>
     fanctrl_adjust s 90000 (\<lambda>_. 0) = None"
proof -
  define s where "s = snd (fanctrl_configure fanctrl_initial falling_config)"
  have s: "controls falling_config s" "fs_current_threshold s = - 1"
    by (auto simp: s_def fanctrl_configure_def fanctrl_set_matrix_def falling_config_def intro: controls.boot)
  have r: "row_temp falling_config 0 = 50" "row_temp falling_config (Suc 0) = 90" "row_speed falling_config 0 = 100"
    "row_speed falling_config (Suc 0) = 90" "nrows falling_config = 2"
    by (simp_all add: row_temp_def row_speed_def nrows_def falling_config_def)
  then have asc: "ascending falling_config" by (auto simp: ascending_def less_Suc_eq numeral_2_eq_2)
  have prem: "0 + 1 < nrows falling_config" "row_speed falling_config (0 + 1) < row_speed falling_config 0"
    "row_temp falling_config 0 < 89" "89 \<le> row_temp falling_config (0 + 1)"
    "row_temp falling_config 0 < 90" "90 \<le> row_temp falling_config (0 + 1)" by (simp_all add: r)
  have sens: "0 \<le> (89000 :: int)" "89 = nat (89000 div 1000)" "0 \<le> (90000 :: int)" "90 = nat (90000 div 1000)"
    by simp_all
  note inside = fanctrl_adjust_falling_speeds [OF s(1) asc s(2) sens(1) prem(1,2) sens(2) prem(3,4), of "\<lambda>_. 0"]
  note at_end = fanctrl_adjust_falling_speeds [OF s(1) asc s(2) sens(3) prem(1,2) sens(4) prem(5,6), of "\<lambda>_. 0"]
  have "89 < row_temp falling_config (0 + 1)" "\<not> 90 < row_temp falling_config (0 + 1)" by (simp_all add: r)
  with inside at_end s(1) show ?thesis by auto
qed

end
