(* ===== verification/Config.thy ===== *)
theory Config
  imports Regex File Fanctrl
begin

text \<open>
  \<^verbatim>\<open>src/fand/config.c\<close>: the parser of the configuration file.

  A C string in a buffer is the list of its characters; the buffers whose size matters are arrays.
  The file is the list of its remaining characters, which \<open>fgets\<close> consumes.  \<open>config_env\<close> says which
  calls of \<open>regcomp\<close> succeed, by the description the program passes to \<open>regcomp_info\<close>.  Line numbers
  are only used in log messages and left out.  \<^term>\<open>None\<close> is undefined behaviour.
\<close>

section \<open>The expressions\<close>

abbreviation (input) CONFIG_BUFFER_SIZE :: nat where "CONFIG_BUFFER_SIZE \<equiv> 256"
abbreviation (input) CONFIG_KEY_SIZE :: nat where "CONFIG_KEY_SIZE \<equiv> 64"
abbreviation (input) CONFIG_NUMBUF_SIZE :: nat where "CONFIG_NUMBUF_SIZE \<equiv> 4"
abbreviation (input) MAX_TEMP_THRESHOLDS :: nat where "MAX_TEMP_THRESHOLDS \<equiv> 16"

abbreviation (input) quote_char :: char where "quote_char \<equiv> CHR 0x27"
abbreviation (input) dquote_char :: char where "dquote_char \<equiv> CHR 0x22"
abbreviation (input) newline_char :: char where "newline_char \<equiv> CHR 0x0A"

text \<open>\<open>'[0-9]+::[0-9]+'\<close>\<close>

definition pair_items :: "item list" where
  "pair_items = [Lit quote_char, Plus isdigit, Lit CHR '':'', Lit CHR '':'', Plus isdigit, Lit quote_char]"

definition matv_regex :: "item list" where
  "matv_regex =
     Cls (\<lambda>c. c = CHR '';'' \<or> c = CHR ''('') # pair_items @ [Star (\<lambda>_. True), Cls (\<lambda>c. c = CHR '';'' \<or> c = CHR '')'')]"

definition mpat_start :: "item list" where
  "mpat_start = (Star isspace # Lit CHR ''('' # pair_items @ [Star isspace]) @ [End]"

definition mpat_mid :: "item list" where
  "mpat_mid = (Star isspace # pair_items @ [Star isspace]) @ [End]"

definition mpat_end :: "item list" where
  "mpat_end = (Star isspace # pair_items @ [Lit CHR '')'', Star isspace]) @ [End]"

definition valregex :: "item list" where
  "valregex =
     [Star isspace, Plus (\<lambda>c. \<not> isspace c), Star isspace, Lit CHR ''='', Star isspace, Opt dquote_char,
      Plus (\<lambda>c. c \<noteq> dquote_char \<and> c \<noteq> CHR '' ''), Opt dquote_char, Star isspace] @ [End]"

record config_env =
  ce_regcomp :: "string \<Rightarrow> bool"

section \<open>Lines\<close>

definition strchr :: "string \<Rightarrow> char \<Rightarrow> string option" where
  "strchr s c = (if c \<in> set s then Some (dropWhile (\<lambda>d. d \<noteq> c) s) else None)"

definition config_replace_char :: "string \<Rightarrow> char \<Rightarrow> char \<Rightarrow> string" where
  "config_replace_char buffer from to =
     (if from \<in> set buffer then cstr (buffer[length (takeWhile (\<lambda>c. c \<noteq> from) buffer) := to]) else buffer)"

definition config_strip_comments :: "string \<Rightarrow> string" where
  "config_strip_comments buffer = config_replace_char buffer CHR ''#'' NUL"

fun config_line_empty :: "string \<Rightarrow> bool" where
  "config_line_empty [] = True"
| "config_line_empty (c # s) =
     (if c = CHR '' '' \<or> c = CHR 0x0C \<or> c = CHR 0x0A \<or> c = CHR 0x0D \<or> c = CHR 0x09 then config_line_empty s else False)"

section \<open>Handlers\<close>

definition config_set_interval :: "fand_config \<Rightarrow> string \<Rightarrow> int \<times> fand_config" where
  "config_set_interval data value =
     (case strstoul_range value 0 0 0xffff of (reti, ul) \<Rightarrow>
        if reti \<noteq> 0 then (reti, data) else (0, data\<lparr>cfg_interval := ucast ul\<rparr>))"

definition config_set_hysteresis :: "fand_config \<Rightarrow> string \<Rightarrow> int \<times> fand_config" where
  "config_set_hysteresis data value =
     (case strstoul_range value 0 0 0xff of (reti, ul) \<Rightarrow>
        if reti \<noteq> 0 then (reti, data) else (0, data\<lparr>cfg_hysteresis := ucast ul\<rparr>))"

definition config_set_throttle :: "fand_config \<Rightarrow> string \<Rightarrow> int \<times> fand_config" where
  "config_set_throttle data value =
     (if value = ''true'' then (0, data\<lparr>cfg_throttle := True\<rparr>)
      else if value = ''false'' then (0, data\<lparr>cfg_throttle := False\<rparr>)
      else (- 1, data))"

text \<open>One number of a matrix row: the group is copied to \<open>numbuf\<close> and converted.\<close>

definition config_number :: "string \<Rightarrow> nat \<Rightarrow> u64 \<Rightarrow> u64 option option" where
  "config_number segment len high =
     (case strsncpy (replicate CONFIG_NUMBUF_SIZE NUL) segment CONFIG_NUMBUF_SIZE len of
        None \<Rightarrow> None
      | Some (r, numbuf) \<Rightarrow>
          if r < 0 then Some None
          else case strstoul_range (cstr numbuf) 0 0 high of (r', ul) \<Rightarrow> Some (if r' \<noteq> 0 then None else Some ul))"

text \<open>The status, the number of rows and the data when the loop ends.\<close>

function config_matrix_rows :: "fand_config \<Rightarrow> string option \<Rightarrow> nat \<Rightarrow> (int \<times> nat \<times> fand_config) option" where
  "config_matrix_rows data value matrix_rows =
     (if matrix_rows < MAX_TEMP_THRESHOLDS then
        case value of
          None \<Rightarrow> Some (0, matrix_rows, data)
        | Some v \<Rightarrow>
            (case regexec matv_regex v of
               None \<Rightarrow> Some (- 1, matrix_rows, data)
             | Some m \<Rightarrow>
                 (case config_number (drop (rm_so m 2) v) (regmatch_length m 2 3) 255 of
                    None \<Rightarrow> None
                  | Some None \<Rightarrow> Some (- 1, matrix_rows, data)
                  | Some (Some temp) \<Rightarrow>
                      (case config_number (drop (rm_so m 5) v) (regmatch_length m 5 6) 100 of
                         None \<Rightarrow> None
                       | Some None \<Rightarrow> Some (- 1, matrix_rows, data)
                       | Some (Some ul) \<Rightarrow>
                           config_matrix_rows
                             (data\<lparr>cfg_matrix := (cfg_matrix data)[matrix_rows * 2 := ucast temp, matrix_rows * 2 + 1 := ucast ul]\<rparr>)
                             (strchr (drop 1 v) CHR '';'') (Suc matrix_rows))))
      else Some (0, matrix_rows, data))"
  by pat_completeness auto

termination config_matrix_rows
  by (relation "measure (\<lambda>(_, _, n). MAX_TEMP_THRESHOLDS - n)") auto

declare config_matrix_rows.simps [simp del]

definition config_set_matrix :: "config_env \<Rightarrow> fand_config \<Rightarrow> string \<Rightarrow> (int \<times> fand_config) option" where
  "config_set_matrix e data value =
     (if \<not> ce_regcomp e ''matrix value'' then Some (- 1, data)
      else case config_matrix_rows data (Some value) 0 of
        None \<Rightarrow> None
      | Some (status, matrix_rows, data') \<Rightarrow>
          if status \<noteq> 0 then Some (status, data')
          else if matrix_rows = MAX_TEMP_THRESHOLDS then Some (- 1, data')
          else Some (0, data'\<lparr>cfg_matrix_rows := of_nat matrix_rows\<rparr>))"

type_synonym config_handler = "fand_config \<Rightarrow> string \<Rightarrow> (int \<times> fand_config) option"

definition config_map :: "config_env \<Rightarrow> (string \<times> config_handler) list" where
  "config_map e =
     [(''interval'', \<lambda>data value. Some (config_set_interval data value)),
      (''hysteresis'', \<lambda>data value. Some (config_set_hysteresis data value)),
      (''matrix'', config_set_matrix e),
      (''aggressive_throttle'', \<lambda>data value. Some (config_set_throttle data value))]"

fun config_dispatch :: "(string \<times> config_handler) list \<Rightarrow> string \<Rightarrow> config_handler" where
  "config_dispatch [] key data value = Some (- 1, data)"
| "config_dispatch ((k, handler) # rest) key data value =
     (if key = k then handler data value else config_dispatch rest key data value)"

section \<open>The rows of a matrix\<close>

text \<open>\<open>strsncpy(buf + pos, src, bufsize - pos, n)\<close> on a buffer of \<open>bufsize\<close> characters.\<close>

definition strsncpy_at :: "char list \<Rightarrow> nat \<Rightarrow> string \<Rightarrow> nat \<Rightarrow> (int \<times> char list) option" where
  "strsncpy_at buf pos src n =
     map_option (\<lambda>(r, b). (r, take pos buf @ b)) (strsncpy (drop pos buf) src (length buf - pos) n)"

lemma fgets_shorter: "fgets 256 s = Some (line, rest) \<Longrightarrow> length rest < length s"
  using fgets_consumes [of 254] by simp

text \<open>The result is the status, the buffer and the rest of the file.\<close>

function append_loop :: "char list \<Rightarrow> nat \<Rightarrow> nat \<Rightarrow> string \<Rightarrow> (int \<times> char list \<times> string) option" where
  "append_loop value pos matrix_rows file =
     (case fgets CONFIG_BUFFER_SIZE file of
        None \<Rightarrow> Some (- 1, value, [])
      | Some (line, rest) \<Rightarrow>
          let buffer = cstr line in
          if Suc matrix_rows > MATRIX_MAX_SIZE div 2 then Some (- 1, value, rest)
          else case strscpy_at value pos '';'' of
            None \<Rightarrow> None
          | Some (r, value1) \<Rightarrow>
              let pos1 = int pos + r in
              if pos1 < 0 then Some (- 1, value1, rest)
              else case regexec mpat_mid buffer of
                Some m \<Rightarrow>
                  (case strsncpy_at value1 (nat pos1) (drop (rm_so m 1) buffer) (regmatch_length m 1 7) of
                     None \<Rightarrow> None
                   | Some (r', value2) \<Rightarrow>
                       if pos1 + r' < 0 then Some (- 1, value2, rest)
                       else append_loop value2 (nat (pos1 + r')) (Suc matrix_rows) rest)
              | None \<Rightarrow>
                  (case regexec mpat_end buffer of
                     None \<Rightarrow> append_loop value1 (nat pos1) (Suc matrix_rows) rest
                   | Some m \<Rightarrow>
                       (case strsncpy_at value1 (nat pos1) (drop (rm_so m 1) buffer) (regmatch_length m 1 8) of
                          None \<Rightarrow> None
                        | Some (r', value2) \<Rightarrow> Some (if pos1 + r' < 0 then - 1 else 0, value2, rest))))"
  by pat_completeness auto

termination append_loop
  by (relation "measure (\<lambda>(_, _, _, file). length file)") (auto dest: fgets_shorter)

declare append_loop.simps [simp del]

definition config_append_matrix_rows :: "config_env \<Rightarrow> char list \<Rightarrow> string \<Rightarrow> (int \<times> char list \<times> string) option" where
  "config_append_matrix_rows e value file =
     (if \<not> ce_regcomp e ''matrix start'' \<or> \<not> ce_regcomp e ''matrix middle'' \<or> \<not> ce_regcomp e ''matrix end''
      then Some (- 1, value, file)
      else case regexec mpat_start (cstr value) of
        None \<Rightarrow> Some (- 1, value, file)
      | Some m \<Rightarrow>
          (case strsncpy (replicate CONFIG_BUFFER_SIZE NUL) (drop (rm_so m 1) (cstr value)) CONFIG_BUFFER_SIZE
                  (regmatch_length m 1 8) of
             None \<Rightarrow> None
           | Some (r, buffer) \<Rightarrow>
               if r < 0 then Some (- 1, value, file)
               else case strscpy value (cstr buffer) (length value) of
                 None \<Rightarrow> None
               | Some (pos, value1) \<Rightarrow>
                   if pos < 0 then Some (- 1, value1, file) else append_loop value1 (nat pos) 0 file))"

section \<open>The file\<close>

text \<open>A line that is not empty: the status, the data and the rest of the file.\<close>

definition config_entry :: "config_env \<Rightarrow> fand_config \<Rightarrow> string \<Rightarrow> string \<Rightarrow> (int \<times> fand_config \<times> string) option" where
  "config_entry e data buffer file =
     (case regexec_anchored valregex buffer of
        None \<Rightarrow> Some (- 1, data, file)
      | Some m \<Rightarrow>
          (case strsncpy (replicate CONFIG_KEY_SIZE NUL) (drop (rm_so m 1) buffer) CONFIG_KEY_SIZE (regmatch_length m 1 2) of
             None \<Rightarrow> None
           | Some (r, key) \<Rightarrow>
               if r < 0 then Some (- 1, data, file)
               else let key' = strtolower (cstr key) in
                 case strsncpy (replicate CONFIG_BUFFER_SIZE NUL) (drop (rm_so m 6) buffer) CONFIG_BUFFER_SIZE
                        (regmatch_length m 6 7) of
                   None \<Rightarrow> None
                 | Some (r', value) \<Rightarrow>
                     if r' < 0 then Some (- 1, data, file)
                     else case (if key' = ''matrix'' then config_append_matrix_rows e value file
                                else Some (0, value, file)) of
                       None \<Rightarrow> None
                     | Some (reti, value', file') \<Rightarrow>
                         if reti \<noteq> 0 then Some (reti, data, file')
                         else if \<not> terminated value' then None
                         else map_option (\<lambda>(st, data'). (st, data', file'))
                                (config_dispatch (config_map e) key' data (cstr value'))))"

lemma append_loop_rest: "append_loop buf pos n f = Some (st, v, rest) \<Longrightarrow> length rest \<le> length f"
proof (induction "length f" arbitrary: buf pos n f rule: less_induct)
  case less
  show ?case
  proof (cases "fgets 256 f")
    case None
    with less.prems show ?thesis by (simp add: append_loop.simps)
  next
    case (Some p)
    obtain line r where p: "p = (line, r)" by (cases p)
    note shorter = fgets_shorter [OF Some [unfolded p]]
    have "length rest \<le> length f" if "append_loop buf' pos' n' r = Some (st, v, rest)" for buf' pos' n'
      using less.hyps [OF shorter that] shorter by simp
    with less.prems shorter show ?thesis unfolding append_loop.simps [of buf pos n f] Some p
      by (auto simp: Let_def split: if_splits option.splits)
  qed
qed

lemma config_append_rest:
  "config_append_matrix_rows e value file = Some (st, v, rest) \<Longrightarrow> length rest \<le> length file"
  by (auto simp: config_append_matrix_rows_def split: if_splits option.splits) (blast dest: append_loop_rest)

lemma config_entry_rest: "config_entry e data buffer file = Some (st, data', rest) \<Longrightarrow> length rest \<le> length file"
  by (auto simp: config_entry_def Let_def split: if_splits option.splits) (blast dest: config_append_rest)+

function config_lines :: "config_env \<Rightarrow> fand_config \<Rightarrow> string \<Rightarrow> (int \<times> fand_config) option" where
  "config_lines e data file =
     (case fgets CONFIG_BUFFER_SIZE file of
        None \<Rightarrow> Some (if cfg_matrix_rows data = 0 then - 1 else 0, data)
      | Some (line, rest) \<Rightarrow>
          let buffer = config_strip_comments (config_replace_char (cstr line) newline_char NUL) in
          if config_line_empty buffer then config_lines e data rest
          else case config_entry e data buffer rest of
            None \<Rightarrow> None
          | Some (status, data', file') \<Rightarrow>
              if status \<noteq> 0 then Some (status, data') else config_lines e data' file')"
  by pat_completeness auto

termination config_lines
  by (relation "measure (\<lambda>(_, _, file). length file)") (auto dest!: fgets_shorter config_entry_rest)

declare config_lines.simps [simp del]

definition config_parse :: "config_env \<Rightarrow> io \<Rightarrow> fs \<Rightarrow> string \<Rightarrow> fand_config \<Rightarrow> (int \<times> fand_config) option" where
  "config_parse e k s path data =
     (if \<not> ce_regcomp e ''config value'' then Some (- 1, data)
      else case fopen k s path Mode_r of
        (Some _, _) \<Rightarrow> Some (- 1, data)
      | (None, _) \<Rightarrow> config_lines e data (chars (the (fs_files s path))))"

section \<open>No undefined behaviour\<close>

lemma strscpy_at_outcome:
  assumes "pos < length buf" "nul_free src"
  shows "\<exists>r b. strscpy_at buf pos src = Some (r, b) \<and> length b = length buf \<and> terminated b \<and>
    (r = - E2BIG \<or> r = int (length src) \<and> pos + length src < length buf)"
proof -
  let ?d = "drop pos buf" and ?n = "length buf - pos"
  have n: "0 < ?n" "?n \<le> length ?d" using assms(1) by simp_all
  obtain r b where c: "strscpy ?d src ?n = Some (r, b)" using strscpy_copy.copy_safe [OF n assms(2)] by blast
  have "length b = ?n" "terminated b"
    using strscpy_copy.copy_frame [OF n assms(2) c] strscpy_copy.copy_terminated [OF n assms(2) c] by auto
  moreover have "r = - E2BIG \<or> r = int (length src) \<and> pos + length src < length buf"
    using c n strscpy_fits [of src ?n ?d] strscpy_truncates [of ?n src ?d] by (cases "length src < ?n") auto
  ultimately show ?thesis using c assms(1) by (auto simp: strscpy_at_def terminated_def)
qed

lemma strsncpy_status:
  assumes "strsncpy dst src dstlen n = Some (r, b)"
  shows "r = - E2BIG \<or> r = int n \<and> n < dstlen"
  using assms by (auto simp: strsncpy_def Let_def split: if_splits option.splits)

lemma strsncpy_at_outcome:
  assumes "pos < length buf"
  shows "\<exists>r b. strsncpy_at buf pos src n = Some (r, b) \<and> length b = length buf \<and> terminated b \<and>
    (r = - E2BIG \<or> r = int n \<and> pos + n < length buf)"
proof -
  have "0 < length buf - pos" "length buf - pos \<le> length (drop pos buf)" using assms by simp_all
  from strsncpy_outcome [OF this, of src n] obtain r b where
    c: "strsncpy (drop pos buf) src (length buf - pos) n = Some (r, b)" "length b = length buf - pos" "terminated b" by auto
  from strsncpy_status [OF c(1)] c show ?thesis using assms by (auto simp: strsncpy_at_def terminated_def)
qed

lemma append_next:
  assumes "length b = 256" "terminated b" "pos < 256" "r = - E2BIG \<or> r = 1 \<and> pos + 1 < 256" "\<not> int pos + r < 0"
  shows "\<exists>r' b'. strsncpy_at b (nat (int pos + r)) src k = Some (r', b') \<and> length b' = 256 \<and> terminated b' \<and>
    (\<not> int pos + r + r' < 0 \<longrightarrow> nat (int pos + r + r') < 256)"
proof -
  have "nat (int pos + r) < 256" using assms(3-5) by auto
  with strsncpy_at_outcome [of "nat (int pos + r)" b src k] assms(1,5) show ?thesis by auto
qed

lemma append_loop_safe:
  assumes "length buf = 256" "terminated buf" "pos < 256"
  shows "\<exists>st v rest. append_loop buf pos n f = Some (st, v, rest) \<and> length v = 256 \<and> terminated v \<and> st \<in> {0, - 1}"
  using assms
proof (induction "length f" arbitrary: buf pos n f rule: less_induct)
  case less
  show ?case
  proof (cases "fgets 256 f")
    case None
    with less.prems show ?thesis by (simp add: append_loop.simps)
  next
    case (Some p)
    obtain line rest where p: "p = (line, rest)" by (cases p)
    note unfold = append_loop.simps [of buf pos n f] Some p option.case prod.case Let_def
    note IH = less.hyps [OF fgets_shorter [OF Some [unfolded p]]]
    obtain r b where b: "strscpy_at buf pos '';'' = Some (r, b)" "length b = 256" "terminated b"
        "r = - E2BIG \<or> r = 1 \<and> pos + 1 < 256"
      using strscpy_at_outcome [of pos buf "'';''"] less.prems by auto
    note next_step = append_next [OF b(2,3) less.prems(3) b(4)]
    show ?thesis
    proof (cases "Suc n > MATRIX_MAX_SIZE div 2 \<or> int pos + r < 0")
      case True
      with less.prems b show ?thesis unfolding unfold by auto
    next
      case False
      then have n: "\<not> MATRIX_MAX_SIZE div 2 < Suc n" "\<not> int pos + r < 0" by auto
      show ?thesis
      proof (cases "regexec mpat_mid (cstr line)")
        case mid: (Some m)
        obtain r' b' where c: "strsncpy_at b (nat (int pos + r)) (drop (rm_so m 1) (cstr line)) (regmatch_length m 1 7) = Some (r', b')"
            "length b' = 256" "terminated b'" "\<not> int pos + r + r' < 0 \<longrightarrow> nat (int pos + r + r') < 256"
          using next_step [OF n(2)] by blast
        then show ?thesis using n IH [of b' "nat (int pos + r + r')" "Suc n"] unfolding unfold b(1) mid c(1) by auto
      next
        case mid: None
        have "nat (int pos + r) < 256" using n(2) b(4) less.prems(3) by auto
        note skip = IH [OF b(2,3) this, of "Suc n"]
        show ?thesis
        proof (cases "regexec mpat_end (cstr line)")
          case None
          with skip n show ?thesis unfolding unfold b(1) mid by simp
        next
          case last: (Some m)
          obtain r' b' where c: "strsncpy_at b (nat (int pos + r)) (drop (rm_so m 1) (cstr line)) (regmatch_length m 1 8) = Some (r', b')"
              "length b' = 256" "terminated b'"
            using next_step [OF n(2)] by blast
          with n show ?thesis unfolding unfold b(1) mid last c(1) by auto
        qed
      qed
    qed
  qed
qed

text \<open>A configuration that the fan controller can use.\<close>

definition valid_config :: "fand_config \<Rightarrow> bool" where
  "valid_config d \<longleftrightarrow> length (cfg_matrix d) = 32 \<and> nrows d < 16 \<and> (\<forall>i < nrows d. row_speed d i \<le> 100)"

lemma config_number_safe:
  "\<exists>x. config_number segment len high = Some x \<and> (\<forall>v. x = Some v \<longrightarrow> v \<le> high)"
proof -
  obtain r b where "strsncpy (replicate 4 NUL) segment 4 len = Some (r, b)"
    using strsncpy_outcome [of 4 "replicate 4 NUL" segment len] by auto
  then show ?thesis
    by (auto simp: config_number_def dest: strstoul_range_ok split: prod.splits)
qed

lemma ucast_le_100: "v \<le> (100 :: u64) \<Longrightarrow> unat (ucast v :: byte) \<le> 100"
proof -
  assume "v \<le> 100"
  then have "unat v \<le> 100" by (simp add: word_le_nat_alt)
  then show ?thesis by (simp add: unsigned_ucast_eq take_bit_nat_eq_self)
qed

lemma row_speed_extended:
  assumes "length (cfg_matrix d) = 32" "n < 16" "u \<le> 100" "\<And>i. i < n \<Longrightarrow> row_speed d i \<le> 100" "i < Suc n"
  shows "row_speed (d\<lparr>cfg_matrix := (cfg_matrix d)[n * 2 := x, n * 2 + 1 := ucast (u :: u64)]\<rparr>) i \<le> 100"
proof (cases "i = n")
  case True
  then show ?thesis using assms(1,2) ucast_le_100 [OF assms(3)] by (simp add: row_speed_def mult.commute)
next
  case False
  then have "2 * i + 1 \<noteq> n * 2" "2 * i + 1 \<noteq> n * 2 + 1" by presburger+
  then show ?thesis using False assms(4) [of i] assms(5) by (simp add: row_speed_def nth_list_update)
qed

lemma config_matrix_rows_safe:
  assumes "length (cfg_matrix d) = 32" "n \<le> 16" "\<And>i. i < n \<Longrightarrow> row_speed d i \<le> 100"
  shows "\<exists>st n' mat. config_matrix_rows d v n = Some (st, n', d\<lparr>cfg_matrix := mat\<rparr>) \<and> length mat = 32 \<and> n' \<le> 16 \<and> n \<le> n' \<and>
    st \<in> {0, - 1} \<and> (v \<noteq> None \<longrightarrow> n < 16 \<longrightarrow> st = 0 \<longrightarrow> n < n') \<and> (st = 0 \<longrightarrow> (\<forall>i < n'. unat (mat ! (2 * i + 1)) \<le> 100))"
  using assms
proof (induction "16 - n" arbitrary: d v n rule: less_induct)
  case less
  note unfold = config_matrix_rows.simps [of d v n]
  show ?case
  proof (cases "n < 16 \<and> v \<noteq> None")
    case False
    with less.prems show ?thesis
      by (intro exI [of _ 0] exI [of _ n] exI [of _ "cfg_matrix d"]) (auto simp: unfold row_speed_def)
  next
    case True
    then obtain s where v: "v = Some s" and n: "n < 16" by auto
    note unfold = config_matrix_rows.simps [of d "Some s" n]
    have failed: ?thesis if "config_matrix_rows d v n = Some (- 1, n, d)"
      using that less.prems by (intro exI [of _ "- 1"] exI [of _ n] exI [of _ "cfg_matrix d"]) simp
    show ?thesis
    proof (cases "regexec matv_regex s")
      case None
      with n v show ?thesis by (intro failed) (simp add: unfold)
    next
      case m: (Some m)
      obtain x where x: "config_number (drop (rm_so m 2) s) (regmatch_length m 2 3) 255 = Some x"
        using config_number_safe by blast
      obtain y where y: "config_number (drop (rm_so m 5) s) (regmatch_length m 5 6) 100 = Some y" "\<And>u. y = Some u \<Longrightarrow> u \<le> 100"
        using config_number_safe by blast
      show ?thesis
      proof (cases "x = None \<or> y = None")
        case True
        with n v m x y show ?thesis by (intro failed) (auto simp: unfold split: option.splits)
      next
        case False
        then obtain temp ul where xy: "x = Some temp" "y = Some ul" by auto
        let ?mat = "(cfg_matrix d)[n * 2 := ucast temp, n * 2 + 1 := ucast ul]"
        let ?d = "d\<lparr>cfg_matrix := ?mat\<rparr>"
        have speeds: "row_speed ?d i \<le> 100" if "i < Suc n" for i
          using less.prems n y(2) [OF xy(2)] that by (intro row_speed_extended) auto
        have "16 - Suc n < 16 - n" "length (cfg_matrix ?d) = 32" "Suc n \<le> 16" using n less.prems(1) by simp_all
        from less.hyps [OF this speeds, of "strchr (drop 1 s) CHR '';''"] obtain st n' mat where "config_matrix_rows ?d (strchr (drop 1 s) CHR '';'') (Suc n) = Some (st, n', ?d\<lparr>cfg_matrix := mat\<rparr>)"
            "length mat = 32" "n' \<le> 16" "Suc n \<le> n'" "st \<in> {0, - 1}" "st = 0 \<longrightarrow> (\<forall>i < n'. unat (mat ! (2 * i + 1)) \<le> 100)"
          by blast
        with n v m x y xy show ?thesis
          by (intro exI [of _ st] exI [of _ n'] exI [of _ mat]) (simp add: unfold)
      qed
    qed
  qed
qed

text \<open>What \<open>config_parse\<close> relies on when it calls a handler of its table.\<close>

locale config_setting =
  fixes handler :: config_handler
  assumes setting_safe: "valid_config d \<Longrightarrow>
    \<exists>st d'. handler d v = Some (st, d') \<and> length (cfg_matrix d') = 32 \<and> (st = 0 \<longrightarrow> valid_config d')"
begin

primrec settings :: "fand_config \<Rightarrow> string list \<Rightarrow> (int \<times> fand_config) option" where
  "settings d [] = Some (0, d)"
| "settings d (v # vs) =
     (case handler d v of None \<Rightarrow> None | Some (st, d') \<Rightarrow> if st \<noteq> 0 then Some (st, d') else settings d' vs)"

lemma settings_safe:
  "valid_config d \<Longrightarrow> \<exists>st d'. settings d vs = Some (st, d') \<and> (st = 0 \<longrightarrow> valid_config d')"
proof (induction vs arbitrary: d)
  case (Cons v vs)
  then show ?case using setting_safe [of d v] by fastforce
qed simp

end

lemma valid_config_scalar [simp]:
  "valid_config (d\<lparr>cfg_interval := a\<rparr>) = valid_config d"
  "valid_config (d\<lparr>cfg_hysteresis := b\<rparr>) = valid_config d"
  "valid_config (d\<lparr>cfg_throttle := c\<rparr>) = valid_config d"
  by (simp_all add: valid_config_def nrows_def row_speed_def)

interpretation interval_setting: config_setting "\<lambda>d v. Some (config_set_interval d v)"
  by unfold_locales (auto simp: config_set_interval_def valid_config_def nrows_def row_speed_def split: prod.split)

interpretation hysteresis_setting: config_setting "\<lambda>d v. Some (config_set_hysteresis d v)"
  by unfold_locales (auto simp: config_set_hysteresis_def valid_config_def nrows_def row_speed_def split: prod.split)

interpretation throttle_setting: config_setting "\<lambda>d v. Some (config_set_throttle d v)"
  by unfold_locales (auto simp: config_set_throttle_def valid_config_def nrows_def row_speed_def)

lemma config_set_matrix_safe:
  assumes "length (cfg_matrix d) = 32"
  shows "\<exists>st d'. config_set_matrix e d v = Some (st, d') \<and> length (cfg_matrix d') = 32 \<and>
    (st = 0 \<longrightarrow> valid_config d' \<and> 0 < nrows d')"
proof -
  obtain st n mat where r: "config_matrix_rows d (Some v) 0 = Some (st, n, d\<lparr>cfg_matrix := mat\<rparr>)" "length mat = 32"
      "n \<le> 16" "st \<in> {0, - 1}" "st = 0 \<longrightarrow> 0 < n" "st = 0 \<longrightarrow> (\<forall>i < n. unat (mat ! (2 * i + 1)) \<le> 100)"
    using config_matrix_rows_safe [of d 0 "Some v"] assms by auto
  show ?thesis
  proof (cases "ce_regcomp e ''matrix value'' \<and> st = 0 \<and> n \<noteq> 16")
    case True
    then have "unat (of_nat n :: byte) = n" using r(3) by (simp add: unsigned_of_nat take_bit_nat_eq_self)
    with True r show ?thesis by (simp add: config_set_matrix_def valid_config_def nrows_def row_speed_def)
  next
    case False
    with r assms show ?thesis by (auto simp: config_set_matrix_def)
  qed
qed

interpretation matrix_setting: config_setting "config_set_matrix e" for e
proof unfold_locales
  fix d v assume "valid_config d"
  then show "\<exists>st d'. config_set_matrix e d v = Some (st, d') \<and> length (cfg_matrix d') = 32 \<and> (st = 0 \<longrightarrow> valid_config d')"
    using config_set_matrix_safe [of d e v] by (auto simp: valid_config_def)
qed

lemma config_dispatch_safe:
  assumes "valid_config d"
  shows "\<exists>st d'. config_dispatch (config_map e) key d v = Some (st, d') \<and> length (cfg_matrix d') = 32 \<and>
    (st = 0 \<longrightarrow> valid_config d')"
proof -
  note safe = interval_setting.setting_safe [OF assms, of v] hysteresis_setting.setting_safe [OF assms, of v]
    throttle_setting.setting_safe [OF assms, of v] matrix_setting.setting_safe [OF assms, of e v]
  show ?thesis using safe assms by (simp add: config_map_def valid_config_def)
qed

lemma config_append_safe:
  assumes "length v = 256" "terminated v"
  shows "\<exists>st v' rest. config_append_matrix_rows e v f = Some (st, v', rest) \<and> terminated v'"
proof (cases "ce_regcomp e ''matrix start'' \<and> ce_regcomp e ''matrix middle'' \<and> ce_regcomp e ''matrix end'' \<and>
    regexec mpat_start (cstr v) \<noteq> None")
  case False
  with assms show ?thesis by (cases "regexec mpat_start (cstr v)") (auto simp: config_append_matrix_rows_def)
next
  case True
  then obtain m where m: "regexec mpat_start (cstr v) = Some m" by auto
  obtain r b where b: "strsncpy (replicate 256 NUL) (drop (rm_so m 1) (cstr v)) 256 (regmatch_length m 1 8) = Some (r, b)"
    using strsncpy_outcome [of 256 "replicate 256 NUL"] by fastforce
  obtain pos v1 where v1: "strscpy_at v 0 (cstr b) = Some (pos, v1)" "length v1 = 256" "terminated v1"
      "pos = - E2BIG \<or> pos = int (length (cstr b)) \<and> length (cstr b) < 256"
    using strscpy_at_outcome [of 0 v "cstr b"] assms by auto
  then have "strscpy v (cstr b) 256 = Some (pos, v1)" using assms(1) by (auto simp: strscpy_at_def)
  moreover have "\<not> pos < 0 \<Longrightarrow> nat pos < 256" using v1(4) by auto
  ultimately show ?thesis
    using True m b assms v1 append_loop_safe [OF v1(2,3), of "nat pos" 0 f]
    by (auto simp: config_append_matrix_rows_def)
qed

lemma config_entry_safe:
  assumes "valid_config d"
  shows "\<exists>st d' rest. config_entry e d buffer f = Some (st, d', rest) \<and> length (cfg_matrix d') = 32 \<and>
    (st = 0 \<longrightarrow> valid_config d')"
proof (cases "regexec_anchored valregex buffer")
  case None
  with assms show ?thesis by (auto simp: config_entry_def valid_config_def)
next
  case (Some m)
  obtain r key where key: "strsncpy (replicate 64 NUL) (drop (rm_so m 1) buffer) 64 (regmatch_length m 1 2) = Some (r, key)"
    using strsncpy_outcome [of 64 "replicate 64 NUL"] by fastforce
  obtain r' v where v: "strsncpy (replicate 256 NUL) (drop (rm_so m 6) buffer) 256 (regmatch_length m 6 7) = Some (r', v)"
      "length v = 256" "terminated v"
    using strsncpy_outcome [of 256 "replicate 256 NUL" "drop (rm_so m 6) buffer" "regmatch_length m 6 7"] by auto
  obtain st v' rest where a: "(if strtolower (cstr key) = ''matrix'' then config_append_matrix_rows e v f else Some (0, v, f)) =
      Some (st, v', rest)" "terminated v'"
    using config_append_safe [OF v(2,3), of e f] v(3)
    by (cases "strtolower (cstr key) = ''matrix''") auto
  show ?thesis
    using assms Some key v(1) a config_dispatch_safe [OF assms, of e "strtolower (cstr key)" "cstr v'"]
    unfolding config_entry_def Some option.case key prod.case v(1) Let_def a(1) by (auto simp: valid_config_def)
qed

lemma config_lines_safe:
  assumes "valid_config d"
  shows "\<exists>st d'. config_lines e d f = Some (st, d') \<and> length (cfg_matrix d') = 32 \<and>
    (st = 0 \<longrightarrow> valid_config d' \<and> 0 < nrows d')"
  using assms
proof (induction "length f" arbitrary: d f rule: less_induct)
  case less
  show ?case
  proof (cases "fgets 256 f")
    case None
    with less.prems show ?thesis
      by (auto simp: config_lines.simps valid_config_def nrows_def unat_gt_0)
  next
    case (Some p)
    obtain line rest where p: "p = (line, rest)" by (cases p)
    note shorter = fgets_shorter [OF Some [unfolded p]]
    let ?b = "config_strip_comments (config_replace_char (cstr line) newline_char NUL)"
    note unfold = config_lines.simps [of e d f] Some p option.case prod.case Let_def
    show ?thesis
    proof (cases "config_line_empty ?b")
      case True
      then show ?thesis using less.hyps [OF shorter less.prems] unfolding unfold by simp
    next
      case False
      obtain st d' r where ent: "config_entry e d ?b rest = Some (st, d', r)" "length (cfg_matrix d') = 32"
          "st = 0 \<longrightarrow> valid_config d'"
        using config_entry_safe [OF less.prems] by blast
      have "length r < length f" using config_entry_rest [OF ent(1)] shorter by simp
      then show ?thesis using False ent less.hyps [of r d'] unfolding unfold by auto
    qed
  qed
qed

section \<open>The text of a matrix\<close>

type_synonym row = "nat \<times> nat"

definition row_text :: "row \<Rightarrow> string" where
  "row_text r = quote_char # print_nat (fst r) @ '':'' @ '':'' @ print_nat (snd r) @ [quote_char]"

fun row_tail :: "row list \<Rightarrow> string" where
  "row_tail [] = '')''"
| "row_tail (r # rs) = CHR '';'' # row_text r @ row_tail rs"

definition row_ok :: "row \<Rightarrow> bool" where
  "row_ok r \<longleftrightarrow> fst r \<le> 255 \<and> snd r \<le> 100"

lemma fits_one: "fits (Rep p (Suc 0) (Some (Suc 0)) # r) (x # s) (k # ks) \<longleftrightarrow> k = Suc 0 \<and> p x \<and> fits r s ks"
  by (cases k) auto

lemma fits_run:
  assumes "fits (Plus p # Lit c # r) (a @ c # b) (k # ks)" "list_all p a" "\<not> p c"
  shows "k = length a \<and> fits (Lit c # r) (c # b) ks"
proof -
  have k: "k \<le> length (a @ c # b)" "list_all p (take k (a @ c # b))" "fits (Lit c # r) (drop k (a @ c # b)) ks"
    using assms(1) by simp_all
  have "\<not> length a < k"
  proof
    assume "length a < k"
    then have "c \<in> set (take k (a @ c # b))" by (auto simp: take_Cons' split: if_splits)
    with k(2) assms(3) show False by (auto simp: list_all_iff)
  qed
  moreover have "\<not> k < length a"
  proof
    assume l: "k < length a"
    then obtain a' where "drop k (a @ c # b) = a ! k # a'" by (simp add: Cons_nth_drop_Suc [symmetric])
    then have "a ! k = c" using k(3) by (cases ks) (auto simp: fits_one simp del: fits.simps(2))
    with l assms(2,3) show False by (auto simp: list_all_iff)
  qed
  ultimately have "k = length a" by simp
  with k(3) show ?thesis by simp
qed

lemma digits_all: "list_all isdigit (print_nat n)"
  by (simp add: list_all_iff digits_print_nat)

lemma isdigit_marks [simp]: "\<not> isdigit CHR '':''" "\<not> isdigit quote_char" "\<not> isdigit CHR '';''" "\<not> isdigit CHR '')''"
    "\<not> isdigit CHR ''(''" "\<not> isdigit CHR '' ''" "\<not> isdigit newline_char" "\<not> isdigit NUL" "\<not> isdigit CHR ''#''"
    "\<not> isdigit dquote_char" "\<not> isdigit CHR ''=''"
  by (simp_all add: isdigit_def)

text \<open>Every match of \<open>'[0-9]+::[0-9]+'\<close> at a row delimits the two numbers.\<close>

lemma fits_pair:
  assumes "fits (pair_items @ r) (row_text row @ rest) ks"
  shows "\<exists>ks'. ks = [1, length (print_nat (fst row)), 1, 1, length (print_nat (snd row)), 1] @ ks' \<and> fits r rest ks'"
proof -
  let ?a = "print_nat (fst row)" and ?b = "print_nat (snd row)"
  obtain k1 k2 k3 k4 k5 k6 ks' where ks: "ks = k1 # k2 # k3 # k4 # k5 # k6 # ks'"
    using fits_length [OF assms] by (auto simp: pair_items_def length_Suc_conv)
  have "k1 = 1" and 2: "fits (Plus isdigit # Lit CHR '':'' # Lit CHR '':'' # Plus isdigit # Lit quote_char # r)
      (?a @ CHR '':'' # CHR '':'' # ?b @ quote_char # rest) (k2 # k3 # k4 # k5 # k6 # ks')"
    using assms unfolding ks pair_items_def row_text_def by (auto simp: fits_one simp del: fits.simps(2))
  have "k2 = length ?a" and 3: "fits (Lit CHR '':'' # Lit CHR '':'' # Plus isdigit # Lit quote_char # r)
      (CHR '':'' # CHR '':'' # ?b @ quote_char # rest) (k3 # k4 # k5 # k6 # ks')"
    using fits_run [OF 2 digits_all] by auto
  have "k3 = 1" "k4 = 1" and 5: "fits (Plus isdigit # Lit quote_char # r) (?b @ quote_char # rest) (k5 # k6 # ks')"
    using 3 by (auto simp: fits_one simp del: fits.simps(2))
  have "k5 = length ?b" "k6 = 1" "fits r rest ks'"
    using fits_run [OF 5 digits_all] by (auto simp: fits_one simp del: fits.simps(2))
  with \<open>k1 = 1\<close> \<open>k2 = _\<close> \<open>k3 = 1\<close> \<open>k4 = 1\<close> ks show ?thesis by simp
qed

lemma pair_fits:
  assumes "fits r rest ks'"
  shows "fits (pair_items @ r) (row_text row @ rest) ([1, length (print_nat (fst row)), 1, 1, length (print_nat (snd row)), 1] @ ks')"
  using assms digits_all by (simp add: pair_items_def row_text_def Suc_le_eq)

lemma row_tail_last: "\<exists>s. row_tail rs = s @ '')''"
  by (induction rs) auto

lemma matv_row:
  assumes "c = CHR '';'' \<or> c = CHR ''(''"
  shows "\<exists>m. regexec matv_regex (c # row_text row @ row_tail rs) = Some m \<and>
    rm_so m 2 = 2 \<and> regmatch_length m 2 3 = length (print_nat (fst row)) \<and>
    rm_so m 5 = 4 + length (print_nat (fst row)) \<and> regmatch_length m 5 6 = length (print_nat (snd row))"
proof -
  let ?v = "c # row_text row @ row_tail rs"
  obtain s where s: "row_tail rs = s @ '')''" using row_tail_last by blast
  have "fits [Star (\<lambda>_. True), Cls (\<lambda>c. c = CHR '';'' \<or> c = CHR '')'')] (row_tail rs) [length s, 1]"
    by (simp add: s list_all_iff)
  from pair_fits [OF this, of row] assms have "\<exists>ks. fits matv_regex ?v ks"
    unfolding matv_regex_def by (intro exI [of _ "1 # _"]) (auto simp: fits_one simp del: fits.simps(2))
  then have ne: "ways matv_regex ?v \<noteq> []" by (auto simp flip: in_ways)
  then obtain ks where ks: "longest (ways matv_regex ?v) = Some ks" by (metis longest_None not_None_eq)
  then have "fits matv_regex ?v ks" using longest_in in_ways by blast
  then obtain ks' where "fits (pair_items @ [Star (\<lambda>_. True), Cls (\<lambda>c. c = CHR '';'' \<or> c = CHR '')'')]) (row_text row @ row_tail rs) ks'"
      "ks = 1 # ks'"
    unfolding matv_regex_def by (cases ks) (auto simp: fits_one simp del: fits.simps(2))
  from fits_pair [OF this(1)] this(2) regexec_first [OF ne] ks show ?thesis
    by (auto simp: rm_so_def regmatch_length_def)
qed

lemma length_print_small: "n \<le> 255 \<Longrightarrow> length (print_nat n) \<le> 3"
  using length_print_nat [of n 2] by simp

lemma config_number_print:
  assumes "n \<le> 255" "high \<le> 255" "n \<le> unat high"
  shows "config_number (print_nat n @ s) (length (print_nat n)) high = Some (Some (of_nat n))"
proof -
  have len: "length (print_nat n) \<le> 3" using assms(1) by (rule length_print_small)
  have "nul_free (print_nat n)" using digits_print_nat [of n] by (auto simp: nul_free_def)
  then have "cstr (print_nat n @ NUL # x) = print_nat n" for x by simp
  moreover have "strsncpy (replicate 4 NUL) (print_nat n @ s) 4 (length (print_nat n)) =
      Some (int (length (print_nat n)), print_nat n @ NUL # drop (Suc (length (print_nat n))) (replicate 4 NUL))"
    using len strsncpy_fits [of "length (print_nat n)" 4 "print_nat n @ s" "replicate 4 NUL"] by simp
  moreover have "strstoul (print_nat n) 0 = (0, of_nat n)"
    using strstoul_digits [of "print_nat n" 0] digits_print_nat [of n] assms(1) by (simp add: digits_val_print_nat)
  moreover have "\<not> (of_nat n :: u64) > high"
    using assms by (simp add: not_less word_le_nat_alt unsigned_of_nat take_bit_nat_eq_self)
  ultimately show ?thesis by (simp add: config_number_def strstoul_range_def)
qed

lemma strchr_row:
  "strchr (row_text row @ row_tail rs) CHR '';'' = (case rs of [] \<Rightarrow> None | _ \<Rightarrow> Some (row_tail rs))"
proof -
  have "CHR '';'' \<notin> set (row_text row)"
    using digits_print_nat [of "fst row"] digits_print_nat [of "snd row"] by (auto simp: row_text_def)
  then show ?thesis by (cases rs) (auto simp: strchr_def dropWhile_append)
qed

fun put_rows :: "byte list \<Rightarrow> nat \<Rightarrow> row list \<Rightarrow> byte list" where
  "put_rows mat n [] = mat"
| "put_rows mat n (r # rs) = put_rows (mat[n * 2 := of_nat (fst r), n * 2 + 1 := of_nat (snd r)]) (Suc n) rs"

lemma config_matrix_row:
  assumes "c = CHR '';'' \<or> c = CHR ''(''" "row_ok r" "n < 16"
  shows "config_matrix_rows d (Some (c # row_text r @ row_tail rs)) n =
    config_matrix_rows (d\<lparr>cfg_matrix := (cfg_matrix d)[n * 2 := of_nat (fst r), n * 2 + 1 := of_nat (snd r)]\<rparr>)
      (case rs of [] \<Rightarrow> None | _ \<Rightarrow> Some (row_tail rs)) (Suc n)"
proof -
  obtain m where m: "regexec matv_regex (c # row_text r @ row_tail rs) = Some m" "rm_so m 2 = 2"
      "regmatch_length m 2 3 = length (print_nat (fst r))" "rm_so m 5 = 4 + length (print_nat (fst r))"
      "regmatch_length m 5 6 = length (print_nat (snd r))"
    using matv_row [OF assms(1)] by blast
  have d2: "drop 2 (c # row_text r @ row_tail rs) = print_nat (fst r) @ '':'' @ '':'' @ print_nat (snd r) @ [quote_char] @ row_tail rs"
    by (simp add: row_text_def numeral_2_eq_2)
  have d5: "drop (4 + length (print_nat (fst r))) (c # row_text r @ row_tail rs) = print_nat (snd r) @ [quote_char] @ row_tail rs"
    by (simp add: row_text_def numeral_eq_Suc)
  have u: "(ucast (of_nat k :: u64) :: byte) = of_nat k" for k
    by (simp add: unsigned_of_nat word_of_nat_eq_iff take_bit_take_bit min_absorb1)
  have "config_number (print_nat (fst r) @ s) (length (print_nat (fst r))) 255 = Some (Some (of_nat (fst r)))"
    "config_number (print_nat (snd r) @ s) (length (print_nat (snd r))) 100 = Some (Some (of_nat (snd r)))" for s
    using assms(2) by (simp_all add: row_ok_def config_number_print)
  then show ?thesis
    using assms(3) unfolding config_matrix_rows.simps [of d _ n] option.case m d2 d5
    by (simp add: strchr_row u)
qed

lemma config_matrix_rows_text:
  assumes "list_all row_ok rs" "n + length rs \<le> 16"
  shows "config_matrix_rows d (case rs of [] \<Rightarrow> None | _ \<Rightarrow> Some (row_tail rs)) n =
    Some (0, n + length rs, d\<lparr>cfg_matrix := put_rows (cfg_matrix d) n rs\<rparr>)"
  using assms
proof (induction rs arbitrary: n d)
  case Nil
  then show ?case by (simp add: config_matrix_rows.simps)
next
  case (Cons r rs)
  then show ?case using config_matrix_row [of "CHR '';''" r n d rs] by simp
qed

definition matrix_text :: "row list \<Rightarrow> string" where
  "matrix_text rs = ''('' @ row_text (hd rs) @ row_tail (tl rs)"

lemma config_matrix_text:
  assumes "rs \<noteq> []" "list_all row_ok rs" "length rs \<le> 16"
  shows "config_matrix_rows d (Some (matrix_text rs)) 0 = Some (0, length rs, d\<lparr>cfg_matrix := put_rows (cfg_matrix d) 0 rs\<rparr>)"
proof -
  obtain r rs' where "rs = r # rs'" using assms(1) by (cases rs) auto
  with assms show ?thesis
    using config_matrix_row [of "CHR ''(''" r 0 d rs'] config_matrix_rows_text [of rs' 1]
    by (simp add: matrix_text_def)
qed

lemma config_set_matrix_text:
  assumes "ce_regcomp e ''matrix value''" "rs \<noteq> []" "list_all row_ok rs" "length rs \<le> 16"
  shows "config_set_matrix e d (matrix_text rs) =
    (let d' = d\<lparr>cfg_matrix := put_rows (cfg_matrix d) 0 rs\<rparr>
     in Some (if length rs = 16 then (- 1, d') else (0, d'\<lparr>cfg_matrix_rows := of_nat (length rs)\<rparr>)))"
  using assms config_matrix_text [OF assms(2-4), of d] by (simp add: config_set_matrix_def Let_def)

lemma length_put_rows [simp]: "length (put_rows mat n rs) = length mat"
  by (induction rs arbitrary: mat n) simp_all

lemma put_rows_below: "i < 2 * n \<Longrightarrow> put_rows mat n rs ! i = mat ! i"
  by (induction rs arbitrary: mat n) (simp_all add: nth_list_update)

lemma put_rows_nth:
  "i < length rs \<Longrightarrow> 2 * (n + length rs) \<le> length mat \<Longrightarrow>
   put_rows mat n rs ! (2 * (n + i)) = of_nat (fst (rs ! i)) \<and> put_rows mat n rs ! (2 * (n + i) + 1) = of_nat (snd (rs ! i))"
proof (induction rs arbitrary: mat n i)
  case (Cons r rs)
  show ?case
  proof (cases i)
    case 0
    with Cons.prems show ?thesis
      using put_rows_below [of "2 * n" "Suc n"] put_rows_below [of "2 * n + 1" "Suc n"] by (simp add: mult.commute)
  next
    case (Suc j)
    with Cons.prems Cons.IH [of j "Suc n"] show ?thesis by simp
  qed
qed simp

lemma put_rows_rows:
  assumes "list_all row_ok rs" "length rs \<le> 16" "length (cfg_matrix d) = 32" "i < length rs" "cfg_matrix d' = put_rows (cfg_matrix d) 0 rs"
  shows "row_temp d' i = fst (rs ! i) \<and> row_speed d' i = snd (rs ! i)"
proof -
  have ok: "fst (rs ! i) \<le> 255" "snd (rs ! i) \<le> 100" using assms(1,4) by (auto simp: list_all_length row_ok_def)
  show ?thesis using put_rows_nth [of i rs 0 "cfg_matrix d"] assms ok
    by (simp add: row_temp_def row_speed_def unsigned_of_nat take_bit_nat_eq_self)
qed

section \<open>Rows on their own lines\<close>

definition blank :: "string \<Rightarrow> bool" where
  "blank s \<longleftrightarrow> list_all (\<lambda>c. c = CHR '' '' \<or> c = CHR 0x09) s"

fun row_lines :: "string \<Rightarrow> row list \<Rightarrow> string" where
  "row_lines ind [] = []"
| "row_lines ind [r] = ind @ row_text r @ CHR '')'' # [newline_char]"
| "row_lines ind (r # rs) = ind @ row_text r @ newline_char # row_lines ind rs"

lemma isspace_marks [simp]: "\<not> isspace quote_char" "\<not> isspace CHR ''(''" "\<not> isspace CHR '')''" "isspace newline_char"
    "\<not> isspace CHR ''=''" "\<not> isspace dquote_char" "isspace CHR '' ''" "isspace CHR 0x09"
  by (simp_all add: isspace_def)

lemma blank_space: "blank s \<Longrightarrow> list_all isspace s"
  by (induction s) (auto simp: blank_def)

lemma greedy_pair:
  assumes "greedy r rest ks"
  shows "greedy (pair_items @ r) (row_text row @ rest) ([1, length (print_nat (fst row)), 1, 1, length (print_nat (snd row)), 1] @ ks)"
proof -
  let ?a = "print_nat (fst row)" and ?b = "print_nat (snd row)"
  have "greedy (Lit quote_char # r) (quote_char # rest) (1 # ks)" using assms by (rule greedy_one) simp_all
  then have "greedy (Plus isdigit # Lit quote_char # r) (?b @ quote_char # rest) (length ?b # 1 # ks)"
    by (rule greedy_run [OF _ digits_all]) (simp_all add: Suc_le_eq)
  then have "greedy (Lit CHR '':'' # Lit CHR '':'' # Plus isdigit # Lit quote_char # r)
      (CHR '':'' # CHR '':'' # ?b @ quote_char # rest) (1 # 1 # length ?b # 1 # ks)"
    by (rule greedy_one [OF greedy_one]) simp_all
  then have "greedy (Plus isdigit # Lit CHR '':'' # Lit CHR '':'' # Plus isdigit # Lit quote_char # r)
      (?a @ CHR '':'' # CHR '':'' # ?b @ quote_char # rest) (length ?a # 1 # 1 # length ?b # 1 # ks)"
    by (rule greedy_run [OF _ digits_all]) (simp_all add: Suc_le_eq)
  from greedy_one [OF this, of "\<lambda>d. d = quote_char" quote_char 1] show ?thesis
    by (simp add: pair_items_def row_text_def)
qed

lemma length_row_text: "length (row_text r) = length (print_nat (fst r)) + length (print_nat (snd r)) + 4"
  by (simp add: row_text_def)

lemma greedy_spaces: "greedy r b ks \<Longrightarrow> list_all isspace a \<Longrightarrow> b = [] \<or> \<not> isspace (hd b) \<Longrightarrow> greedy (Star isspace # r) (a @ b) (length a # ks)"
  by (rule greedy_run) simp_all

lemma greedy_row_end: "greedy [Star isspace, End] [newline_char] [1, 0]"
  using greedy_spaces [of "[End]" "[]" "[0]" "[newline_char]"] greedy_End [OF greedy_Nil] by simp

lemma mpat_mid_row:
  assumes "blank ind"
  shows "\<exists>m. regexec mpat_mid (ind @ row_text r @ [newline_char]) = Some m \<and> rm_so m 1 = length ind \<and>
    regmatch_length m 1 7 = length (row_text r)"
proof -
  have "greedy mpat_mid (ind @ row_text r @ [newline_char])
      (length ind # [1, length (print_nat (fst r)), 1, 1, length (print_nat (snd r)), 1] @ [1, 0])"
    unfolding mpat_mid_def append_Cons append_assoc append_Nil
    using greedy_pair [OF greedy_row_end, of r] blank_space [OF assms]
    by (intro greedy_spaces) (simp_all add: row_text_def)
  from greedy_regexec [OF this [unfolded mpat_mid_def], folded mpat_mid_def] show ?thesis
    by (auto simp: rm_so_def regmatch_length_def length_row_text)
qed

lemma mpat_end_row:
  assumes "blank ind"
  shows "\<exists>m. regexec mpat_end (ind @ row_text r @ [CHR '')'', newline_char]) = Some m \<and> rm_so m 1 = length ind \<and>
    regmatch_length m 1 8 = length (row_text r) + 1"
proof -
  have "greedy [Lit CHR '')'', Star isspace, End] [CHR '')'', newline_char] [1, 1, 0]"
    using greedy_one [OF greedy_row_end, of "\<lambda>d. d = CHR '')''" "CHR '')''" 1] by simp
  then have "greedy mpat_end (ind @ row_text r @ [CHR '')'', newline_char])
      (length ind # [1, length (print_nat (fst r)), 1, 1, length (print_nat (snd r)), 1] @ [1, 1, 0])"
    unfolding mpat_end_def append_Cons append_assoc append_Nil
    using greedy_pair [of "[Lit CHR '')'', Star isspace, End]" "[CHR '')'', newline_char]" "[1, 1, 0]" r] blank_space [OF assms]
    by (intro greedy_spaces) (simp_all add: row_text_def)
  from greedy_regexec [OF this [unfolded mpat_end_def], folded mpat_end_def] show ?thesis
    by (auto simp: rm_so_def regmatch_length_def length_row_text)
qed

text \<open>The expression for a row in the middle does not match the last row.\<close>

lemma fits_append: "fits (r1 @ r2) s ks \<Longrightarrow> \<exists>k ks'. k \<le> length s \<and> fits r2 (drop k s) ks'"
proof (induction r1 arbitrary: s ks)
  case Nil
  then show ?case by (intro exI [of _ 0]) auto
next
  case (Cons i r1)
  then obtain k ks' where ks: "ks = k # ks'" by (cases ks) auto
  show ?case
  proof (cases i)
    case (Rep p lo hi)
    with Cons.prems ks have "fits (r1 @ r2) (drop k s) ks'" "k \<le> length s" by auto
    with Cons.IH [OF this(1)] obtain k' ks'' where "k' \<le> length (drop k s)" "fits r2 (drop k' (drop k s)) ks''" by blast
    then show ?thesis using \<open>k \<le> length s\<close> by (intro exI [of _ "k' + k"] exI [of _ ks'']) (simp add: add.commute)
  next
    case End
    with Cons.prems ks have "s = []" "fits (r1 @ r2) [] ks'" by auto
    with Cons.IH [of "[]" ks'] show ?thesis by auto
  qed
qed

lemma fits_lit_rest:
  assumes "fits [Lit c, Star p, End] s ks"
  shows "\<exists>w. s = c # w \<and> list_all p w"
proof -
  obtain k ks' where ks: "ks = k # ks'" using assms by (cases ks) simp_all
  obtain x w where s: "s = x # w" using assms unfolding ks by (cases s) auto
  have x: "x = c" "fits [Star p, End] w ks'" using assms unfolding ks s One_nat_def fits_one by simp_all
  then obtain k2 ks2 where "ks' = k2 # ks2" by (cases ks') simp_all
  with x(2) have "list_all p (take k2 w)" "fits [End] (drop k2 w) ks2" by simp_all
  then have "list_all p w" by (cases ks2) auto
  with s x(1) show ?thesis by simp
qed

lemma mpat_mid_last: "regexec mpat_mid (x @ [CHR '')'', newline_char]) = None"
proof (rule ccontr)
  let ?s = "x @ [CHR '')'', newline_char]"
  assume "regexec mpat_mid ?s \<noteq> None"
  then obtain j ks where j: "j \<le> length ?s" "fits mpat_mid (drop j ?s) ks"
    using regexec_Some [of mpat_mid ?s] by (metis not_None_eq surj_pair)
  moreover have "mpat_mid = (Star isspace # butlast pair_items) @ [Lit quote_char, Star isspace, End]"
    by (simp add: mpat_mid_def pair_items_def)
  ultimately obtain k ks' where "fits [Lit quote_char, Star isspace, End] (drop k (drop j ?s)) ks'" using fits_append by metis
  from fits_lit_rest [OF this] obtain w where w: "drop (k + j) ?s = quote_char # w" "list_all isspace w"
    unfolding drop_drop by blast
  obtain u where "?s = u @ quote_char # w" using append_take_drop_id [of "k + j" ?s] w(1) by metis
  then have "rev ?s = rev (u @ quote_char # w)" by (rule arg_cong)
  then have eq: "newline_char # CHR '')'' # rev x = rev w @ quote_char # rev u" by simp
  show False
  proof (cases "rev w")
    case (Cons a w')
    with eq have "CHR '')'' # rev x = w' @ quote_char # rev u" by simp
    moreover have "list_all isspace w'" using w(2) Cons list_all_rev [of isspace w] by simp
    ultimately show False by (cases w') auto
  qed (use eq in simp)
qed

text \<open>A buffer of 256 characters that holds a string.\<close>

definition holds :: "char list \<Rightarrow> string \<Rightarrow> bool" where
  "holds buf s \<longleftrightarrow> length buf = 256 \<and> nul_free s \<and> (\<exists>pad. buf = s @ NUL # pad)"

lemma holds_cstr: "holds buf s \<Longrightarrow> cstr buf = s"
  by (auto simp: holds_def)

lemma holds_terminated: "holds buf s \<Longrightarrow> terminated buf"
  by (auto simp: holds_def terminated_def)

lemma strsncpy_at_holds:
  assumes "holds buf s" "n \<le> length src" "nul_free src" "length s + n < 256"
  shows "\<exists>buf'. strsncpy_at buf (length s) src n = Some (int n, buf') \<and> holds buf' (s @ take n src)"
proof -
  obtain pad where buf: "buf = s @ NUL # pad" "length buf = 256" "nul_free s" using assms(1) by (auto simp: holds_def)
  have "strsncpy (drop (length s) buf) src (length buf - length s) n =
      Some (int n, take n src @ NUL # drop (Suc n) (drop (length s) buf))"
    using assms(2,4) buf(2) by (intro strsncpy_fits) simp_all
  then have "strsncpy_at buf (length s) src n = Some (int n, (s @ take n src) @ NUL # drop (Suc n) (drop (length s) buf))"
    using buf(1) by (simp add: strsncpy_at_def)
  moreover have "holds ((s @ take n src) @ NUL # drop (Suc n) (drop (length s) buf)) (s @ take n src)"
    using assms(2-4) buf(2,3) by (auto simp: holds_def)
  ultimately show ?thesis by blast
qed

lemma strscpy_at_holds:
  assumes "holds buf s" "nul_free src" "length s + length src < 256"
  shows "\<exists>buf'. strscpy_at buf (length s) src = Some (int (length src), buf') \<and> holds buf' (s @ src)"
proof -
  obtain pad where buf: "buf = s @ NUL # pad" "length buf = 256" "nul_free s" using assms(1) by (auto simp: holds_def)
  have "strscpy (drop (length s) buf) src (length buf - length s) =
      Some (int (length src), src @ NUL # drop (Suc (length src)) (drop (length s) buf))"
    using assms(3) buf(2) by (intro strscpy_fits) simp_all
  then have "strscpy_at buf (length s) src = Some (int (length src), (s @ src) @ NUL # drop (Suc (length src)) (drop (length s) buf))"
    using buf(1) by (simp add: strscpy_at_def)
  moreover have "holds ((s @ src) @ NUL # drop (Suc (length src)) (drop (length s) buf)) (s @ src)"
    using assms(2,3) buf(2,3) by (auto simp: holds_def)
  ultimately show ?thesis by blast
qed

lemma fgets_line:
  assumes "newline_char \<notin> set line" "length line < 255"
  shows "fgets 256 (line @ newline_char # rest) = Some (line @ [newline_char], rest)"
  using assms by (intro fgets_whole_line) simp_all

lemma row_text_plain: "newline_char \<notin> set (row_text r)" "nul_free (row_text r)" "CHR ''#'' \<notin> set (row_text r)"
    "CHR '' '' \<notin> set (row_text r)" "dquote_char \<notin> set (row_text r)" "CHR ''='' \<notin> set (row_text r)"
  using digits_print_nat [of "fst r"] digits_print_nat [of "snd r"] by (auto simp: row_text_def nul_free_def)

lemma blank_plain: "blank s \<Longrightarrow> newline_char \<notin> set s" "blank s \<Longrightarrow> nul_free s" "blank s \<Longrightarrow> CHR ''#'' \<notin> set s"
    "blank s \<Longrightarrow> CHR ''='' \<notin> set s"
  by (induction s) (auto simp: blank_def)

lemma cstr_id: "nul_free s \<Longrightarrow> cstr s = s"
  by (induction s) (simp_all add: cstr_def)

lemma row_ok_length: "row_ok r \<Longrightarrow> length (row_text r) \<le> 10"
  using length_print_small [of "fst r"] length_print_small [of "snd r"] by (simp add: row_ok_def length_row_text)

lemma append_loop_step:
  assumes "holds buf s" "blank ind" "row_ok r" "n < 16" "length ind \<le> 200" "length s < 240"
  shows "\<exists>buf'. append_loop buf (length s) n (ind @ row_text r @ newline_char # f) =
      append_loop buf' (length (s @ '';'' @ row_text r)) (Suc n) f \<and> holds buf' (s @ '';'' @ row_text r)"
proof -
  let ?line = "ind @ row_text r @ [newline_char]"
  have f: "fgets 256 (ind @ row_text r @ newline_char # f) = Some (?line, f)"
    using fgets_line [of "ind @ row_text r" f] assms row_ok_length [OF assms(3)] row_text_plain(1) blank_plain(1) by simp
  have c: "cstr ?line = ?line" using blank_plain(2) [OF assms(2)] row_text_plain(2) by (intro cstr_id) simp
  obtain b where b: "strscpy_at buf (length s) '';'' = Some (1, b)" "holds b (s @ '';'')"
    using strscpy_at_holds [OF assms(1), of "'';''"] assms(6) by auto
  obtain m where m: "regexec mpat_mid ?line = Some m" "rm_so m 1 = length ind" "regmatch_length m 1 7 = length (row_text r)"
    using mpat_mid_row [OF assms(2)] by blast
  obtain b' where b': "strsncpy_at b (length (s @ '';'')) (row_text r @ [newline_char]) (length (row_text r)) =
      Some (int (length (row_text r)), b')" "holds b' (s @ '';'' @ row_text r)"
    using strsncpy_at_holds [OF b(2), of "length (row_text r)" "row_text r @ [newline_char]"] assms(6) row_ok_length [OF assms(3)]
      row_text_plain(2) by auto
  have p: "nat (int (length s) + 1) = length (s @ '';'')" "nat (int (length s) + 1 + int (length (row_text r))) = length (s @ '';'' @ row_text r)"
    by simp_all
  show ?thesis
    using b' assms(4) m(2)
    unfolding append_loop.simps [of buf "length s" n] f option.case prod.case Let_def c b(1) m p(1)
    by (intro exI [of _ b']) (simp add: nat_add_distrib)
qed

lemma append_loop_last:
  assumes "holds buf s" "blank ind" "row_ok r" "n < 16" "length ind \<le> 200" "length s < 240"
  shows "\<exists>buf'. append_loop buf (length s) n (ind @ row_text r @ CHR '')'' # newline_char # f) = Some (0, buf', f) \<and>
    holds buf' (s @ '';'' @ row_text r @ '')'')"
proof -
  let ?line = "ind @ row_text r @ [CHR '')'', newline_char]"
  have f: "fgets 256 (ind @ row_text r @ CHR '')'' # newline_char # f) = Some (?line, f)"
    using fgets_line [of "ind @ row_text r @ [CHR '')'']" f] assms row_ok_length [OF assms(3)] row_text_plain(1) blank_plain(1) by simp
  have c: "cstr ?line = ?line" using blank_plain(2) [OF assms(2)] row_text_plain(2) by (intro cstr_id) simp
  obtain b where b: "strscpy_at buf (length s) '';'' = Some (1, b)" "holds b (s @ '';'')"
    using strscpy_at_holds [OF assms(1), of "'';''"] assms(6) by auto
  have mid: "regexec mpat_mid ?line = None" using mpat_mid_last [of "ind @ row_text r"] by simp
  obtain m where m: "regexec mpat_end ?line = Some m" "rm_so m 1 = length ind" "regmatch_length m 1 8 = length (row_text r) + 1"
    using mpat_end_row [OF assms(2)] by blast
  obtain b' where b': "strsncpy_at b (length (s @ '';'')) (row_text r @ [CHR '')'', newline_char]) (length (row_text r) + 1) =
      Some (int (length (row_text r) + 1), b')" "holds b' (s @ '';'' @ row_text r @ '')'')"
    using strsncpy_at_holds [OF b(2), of "length (row_text r) + 1" "row_text r @ [CHR '')'', newline_char]"] assms(6)
      row_ok_length [OF assms(3)] row_text_plain(2) by auto
  have p: "nat (int (length s) + 1) = length (s @ '';'')" by simp
  show ?thesis
    using b' assms(4) m(2)
    unfolding append_loop.simps [of buf "length s" n] f option.case prod.case Let_def c b(1) mid m p
    by (intro exI [of _ b']) (simp del: length_append)
qed

lemma append_loop_rows:
  assumes "rs \<noteq> []" "list_all row_ok rs" "blank ind" "length ind \<le> 200" "n + length rs \<le> 16" "holds buf s" "length s \<le> 11 * Suc n"
  shows "\<exists>buf'. append_loop buf (length s) n (row_lines ind rs @ f) = Some (0, buf', f) \<and> holds buf' (s @ row_tail rs)"
  using assms
proof (induction ind rs arbitrary: s n buf rule: row_lines.induct)
  case (2 ind r)
  then show ?case using append_loop_last [of buf s ind r n f] by simp
next
  case (3 ind r r' rs)
  obtain b where b: "append_loop buf (length s) n (ind @ row_text r @ newline_char # row_lines ind (r' # rs) @ f) =
      append_loop b (length (s @ '';'' @ row_text r)) (Suc n) (row_lines ind (r' # rs) @ f)" "holds b (s @ '';'' @ row_text r)"
    using append_loop_step [of buf s ind r n "row_lines ind (r' # rs) @ f"] 3 by auto
  have "length (s @ '';'' @ row_text r) \<le> 11 * Suc (Suc n)" using 3 row_ok_length [of r] by simp
  with 3 b(2) show ?case using 3(1) [of "Suc n" b "s @ '';'' @ row_text r"] b(1) by simp
qed simp

lemma config_append_rows:
  assumes "ce_regcomp e = (\<lambda>_. True)" "holds v (''('' @ row_text r)" "row_ok r" "rs \<noteq> []" "list_all row_ok rs" "blank ind"
    and "length ind \<le> 200" "length rs \<le> 16"
  shows "\<exists>v'. config_append_matrix_rows e v (row_lines ind rs @ f) = Some (0, v', f) \<and> holds v' (matrix_text (r # rs))"
proof -
  let ?s = "''('' @ row_text r"
  have "greedy [Star isspace, End] [] [0, 0]" using greedy_none [OF greedy_End [OF greedy_Nil]] by simp
  from greedy_one [OF greedy_pair [OF this, of r], of "\<lambda>d. d = CHR ''(''" "CHR ''(''" 1]
  have "greedy mpat_start ?s (0 # 1 # [1, length (print_nat (fst r)), 1, 1, length (print_nat (snd r)), 1] @ [0, 0])"
    unfolding mpat_start_def by (auto intro!: greedy_none)
  from greedy_regexec [OF this [unfolded mpat_start_def], folded mpat_start_def] obtain m
    where m: "regexec mpat_start ?s = Some m" "rm_so m 1 = 0" "regmatch_length m 1 8 = length ?s"
    by (auto simp: rm_so_def regmatch_length_def length_row_text)
  have l: "length ?s \<le> 11" using row_ok_length [OF assms(3)] by simp
  have nf: "nul_free ?s" using row_text_plain(2) by simp
  have b: "strsncpy (replicate 256 NUL) ?s 256 (length ?s) = Some (int (length ?s), ?s @ NUL # drop (Suc (length ?s)) (replicate 256 NUL))"
    using l strsncpy_fits [of "length ?s" 256 ?s "replicate 256 NUL"] by simp
  have v: "length v = 256" "cstr v = ?s" using assms(2) holds_cstr by (auto simp: holds_def)
  have w: "strscpy v ?s 256 = Some (int (length ?s), ?s @ NUL # drop (Suc (length ?s)) v)"
    using l v strscpy_fits [of ?s 256 v] by simp
  have h: "holds (?s @ NUL # drop (Suc (length ?s)) v) ?s" using l v nf by (auto simp: holds_def)
  from append_loop_rows [OF assms(4-7) _ h, of 0 f] assms(8) l obtain v' where
    "append_loop (?s @ NUL # drop (Suc (length ?s)) v) (length ?s) 0 (row_lines ind rs @ f) = Some (0, v', f)" "holds v' (?s @ row_tail rs)"
    by auto
  then show ?thesis
    using m b w v nf assms(1) cstr_append_NUL [OF nf]
    by (simp add: config_append_matrix_rows_def matrix_text_def del: length_append append_Cons)
qed

section \<open>Lines with a key and a value\<close>

definition key_word :: "string \<Rightarrow> bool" where
  "key_word k \<longleftrightarrow> k \<noteq> [] \<and> length k < 64 \<and> list_all (\<lambda>c. \<not> isspace c \<and> c \<noteq> CHR ''='' \<and> c \<noteq> CHR ''#'' \<and> c \<noteq> NUL) k"

definition value_word :: "string \<Rightarrow> bool" where
  "value_word v \<longleftrightarrow> v \<noteq> [] \<and> length v < 64 \<and>
     list_all (\<lambda>c. \<not> isspace c \<and> c \<noteq> CHR ''='' \<and> c \<noteq> CHR ''#'' \<and> c \<noteq> dquote_char \<and> c \<noteq> NUL) v"

lemma list_all_notin: "list_all p s \<Longrightarrow> \<not> p c \<Longrightarrow> c \<notin> set s"
  by (auto simp: list_all_iff)

lemma list_all_mono: "list_all p s \<Longrightarrow> (\<And>c. p c \<Longrightarrow> q c) \<Longrightarrow> list_all q s"
  by (induction s) simp_all

lemma key_wordD:
  assumes "key_word k"
  shows "list_all (\<lambda>c. \<not> isspace c) k" "CHR ''='' \<notin> set k" "nul_free k" "CHR ''#'' \<notin> set k" "newline_char \<notin> set k"
proof -
  have k: "list_all (\<lambda>c. \<not> isspace c \<and> c \<noteq> CHR ''='' \<and> c \<noteq> CHR ''#'' \<and> c \<noteq> NUL) k" using assms by (simp add: key_word_def)
  show "list_all (\<lambda>c. \<not> isspace c) k" by (rule list_all_mono [OF k]) simp
  show "CHR ''='' \<notin> set k" "nul_free k" "CHR ''#'' \<notin> set k" "newline_char \<notin> set k"
    unfolding nul_free_def by (rule list_all_notin [OF k], simp)+
qed

lemma value_wordD:
  assumes "value_word v"
  shows "list_all (\<lambda>c. \<not> isspace c) v" "CHR ''='' \<notin> set v" "nul_free v" "CHR ''#'' \<notin> set v" "newline_char \<notin> set v"
    "list_all (\<lambda>c. c \<noteq> dquote_char \<and> c \<noteq> CHR '' '') v"
proof -
  have v: "list_all (\<lambda>c. \<not> isspace c \<and> c \<noteq> CHR ''='' \<and> c \<noteq> CHR ''#'' \<and> c \<noteq> dquote_char \<and> c \<noteq> NUL) v"
    using assms by (simp add: value_word_def)
  show "list_all (\<lambda>c. \<not> isspace c) v" "list_all (\<lambda>c. c \<noteq> dquote_char \<and> c \<noteq> CHR '' '') v"
    by (rule list_all_mono [OF v], auto)+
  show "CHR ''='' \<notin> set v" "nul_free v" "CHR ''#'' \<notin> set v" "newline_char \<notin> set v"
    unfolding nul_free_def by (rule list_all_notin [OF v], simp)+
qed

text \<open>
  A line of the form \<open>key = value\<close> with arbitrary blanks around the equals sign and spaces at the end:
  the first group stops at the (only) equals sign.
\<close>

text \<open>What follows the equals sign: blanks, the value without quotes, and blanks.\<close>

lemma greedy_value:
  fixes v w :: string and n :: nat
  assumes v: "value_word v" and w: "blank w"
  defines "q \<equiv> \<lambda>c. c \<noteq> dquote_char \<and> c \<noteq> CHR '' ''" and "sp \<equiv> replicate n CHR '' ''"
  shows "greedy [Star isspace, Opt dquote_char, Plus q, Opt dquote_char, Star isspace, End] (w @ v @ sp) [length w, 0, length v, 0, n, 0]"
proof -
  have "greedy [Star isspace, End] sp [n, 0]"
    using greedy_spaces [OF greedy_End [OF greedy_Nil], of sp] by (simp add: list_all_iff sp_def)
  then have "greedy [Opt dquote_char, Star isspace, End] sp [0, n, 0]"
    by (rule greedy_none) (cases n, simp_all add: sp_def)
  then have "greedy [Plus q, Opt dquote_char, Star isspace, End] (v @ sp) [length v, 0, n, 0]"
  proof (rule greedy_run)
    show "list_all q v" unfolding q_def by (rule value_wordD [OF v])
    show "sp = [] \<or> \<not> q (hd sp)" by (cases n) (simp_all add: sp_def q_def)
    show "1 \<le> length v" using v by (simp add: value_word_def Suc_le_eq)
  qed
  then have "greedy [Opt dquote_char, Plus q, Opt dquote_char, Star isspace, End] (v @ sp) [0, length v, 0, n, 0]"
    by (rule greedy_none) (use v in \<open>cases v, simp_all add: value_word_def\<close>)
  then show ?thesis
    by (rule greedy_spaces [OF _ blank_space [OF w]]) (use v in \<open>cases v, simp_all add: value_word_def\<close>)
qed

lemma valregex_line:
  assumes k: "key_word k" and v: "value_word v" and w: "blank w1" "blank w2" "blank w3"
  shows "\<exists>m. regexec_anchored valregex (w1 @ k @ w2 @ CHR ''='' # w3 @ v @ replicate n CHR '' '') = Some m \<and>
    rm_so m 1 = length w1 \<and> regmatch_length m 1 2 = length k \<and>
    rm_so m 6 = length (w1 @ k @ w2 @ ''='' @ w3) \<and> regmatch_length m 6 7 = length v"
proof -
  let ?sp = "replicate n CHR '' ''" and ?q = "\<lambda>c. c \<noteq> dquote_char \<and> c \<noteq> CHR '' ''"
  from greedy_one [OF greedy_value [OF v w(3), of n], of "\<lambda>d. d = CHR ''=''" "CHR ''=''" 1]
  have 2: "greedy [Lit CHR ''='', Star isspace, Opt dquote_char, Plus ?q, Opt dquote_char, Star isspace, End]
      (CHR ''='' # w3 @ v @ ?sp) [1, length w3, 0, length v, 0, n, 0]" by simp
  then have 3: "greedy [Star isspace, Lit CHR ''='', Star isspace, Opt dquote_char, Plus ?q, Opt dquote_char, Star isspace, End]
      (w2 @ CHR ''='' # w3 @ v @ ?sp) [length w2, 1, length w3, 0, length v, 0, n, 0]"
    by (rule greedy_spaces [OF _ blank_space [OF w(2)]]) simp
  have 4: "greedy [Plus (\<lambda>c. \<not> isspace c), Star isspace, Lit CHR ''='', Star isspace, Opt dquote_char, Plus ?q,
      Opt dquote_char, Star isspace, End] (k @ w2 @ CHR ''='' # w3 @ v @ ?sp)
      [length k, length w2, 1, length w3, 0, length v, 0, n, 0]"
    (is "greedy (Plus _ # ?r) ?s _")
  proof (rule greedy_Rep)
    show "greedy ?r (drop (length k) ?s) [length w2, 1, length w3, 0, length v, 0, n, 0]" using 3 by simp
    show "1 \<le> length k" using k by (simp add: key_word_def Suc_le_eq)
    show "length k \<le> most (\<lambda>c. \<not> isspace c) None ?s"
      using key_wordD(1) [OF k] by (simp add: most_def le_takeWhile_iff)
  next
    fix k' assume k': "length k < k'" "k' \<le> most (\<lambda>c. \<not> isspace c) None ?s"
    have "CHR ''='' \<notin> set (drop k' ?s)"
    proof (cases "w2")
      case Nil
      then have "set (drop k' ?s) \<subseteq> set (w3 @ v @ ?sp)"
        using k'(1) set_drop_subset [of "k' - Suc (length k)" "w3 @ v @ ?sp"]
        by (simp add: drop_Cons' del: set_append)
      then show ?thesis using blank_plain(4) [OF w(3)] value_wordD(2) [OF v] by auto
    next
      case (Cons b w2')
      then have "isspace b" using blank_space [OF w(2)] by simp
      with Cons key_wordD(1) [OF k] have "takeWhile (\<lambda>c. \<not> isspace c) ?s = k"
        by (simp add: takeWhile_append list_all_iff takeWhile_eq_all_conv)
      with k' show ?thesis by (simp add: most_def)
    qed
    then show "ways ?r (drop k' ?s) = []" by (intro ways_absent) simp_all
  qed
  then have "greedy valregex (w1 @ k @ w2 @ CHR ''='' # w3 @ v @ ?sp)
      [length w1, length k, length w2, 1, length w3, 0, length v, 0, n, 0]"
    unfolding valregex_def append_Cons append_Nil
    by (rule greedy_spaces [OF _ blank_space [OF w(1)]]) (use k in \<open>cases k, simp_all add: key_word_def\<close>)
  from greedy_regexec_anchored [OF this [unfolded valregex_def], folded valregex_def] show ?thesis
    by (auto simp: rm_so_def regmatch_length_def numeral_eq_Suc)
qed

section \<open>Configuration files as lists of settings\<close>

datatype setting = S_interval u16 | S_hysteresis byte | S_throttle bool | S_matrix "row list"

text \<open>The spelling of a line: the key, the blanks, and a comment at its end.\<close>

record layout =
  ly_key :: string
  ly_w1 :: string
  ly_w2 :: string
  ly_w3 :: string
  ly_spaces :: nat
  ly_comment :: string
  ly_indent :: string

datatype config_item = Remark string string | Setting layout setting

fun setting_key :: "setting \<Rightarrow> string" where
  "setting_key (S_interval _) = ''interval''"
| "setting_key (S_hysteresis _) = ''hysteresis''"
| "setting_key (S_throttle _) = ''aggressive_throttle''"
| "setting_key (S_matrix _) = ''matrix''"

fun setting_value :: "setting \<Rightarrow> string" where
  "setting_value (S_interval w) = print_nat (unat w)"
| "setting_value (S_hysteresis b) = print_nat (unat b)"
| "setting_value (S_throttle b) = (if b then ''true'' else ''false'')"
| "setting_value (S_matrix rs) = ''('' @ row_text (hd rs)"

definition entry_text :: "layout \<Rightarrow> string \<Rightarrow> string" where
  "entry_text l v = ly_w1 l @ ly_key l @ ly_w2 l @ CHR ''='' # ly_w3 l @ v @ replicate (ly_spaces l) CHR '' ''"

fun item_text :: "config_item \<Rightarrow> string" where
  "item_text (Remark w comment) = w @ comment @ [newline_char]"
| "item_text (Setting l st) =
     entry_text l (setting_value st) @ ly_comment l @ newline_char #
     (case st of S_matrix rs \<Rightarrow> row_lines (ly_indent l) (tl rs) | _ \<Rightarrow> [])"

fun apply_item :: "config_item \<Rightarrow> fand_config \<Rightarrow> fand_config" where
  "apply_item (Remark _ _) d = d"
| "apply_item (Setting _ (S_interval w)) d = d\<lparr>cfg_interval := w\<rparr>"
| "apply_item (Setting _ (S_hysteresis b)) d = d\<lparr>cfg_hysteresis := b\<rparr>"
| "apply_item (Setting _ (S_throttle b)) d = d\<lparr>cfg_throttle := b\<rparr>"
| "apply_item (Setting _ (S_matrix rs)) d =
     d\<lparr>cfg_matrix := put_rows (cfg_matrix d) 0 rs, cfg_matrix_rows := of_nat (length rs)\<rparr>"

definition comment_ok :: "string \<Rightarrow> bool" where
  "comment_ok c \<longleftrightarrow> newline_char \<notin> set c \<and> nul_free c \<and> (c = [] \<or> hd c = CHR ''#'')"

definition layout_ok :: "layout \<Rightarrow> string \<Rightarrow> string \<Rightarrow> bool" where
  "layout_ok l key v \<longleftrightarrow> key_word (ly_key l) \<and> strtolower (ly_key l) = key \<and> blank (ly_w1 l) \<and> blank (ly_w2 l) \<and>
     blank (ly_w3 l) \<and> blank (ly_indent l) \<and> length (ly_indent l) \<le> 200 \<and> comment_ok (ly_comment l) \<and>
     length (entry_text l v @ ly_comment l) < 255"

fun item_ok :: "config_item \<Rightarrow> bool" where
  "item_ok (Remark w c) \<longleftrightarrow> blank w \<and> comment_ok c \<and> length (w @ c) < 255"
| "item_ok (Setting l st) \<longleftrightarrow> layout_ok l (setting_key st) (setting_value st) \<and>
     (case st of S_matrix rs \<Rightarrow> 2 \<le> length rs \<and> length rs \<le> 15 \<and> list_all row_ok rs | _ \<Rightarrow> True)"

definition config_text :: "config_item list \<Rightarrow> string" where
  "config_text items = concat (map item_text items)"

lemma replace_nul: "nul_free s \<Longrightarrow> config_replace_char s c NUL = takeWhile (\<lambda>d. d \<noteq> c) s"
proof (induction s)
  case (Cons x s)
  then show ?case by (cases "c = x"; cases "c \<in> set s") (auto simp: config_replace_char_def cstr_def)
qed (simp add: config_replace_char_def)

lemma strip_line:
  assumes "nul_free b" "newline_char \<notin> set b" "CHR ''#'' \<notin> set b" "comment_ok c"
  shows "config_strip_comments (config_replace_char (cstr (b @ c @ [newline_char])) newline_char NUL) = b"
proof -
  have nf: "nul_free (b @ c @ [newline_char])" using assms by (simp add: comment_ok_def)
  have "takeWhile (\<lambda>d. d \<noteq> newline_char) (b @ c @ [newline_char]) = b @ c"
    using assms(2,4) by (auto simp: comment_ok_def takeWhile_append takeWhile_eq_all_conv)
  moreover have "takeWhile (\<lambda>d. d \<noteq> CHR ''#'') (b @ c) = b"
    using assms(3,4) by (cases c) (auto simp: comment_ok_def takeWhile_append takeWhile_eq_all_conv)
  ultimately show ?thesis
    using nf assms(1,4) by (simp add: config_strip_comments_def cstr_id replace_nul comment_ok_def del: nul_free_append)
      (simp add: replace_nul)
qed

lemma line_empty_space: "config_line_empty s \<Longrightarrow> list_all isspace s"
  by (induction s) (auto simp: isspace_def split: if_splits)

lemma blank_line_empty: "blank s \<Longrightarrow> config_line_empty s"
  by (induction s) (auto simp: blank_def)

lemma config_lines_step:
  assumes "nul_free b" "newline_char \<notin> set b" "CHR ''#'' \<notin> set b" "comment_ok c" "length (b @ c) < 255"
  shows "config_lines e d (b @ c @ newline_char # f) =
    (if config_line_empty b then config_lines e d f
     else case config_entry e d b f of
       None \<Rightarrow> None
     | Some (st, d', f') \<Rightarrow> if st \<noteq> 0 then Some (st, d') else config_lines e d' f')"
proof -
  have "fgets 256 (b @ c @ newline_char # f) = Some (b @ c @ [newline_char], f)"
    using fgets_line [of "b @ c" f] assms by (simp add: comment_ok_def)
  then show ?thesis using strip_line [OF assms(1-4)] by (subst config_lines.simps) simp
qed

lemma entry_text_plain:
  assumes "layout_ok l key v" "value_word v"
  shows "nul_free (entry_text l v)" "newline_char \<notin> set (entry_text l v)" "CHR ''#'' \<notin> set (entry_text l v)"
    "\<not> config_line_empty (entry_text l v)"
proof -
  have k: "key_word (ly_key l)" and w: "blank (ly_w1 l)" "blank (ly_w2 l)" "blank (ly_w3 l)"
    using assms(1) by (simp_all add: layout_ok_def)
  show "nul_free (entry_text l v)" "newline_char \<notin> set (entry_text l v)" "CHR ''#'' \<notin> set (entry_text l v)"
    using key_wordD [OF k] value_wordD [OF assms(2)] blank_plain [OF w(1)] blank_plain [OF w(2)] blank_plain [OF w(3)]
    by (simp_all add: entry_text_def nul_free_def)
  have "\<not> list_all isspace (entry_text l v)" by (simp add: entry_text_def)
  then show "\<not> config_line_empty (entry_text l v)" using line_empty_space by blast
qed

lemma copied_word:
  assumes "length w < n" "nul_free w"
  shows "\<exists>b. strsncpy (replicate n NUL) (w @ rest) n (length w) = Some (int (length w), b) \<and> cstr b = w \<and> length b = n \<and>
    (\<exists>pad. b = w @ NUL # pad)"
  using assms strsncpy_fits [of "length w" n "w @ rest" "replicate n NUL"] by auto

text \<open>A line of the file reduces to the call of its handler.\<close>

lemma config_entry_text:
  assumes "layout_ok l key v" "value_word v"
  shows "\<exists>vb. holds vb v \<and> config_entry e d (entry_text l v) f =
    (case (if key = ''matrix'' then config_append_matrix_rows e vb f else Some (0, vb, f)) of
       None \<Rightarrow> None
     | Some (reti, value', file') \<Rightarrow>
         if reti \<noteq> 0 then Some (reti, d, file')
         else if \<not> terminated value' then None
         else map_option (\<lambda>(st, d'). (st, d', file')) (config_dispatch (config_map e) key d (cstr value')))"
proof -
  let ?t = "entry_text l v" and ?k = "ly_key l"
  have k: "key_word ?k" "strtolower ?k = key" and w: "blank (ly_w1 l)" "blank (ly_w2 l)" "blank (ly_w3 l)"
    using assms(1) by (simp_all add: layout_ok_def)
  obtain m where m: "regexec_anchored valregex ?t = Some m" "rm_so m 1 = length (ly_w1 l)" "regmatch_length m 1 2 = length ?k"
      "rm_so m 6 = length (ly_w1 l @ ?k @ ly_w2 l @ ''='' @ ly_w3 l)" "regmatch_length m 6 7 = length v"
    using valregex_line [OF k(1) assms(2) w, of "ly_spaces l"] unfolding entry_text_def by blast
  let ?r1 = "ly_w2 l @ CHR ''='' # ly_w3 l @ v @ replicate (ly_spaces l) CHR '' ''"
  have d1: "drop (length (ly_w1 l)) ?t = ?k @ ?r1" by (simp add: entry_text_def)
  have "?t = (ly_w1 l @ ?k @ ly_w2 l @ ''='' @ ly_w3 l) @ v @ replicate (ly_spaces l) CHR '' ''" by (simp add: entry_text_def)
  then have d6: "drop (length (ly_w1 l @ ?k @ ly_w2 l @ ''='' @ ly_w3 l)) ?t = v @ replicate (ly_spaces l) CHR '' ''"
    by (metis append_eq_conv_conj)
  obtain kb where kb: "strsncpy (replicate 64 NUL) (?k @ ?r1) 64 (length ?k) = Some (int (length ?k), kb)" "cstr kb = ?k"
    using copied_word [of ?k 64 ?r1] k(1) key_wordD(3) [OF k(1)] by (auto simp: key_word_def)
  obtain vb where vb: "strsncpy (replicate 256 NUL) (v @ replicate (ly_spaces l) CHR '' '') 256 (length v) = Some (int (length v), vb)"
      "holds vb v"
    using copied_word [of v 256 "replicate (ly_spaces l) CHR '' ''"] assms(2) value_wordD(3) [OF assms(2)]
    by (auto simp: value_word_def holds_def)
  show ?thesis
    using vb(2) unfolding config_entry_def m(1) option.case m(2-5) d1 d6 kb prod.case vb(1) Let_def k(2)
    by (intro exI [of _ vb]) simp
qed

lemma digits_value_word:
  assumes "\<forall>c \<in> set s. isdigit c" "s \<noteq> []" "length s < 64"
  shows "value_word s"
  unfolding value_word_def list_all_iff using assms by (auto simp: isdigit_def isspace_def)

lemma row_value_word: "row_ok r \<Longrightarrow> value_word (''('' @ row_text r)"
proof -
  assume ok: "row_ok r"
  have sp: "isdigit c \<Longrightarrow> \<not> isspace c" for c by (auto simp: isdigit_def isspace_def)
  have "\<not> isspace c" if "c \<in> set (row_text r)" for c
    using that digits_print_nat [of "fst r"] digits_print_nat [of "snd r"] sp by (auto simp: row_text_def isspace_def)
  then show ?thesis
    using row_ok_length [OF ok] row_text_plain [of r] by (auto simp: value_word_def list_all_iff nul_free_def)
qed

lemma strstoul_range_print:
  assumes "n \<le> unat high"
  shows "strstoul_range (print_nat n) v 0 high = (0, of_nat n)"
proof -
  have lt: "n < 2 ^ 64" using assms unsigned_less [of high, where 'a = nat] by simp
  then have "strstoul (print_nat n) v = (0, of_nat n)"
    using strstoul_digits [of "print_nat n" v] digits_print_nat [of n] by (simp add: digits_val_print_nat)
  moreover have "\<not> high < of_nat n"
    using assms lt by (simp add: not_less word_le_nat_alt unsigned_of_nat take_bit_nat_eq_self)
  ultimately show ?thesis by (simp add: strstoul_range_def)
qed

lemma print_value_word: "n < 10 ^ 10 \<Longrightarrow> value_word (print_nat n)"
  using length_print_nat [of n 9] digits_print_nat [of n] by (intro digits_value_word) simp_all

lemma ucast_of_unat: "(ucast (ucast (w :: u16) :: u64) :: u16) = w" "(ucast (ucast (b :: byte) :: u64) :: byte) = b"
  by (rule bit_word_eqI, simp add: bit_ucast_iff)+

lemma setting_value_word:
  assumes "item_ok (Setting l st)"
  shows "value_word (setting_value st)"
proof (cases st)
  case (S_interval w)
  then show ?thesis using unsigned_less [of w, where 'a = nat] by (simp add: print_value_word)
next
  case (S_hysteresis b)
  then show ?thesis using unsigned_less [of b, where 'a = nat] by (simp add: print_value_word)
next
  case (S_throttle b)
  then show ?thesis by (simp add: value_word_def isspace_def)
next
  case (S_matrix rs)
  then have "row_ok (hd rs)" using assms by (cases rs) auto
  with S_matrix show ?thesis using row_value_word by simp
qed

lemma config_entry_setting:
  assumes "item_ok (Setting l st)" "ce_regcomp e = (\<lambda>_. True)"
  shows "config_entry e d (entry_text l (setting_value st)) ((case st of S_matrix rs \<Rightarrow> row_lines (ly_indent l) (tl rs) | _ \<Rightarrow> []) @ f) =
    Some (0, apply_item (Setting l st) d, f)" (is "config_entry e d ?t (?rows @ f) = _")
proof -
  have ok: "layout_ok l (setting_key st) (setting_value st)" using assms(1) by simp
  obtain vb where vb: "holds vb (setting_value st)" and eq: "config_entry e d ?t (?rows @ f) =
      (case (if setting_key st = ''matrix'' then config_append_matrix_rows e vb (?rows @ f) else Some (0, vb, ?rows @ f)) of
         None \<Rightarrow> None
       | Some (reti, value', file') \<Rightarrow>
           if reti \<noteq> 0 then Some (reti, d, file')
           else if \<not> terminated value' then None
           else map_option (\<lambda>(st, d'). (st, d', file')) (config_dispatch (config_map e) (setting_key st) d (cstr value')))"
    using config_entry_text [OF ok setting_value_word [OF assms(1)]] by blast
  note vb' = holds_terminated [OF vb] holds_cstr [OF vb]
  show ?thesis
  proof (cases st)
    case (S_interval w)
    then show ?thesis using eq vb' unsigned_less [of w, where 'a = nat]
      by (simp add: config_map_def config_set_interval_def strstoul_range_print ucast_of_unat)
  next
    case (S_hysteresis b)
    then show ?thesis using eq vb' unsigned_less [of b, where 'a = nat]
      by (simp add: config_map_def config_set_hysteresis_def strstoul_range_print ucast_of_unat)
  next
    case (S_throttle b)
    then show ?thesis using eq vb' by (simp add: config_map_def config_set_throttle_def)
  next
    case (S_matrix rs)
    then obtain r rs' where rs: "rs = r # rs'" "rs' \<noteq> []" "length rs' \<le> 14" "row_ok r" "list_all row_ok rs'"
      using assms(1) by (cases rs; cases "tl rs") auto
    have "blank (ly_indent l)" "length (ly_indent l) \<le> 200" using ok by (simp_all add: layout_ok_def)
    with config_append_rows [OF assms(2), of vb r rs' "ly_indent l" f] vb S_matrix rs obtain v' where
      v': "config_append_matrix_rows e vb (row_lines (ly_indent l) rs' @ f) = Some (0, v', f)" "holds v' (matrix_text rs)"
      by auto
    have "config_set_matrix e d (matrix_text rs) =
        Some (0, d\<lparr>cfg_matrix := put_rows (cfg_matrix d) 0 rs, cfg_matrix_rows := of_nat (length rs)\<rparr>)"
      using config_set_matrix_text [of e rs d] rs assms(2) by (simp add: Let_def)
    then show ?thesis
      using eq v'(1) holds_terminated [OF v'(2)] holds_cstr [OF v'(2)] S_matrix rs(1) by (simp add: config_map_def)
  qed
qed

lemma config_lines_item:
  assumes "item_ok it" "ce_regcomp e = (\<lambda>_. True)"
  shows "config_lines e d (item_text it @ f) = config_lines e (apply_item it d) f"
proof (cases it)
  case (Remark w c)
  with assms have "blank w" "comment_ok c" "length (w @ c) < 255" by simp_all
  then show ?thesis
    using config_lines_step [of w c e d f] blank_plain [of w] blank_line_empty [of w] Remark by simp
next
  case (Setting l st)
  have ok: "layout_ok l (setting_key st) (setting_value st)" using assms(1) Setting by simp
  note plain = entry_text_plain [OF ok setting_value_word [OF assms(1) [unfolded Setting]]]
  have "comment_ok (ly_comment l)" "length (entry_text l (setting_value st) @ ly_comment l) < 255"
    using ok by (simp_all add: layout_ok_def)
  from config_lines_step [OF plain(1-3) this, of e d] plain(4)
    config_entry_setting [OF assms(1) [unfolded Setting] assms(2), of d f] Setting
  show ?thesis by simp
qed

lemma config_lines_text:
  assumes "list_all item_ok items" "ce_regcomp e = (\<lambda>_. True)"
  shows "config_lines e d (config_text items) =
    Some (if cfg_matrix_rows (fold apply_item items d) = 0 then - 1 else 0, fold apply_item items d)"
  using assms(1)
proof (induction items arbitrary: d)
  case Nil
  then show ?case by (simp add: config_text_def config_lines.simps fgets_def)
next
  case (Cons it items)
  then show ?case using config_lines_item [OF _ assms(2), of it d "config_text items"] by (simp add: config_text_def)
qed

section \<open>Properties\<close>

definition env_ok :: config_env where
  "env_ok = \<lparr>ce_regcomp = (\<lambda>_. True)\<rparr>"

definition no_config :: fand_config where
  "no_config = \<lparr>cfg_throttle = False, cfg_matrix_rows = 0, cfg_hysteresis = 0, cfg_interval = 2, cfg_matrix = replicate 32 0\<rparr>"

definition plain_layout :: "string \<Rightarrow> layout" where
  "plain_layout key = \<lparr>ly_key = key, ly_w1 = [], ly_w2 = '' '', ly_w3 = '' '', ly_spaces = 1, ly_comment = ''# comment'',
     ly_indent = ''    ''\<rparr>"

definition example_items :: "config_item list" where
  "example_items = [Remark '' '' ''# fan'', Setting (plain_layout ''Interval'') (S_interval 5),
     Setting (plain_layout ''matrix'') (S_matrix [(50, 5), (60, 20), (70, 100)])]"

definition example_dir :: fs where
  "example_dir = \<lparr>fs_files = [''/etc/amdgpu-fand.conf'' \<mapsto> bytes (config_text example_items)], fs_dirs = (\<lambda>_. False),
     fs_sockets = (\<lambda>_. False), fs_fds = Map.empty\<rparr>"

lemma no_config_valid: "valid_config no_config"
  by (simp add: valid_config_def no_config_def nrows_def)

lemma config_parse_outcome:
  assumes "valid_config data"
  shows "\<exists>status data'. config_parse e k s path data = Some (status, data') \<and> length (cfg_matrix data') = 32 \<and>
    (status = 0 \<longrightarrow> valid_config data' \<and> 0 < nrows data')"
proof (cases "ce_regcomp e ''config value'' \<and> fst (fopen k s path Mode_r) = None")
  case True
  then have "config_parse e k s path data = config_lines e data (chars (the (fs_files s path)))"
    by (cases "fopen k s path Mode_r") (auto simp: config_parse_def)
  with config_lines_safe [OF assms, of e "chars (the (fs_files s path))"] show ?thesis by simp
next
  case False
  then have "config_parse e k s path data = Some (- 1, data)"
    by (auto simp: config_parse_def split: prod.split option.split)
  with assms show ?thesis by (simp add: valid_config_def)
qed





text \<open>
  C33: the rows of a matrix value.  The text of 1 to 15 rows with temperatures of at most 255 and speeds
  of at most 100 is read back row by row, nothing else of the configuration changes; the text of 16
  rows, which is the documented maximum and the number that the matrix has room for, is refused.
\<close>

theorem config_set_matrix_rows:
  assumes "ce_regcomp e ''matrix value''" and "rs \<noteq> []" and "list_all row_ok rs" and "length (cfg_matrix data) = 32"
  shows "(length rs \<le> 15 \<longrightarrow> (\<exists>data'. config_set_matrix e data (matrix_text rs) = Some (0, data') \<and>
      nrows data' = length rs \<and> (\<forall>i < length rs. row_temp data' i = fst (rs ! i) \<and> row_speed data' i = snd (rs ! i)) \<and>
      cfg_interval data' = cfg_interval data \<and> cfg_hysteresis data' = cfg_hysteresis data \<and>
      cfg_throttle data' = cfg_throttle data)) \<and>
    (length rs = 16 \<longrightarrow> (\<exists>data'. config_set_matrix e data (matrix_text rs) = Some (- 1, data')))"
proof -
  have "unat (of_nat (length rs) :: byte) = length rs" if "length rs \<le> 15"
    using that by (simp add: unsigned_of_nat take_bit_nat_eq_self)
  then show ?thesis
    using config_set_matrix_text [OF assms(1-3), of data] put_rows_rows [OF assms(3) _ assms(4)]
    by (auto simp: Let_def nrows_def)
qed

theorem config_set_matrix_rows_witness:
  "\<exists>data'. config_set_matrix env_ok no_config (matrix_text (replicate 16 (50, 10))) = Some (- 1, data')"
  using config_set_matrix_rows [of env_ok "replicate 16 (50, 10)" no_config]
  by (simp add: env_ok_def row_ok_def no_config_def list_all_iff)


end
