(* ===== verification/Sha1.thy ===== *)
theory Sha1
  imports Prelude
begin

text \<open>
  \<^verbatim>\<open>src/fand/sha1.c\<close>: the SHA-1 digest that protects the cache file, and its equivalence with the
  definition of FIPS 180-4.

  The first part translates the source: the context structure, the rotating-register rounds on a
  ring buffer of sixteen words, and the buffering of \<open>sha1_update\<close>.  \<^term>\<open>None\<close> is an access outside
  of the source or of the context's buffer, or a loop that does not end.  The second part states the
  standard: message schedule, rounds on five named variables, padding, and iteration over blocks.  The
  third part proves that the code computes it, for every way of splitting the message into updates.
\<close>

section \<open>The source\<close>

abbreviation (input) SHA1_BLOCKSIZE :: nat where "SHA1_BLOCKSIZE \<equiv> 64"
abbreviation (input) SHA1_DIGESTSIZE :: nat where "SHA1_DIGESTSIZE \<equiv> 20"

record sha1_ctx =
  ctx_h0 :: u32
  ctx_h1 :: u32
  ctx_h2 :: u32
  ctx_h3 :: u32
  ctx_h4 :: u32
  ctx_n0 :: u32
  ctx_n1 :: u32
  ctx_buffer :: "byte list"

type_synonym sha1_block = "u32 list"

definition rol :: "u32 \<Rightarrow> nat \<Rightarrow> u32" where
  "rol value bits = drop_bit (32 - bits) value OR push_bit bits value"

text \<open>\<open>htonl\<close> reverses the bytes on a little-endian machine.\<close>

definition htonl :: "u32 \<Rightarrow> u32" where
  "htonl w = be_word (le_bytes 4 w)"

definition expand :: "sha1_block \<Rightarrow> nat \<Rightarrow> sha1_block \<times> u32" where
  "expand block i =
     (let w = rol (block ! ((i + 0xd) mod 16) XOR block ! ((i + 0x8) mod 16) XOR
                   block ! ((i + 0x2) mod 16) XOR block ! ((i + 0x0) mod 16)) 1
      in (block[i mod 16 := w], w))"

text \<open>A round returns the block and the new values of \<open>*w\<close> and \<open>*z\<close>.\<close>

type_synonym round_fun = "sha1_block \<Rightarrow> u32 \<Rightarrow> u32 \<Rightarrow> u32 \<Rightarrow> u32 \<Rightarrow> u32 \<Rightarrow> nat \<Rightarrow> sha1_block \<times> u32 \<times> u32"

definition r0 :: round_fun where
  "r0 block v w x y z i =
     (let block' = block[i := htonl (block ! i)]
      in (block', rol w 30, z + (((w AND (x XOR y)) XOR y) + block' ! i + 0x5a827999 + rol v 5)))"

definition r1 :: round_fun where
  "r1 block v w x y z i =
     (case expand block i of (block', e) \<Rightarrow>
        (block', rol w 30, z + (((w AND (x XOR y)) XOR y) + e + 0x5a827999 + rol v 5)))"

definition r2 :: round_fun where
  "r2 block v w x y z i =
     (case expand block i of (block', e) \<Rightarrow>
        (block', rol w 30, z + ((w XOR x XOR y) + e + 0x6ed9eba1 + rol v 5)))"

definition r3 :: round_fun where
  "r3 block v w x y z i =
     (case expand block i of (block', e) \<Rightarrow>
        (block', rol w 30, z + ((((w OR x) AND y) OR (w AND x)) + e + 0x8f1bbcdc + rol v 5)))"

definition r4 :: round_fun where
  "r4 block v w x y z i =
     (case expand block i of (block', e) \<Rightarrow>
        (block', rol w 30, z + ((w XOR x XOR y) + e + 0xca62c1d6 + rol v 5)))"

text \<open>
  The eighty calls of \<open>sha1_transform\<close>: the call with index \<open>i\<close> uses \<open>r0\<close> below 16, \<open>r1\<close> below 20,
  \<open>r2\<close> below 40, \<open>r3\<close> below 60 and \<open>r4\<close> from there on, and its five register arguments
  \<open>h0, h1, h2, h3, h4\<close> move one place to the right from one call to the next.
\<close>

definition round_function :: "nat \<Rightarrow> round_fun" where
  "round_function i = (if i < 16 then r0 else if i < 20 then r1 else if i < 40 then r2 else if i < 60 then r3 else r4)"

definition reg :: "nat \<Rightarrow> nat \<Rightarrow> nat" where
  "reg i k = (4 * i + k) mod 5"

definition sha1_round :: "sha1_block \<times> u32 list \<Rightarrow> nat \<Rightarrow> sha1_block \<times> u32 list" where
  "sha1_round s i =
     (case s of (block, h) \<Rightarrow>
      case round_function i block (h ! reg i 0) (h ! reg i 1) (h ! reg i 2) (h ! reg i 3) (h ! reg i 4) i of
        (block', w', z') \<Rightarrow> (block', h[reg i 1 := w', reg i 4 := z']))"

definition load_block :: "byte list \<Rightarrow> sha1_block" where
  "load_block buffer = map (\<lambda>k. le_word (take 4 (drop (4 * k) buffer))) [0..<16]"

definition sha1_transform :: "sha1_ctx \<Rightarrow> byte list \<Rightarrow> sha1_ctx" where
  "sha1_transform ctx buffer =
     (let h = snd (foldl sha1_round
          (load_block buffer, [ctx_h0 ctx, ctx_h1 ctx, ctx_h2 ctx, ctx_h3 ctx, ctx_h4 ctx]) [0..<80])
      in ctx\<lparr>ctx_h0 := ctx_h0 ctx + h ! 0, ctx_h1 := ctx_h1 ctx + h ! 1, ctx_h2 := ctx_h2 ctx + h ! 2,
             ctx_h3 := ctx_h3 ctx + h ! 3, ctx_h4 := ctx_h4 ctx + h ! 4\<rparr>)"

definition sha1_init :: "sha1_ctx \<Rightarrow> sha1_ctx" where
  "sha1_init ctx =
     ctx\<lparr>ctx_h0 := 0x67452301, ctx_h1 := 0xefcdab89, ctx_h2 := 0x98badcfe, ctx_h3 := 0x10325476,
         ctx_h4 := 0xc3d2e1f0, ctx_n0 := 0, ctx_n1 := 0\<rparr>"

text \<open>\<open>memcpy(&ctx->buffer[i], &data[j], n)\<close> and \<open>sha1_transform(ctx, &data[j])\<close>.\<close>

definition buffer_copy :: "sha1_ctx \<Rightarrow> nat \<Rightarrow> byte list \<Rightarrow> nat \<Rightarrow> nat \<Rightarrow> sha1_ctx option" where
  "buffer_copy ctx i data j n =
     (if i + n \<le> length (ctx_buffer ctx) \<and> j + n \<le> length data
      then Some (ctx\<lparr>ctx_buffer := overwrite (ctx_buffer ctx) i (take n (drop j data))\<rparr>) else None)"

partial_function (option) sha1_blocks :: "sha1_ctx \<Rightarrow> byte list \<Rightarrow> u32 \<Rightarrow> u32 \<Rightarrow> (sha1_ctx \<times> u32) option" where
  "sha1_blocks ctx data j len =
     (if j + 64 - 1 < len
      then if unat j + 64 \<le> length data
           then sha1_blocks (sha1_transform ctx (take 64 (drop (unat j) data))) data (j + 64) len
           else None
      else Some (ctx, j))"

declare sha1_blocks.simps [code]

definition sha1_update :: "sha1_ctx \<Rightarrow> byte list \<Rightarrow> u32 \<Rightarrow> sha1_ctx option" where
  "sha1_update ctx data len =
     (let nbits = push_bit 3 len;
          i = ctx_n0 ctx;
          n0 = i + nbits;
          n1 = (if n0 < i then ctx_n1 ctx + 1 else ctx_n1 ctx) + drop_bit 29 len;
          ctx1 = ctx\<lparr>ctx_n0 := n0, ctx_n1 := n1\<rparr>;
          i1 = drop_bit 3 i AND 0x3f
      in if i1 + len < 64 then buffer_copy ctx1 (unat i1) data 0 (unat len)
         else let j = 64 - i1 in
           case buffer_copy ctx1 (unat i1) data 0 (unat j) of
             None \<Rightarrow> None
           | Some ctx2 \<Rightarrow>
               (case sha1_blocks (sha1_transform ctx2 (ctx_buffer ctx2)) data j len of
                  None \<Rightarrow> None
                | Some (ctx3, j') \<Rightarrow> buffer_copy ctx3 0 data (unat j') (unat (len - j'))))"

definition sha1_compute_final :: "u32 \<Rightarrow> nat \<Rightarrow> byte" where
  "sha1_compute_final n i = ucast (drop_bit ((3 - i mod 4) * 8) n AND 0xff)"

definition sha1_compute_digest_byte :: "sha1_ctx \<Rightarrow> nat \<Rightarrow> byte" where
  "sha1_compute_digest_byte ctx i =
     ucast (drop_bit ((3 - i mod 4) * 8)
       ([ctx_h0 ctx, ctx_h1 ctx, ctx_h2 ctx, ctx_h3 ctx, ctx_h4 ctx] ! (i div 4)) AND 0xff)"

partial_function (option) sha1_pad :: "sha1_ctx \<Rightarrow> sha1_ctx option" where
  "sha1_pad ctx =
     (if ctx_n0 ctx AND 0x1f8 \<noteq> 0x1c0
      then case sha1_update ctx [0] 1 of None \<Rightarrow> None | Some ctx' \<Rightarrow> sha1_pad ctx'
      else Some ctx)"

declare sha1_pad.simps [code]

definition sha1_final :: "sha1_ctx \<Rightarrow> byte list option" where
  "sha1_final ctx =
     (let final = map (sha1_compute_final (ctx_n1 ctx)) [0..<4] @ map (sha1_compute_final (ctx_n0 ctx)) [4..<8]
      in case sha1_update ctx [0x80] 1 of
           None \<Rightarrow> None
         | Some ctx1 \<Rightarrow>
             (case sha1_pad ctx1 of
                None \<Rightarrow> None
              | Some ctx2 \<Rightarrow>
                  (case sha1_update ctx2 final 8 of
                     None \<Rightarrow> None
                   | Some ctx3 \<Rightarrow> Some (map (sha1_compute_digest_byte ctx3) [0..<SHA1_DIGESTSIZE]))))"

section \<open>The standard\<close>

text \<open>FIPS 180-4, section 4.1.1 (functions), 4.2.1 (constants), 6.1.2 (schedule and rounds).\<close>

definition fips_f :: "nat \<Rightarrow> u32 \<Rightarrow> u32 \<Rightarrow> u32 \<Rightarrow> u32" where
  "fips_f t x y z =
     (if t < 20 then (x AND y) XOR (NOT x AND z)
      else if t < 40 then x XOR y XOR z
      else if t < 60 then (x AND y) XOR (x AND z) XOR (y AND z)
      else x XOR y XOR z)"

definition fips_K :: "nat \<Rightarrow> u32" where
  "fips_K t = (if t < 20 then 0x5a827999 else if t < 40 then 0x6ed9eba1 else if t < 60 then 0x8f1bbcdc else 0xca62c1d6)"

definition fips_word :: "byte list \<Rightarrow> nat \<Rightarrow> u32" where
  "fips_word M t = be_word (take 4 (drop (4 * t) M))"

fun fips_W :: "byte list \<Rightarrow> nat \<Rightarrow> u32" where
  "fips_W M t =
     (if t < 16 then fips_word M t
      else word_rotl 1 (fips_W M (t - 3) XOR fips_W M (t - 8) XOR fips_W M (t - 14) XOR fips_W M (t - 16)))"

declare fips_W.simps [simp del]

type_synonym hash = "u32 \<times> u32 \<times> u32 \<times> u32 \<times> u32"

definition fips_round :: "byte list \<Rightarrow> hash \<Rightarrow> nat \<Rightarrow> hash" where
  "fips_round M s t =
     (case s of (a, b, c, d, e) \<Rightarrow>
        (word_rotl 5 a + fips_f t b c d + e + fips_K t + fips_W M t, a, word_rotl 30 b, c, d))"

definition fips_compress :: "hash \<Rightarrow> byte list \<Rightarrow> hash" where
  "fips_compress s M =
     (case s of (a, b, c, d, e) \<Rightarrow>
      case foldl (fips_round M) s [0..<80] of (a', b', c', d', e') \<Rightarrow>
        (a + a', b + b', c + c', d + d', e + e'))"

text \<open>Section 5.1.1 (padding), 5.3.1 (initial value), and the iteration over the blocks.\<close>

definition fips_pad :: "byte list \<Rightarrow> byte list" where
  "fips_pad msg =
     msg @ [0x80] @ replicate ((119 - length msg mod 64) mod 64) 0 @ rev (le_bytes 8 (of_nat (8 * length msg) :: u64))"

definition fips_init :: hash where
  "fips_init = (0x67452301, 0xefcdab89, 0x98badcfe, 0x10325476, 0xc3d2e1f0)"

fun fips_blocks :: "hash \<Rightarrow> byte list \<Rightarrow> hash" where
  "fips_blocks s M = (if length M < 64 then s else fips_blocks (fips_compress s (take 64 M)) (drop 64 M))"

declare fips_blocks.simps [simp del]

definition fips_digest :: "hash \<Rightarrow> byte list" where
  "fips_digest s = (case s of (a, b, c, d, e) \<Rightarrow> concat (map (\<lambda>w. rev (le_bytes 4 w)) [a, b, c, d, e]))"

definition sha1 :: "byte list \<Rightarrow> byte list" where
  "sha1 msg = fips_digest (fips_blocks fips_init (fips_pad msg))"

section \<open>The rounds compute the standard's rounds\<close>

lemma rol_rotl: "0 < n \<Longrightarrow> n < 32 \<Longrightarrow> rol w n = word_rotl n w"
proof (rule bit_eqI)
  fix k assume n: "0 < n" "n < 32" and "possible_bit TYPE(32 word) k"
  then have k: "k < 32" by simp
  have L: "bit (rol w n) k \<longleftrightarrow> bit w (32 - n + k) \<or> n \<le> k \<and> bit w (k - n)"
    using k by (simp add: rol_def bit_simps)
  have R: "bit (word_rotl n w) k \<longleftrightarrow> bit w ((k + (32 - n)) mod 32)"
    using n k by (simp add: bit_word_rotl_iff)
  show "bit (rol w n) k = bit (word_rotl n w) k"
  proof (cases "k < n")
    case True
    then have "(k + (32 - n)) mod 32 = 32 - n + k" using n by simp
    with True L R show ?thesis by simp
  next
    case False
    then have "k + (32 - n) = k - n + 32" using n by simp
    then have "(k + (32 - n)) mod 32 = k - n" using k by (simp only: mod_add_self2) simp
    moreover have "\<not> bit w (32 - n + k)" using False n by (auto dest: bit_imp_le_length)
    ultimately show ?thesis using False L R by simp
  qed
qed

lemma choose_eq: "((w AND (x XOR y)) XOR y) = (w AND x) XOR (NOT w AND (y :: u32))"
  by (rule bit_eqI) (auto simp: bit_simps)

lemma choose_eq': "y XOR w AND (x XOR y) = w AND x XOR (y :: u32) AND NOT w"
  by (rule bit_eqI) (auto simp: bit_simps)

lemma majority_eq: "((w OR x) AND y) OR (w AND x) = (w AND x) XOR (w AND y) XOR (x AND (y :: u32))"
  by (rule bit_eqI) (auto simp: bit_simps)

lemma round_function_eq:
  "round_function i block v w x y z i =
     (let blk = (if i < 16 then block[i := htonl (block ! i)] else fst (expand block i));
          e = (if i < 16 then blk ! i else snd (expand block i))
      in (blk, word_rotl 30 w, word_rotl 5 v + fips_f i w x y + z + fips_K i + e))"
  unfolding round_function_def r0_def r1_def r2_def r3_def r4_def fips_f_def fips_K_def Let_def choose_eq majority_eq
  by (simp add: rol_rotl split_def ac_simps choose_eq')

text \<open>The ring buffer holds the last sixteen words of the schedule.\<close>

definition ring :: "byte list \<Rightarrow> nat \<Rightarrow> sha1_block \<Rightarrow> bool" where
  "ring M i block \<longleftrightarrow> length block = 16 \<and>
     (\<forall>k < 16. if i \<le> k then htonl (block ! k) = fips_W M k
               else \<forall>j < i. j mod 16 = k \<and> i \<le> j + 16 \<longrightarrow> block ! k = fips_W M j)"

lemma ring_read: "ring M i block \<Longrightarrow> j < i \<Longrightarrow> i \<le> j + 16 \<Longrightarrow> block ! (j mod 16) = fips_W M j"
  unfolding ring_def by (cases "i \<le> j mod 16") (use mod_less_eq_dividend [of j 16] in auto)

lemma expand_word:
  assumes "ring M i block" "16 \<le> i"
  shows "snd (expand block i) = fips_W M i" and "fst (expand block i) = block[i mod 16 := fips_W M i]"
proof -
  have "i + 0xd = i - 3 + 16" "i + 0x8 = i - 8 + 16" "i + 0x2 = i - 14 + 16" "i + 0x0 = i - 16 + 16"
    using assms(2) by simp_all
  then have m: "(i + 0xd) mod 16 = (i - 3) mod 16" "(i + 0x8) mod 16 = (i - 8) mod 16"
    "(i + 0x2) mod 16 = (i - 14) mod 16" "(i + 0x0) mod 16 = (i - 16) mod 16"
    by (simp_all only: mod_add_self2)
  have "block ! ((i - d) mod 16) = fips_W M (i - d)" if "0 < d" "d \<le> 16" for d
    using that assms by (intro ring_read [OF assms(1)]) linarith+
  then show "snd (expand block i) = fips_W M i" "fst (expand block i) = block[i mod 16 := fips_W M i]"
    using assms(2) fips_W.simps [of M i] unfolding expand_def m by (simp_all add: Let_def rol_rotl)
qed

lemma ring_update:
  assumes "ring M i block"
  shows "ring M (i + 1) (block[i mod 16 := fips_W M i])"
proof -
  have "if i + 1 \<le> k then htonl (block[i mod 16 := fips_W M i] ! k) = fips_W M k
      else \<forall>j < i + 1. j mod 16 = k \<and> i + 1 \<le> j + 16 \<longrightarrow> block[i mod 16 := fips_W M i] ! k = fips_W M j"
    if k: "k < 16" for k
  proof (cases "i + 1 \<le> k")
    case True
    then have "i mod 16 \<noteq> k" using k by simp
    with True assms k show ?thesis by (simp add: ring_def)
  next
    case False
    have "block[i mod 16 := fips_W M i] ! k = fips_W M j" if "j < i + 1" "j mod 16 = k" "i + 1 \<le> j + 16" for j
    proof (cases "j = i")
      case True
      with that assms k show ?thesis by (simp add: ring_def)
    next
      case False
      with that have "j < i" "i \<le> j + 16" "i < j + 16" by simp_all
      then have "i mod 16 \<noteq> j mod 16" by (metis le_add_diff_inverse less_imp_le_nat mod_eq_dvd_iff_nat nat_add_left_cancel_less nat_dvd_not_less zero_less_diff)
      with ring_read [OF assms \<open>j < i\<close> \<open>i \<le> j + 16\<close>] that show ?thesis by simp
    qed
    with False show ?thesis by simp
  qed
  with assms show ?thesis by (simp add: ring_def)
qed

lemma le_word_take4: "length bs = 4 \<Longrightarrow> le_bytes 4 (le_word bs :: u32) = bs"
  by (simp add: le_bytes_le_word)

lemma ring_initial:
  assumes "length M = 64"
  shows "ring M 0 (load_block M)"
  using assms
  by (simp add: ring_def load_block_def htonl_def fips_W.simps fips_word_def le_word_take4)

text \<open>The registers, read from the position where round \<open>i\<close> starts.\<close>

definition registers :: "nat \<Rightarrow> u32 list \<Rightarrow> hash" where
  "registers i h = (h ! reg i 0, h ! reg i 1, h ! reg i 2, h ! reg i 3, h ! reg i 4)"

lemma reg_less: "reg i k < 5"
  by (simp add: reg_def)

lemma reg_Suc: "reg (Suc i) 0 = reg i 4" "reg (Suc i) (Suc k) = reg i k"
proof -
  have "4 * Suc i + Suc k = 4 * i + k + 5" by simp
  then show "reg (Suc i) (Suc k) = reg i k" unfolding reg_def by (simp only: mod_add_self2)
qed (simp add: reg_def add.commute)

lemma reg_inject:
  assumes "j < 5" "k < 5"
  shows "reg i j = reg i k \<longleftrightarrow> j = k"
proof
  assume "reg i j = reg i k"
  then have "j mod 5 = k mod 5" unfolding reg_def by (simp only: nat_mod_eq_iff) (metis add.assoc add_left_cancel)
  with assms show "j = k" by simp
qed simp

lemma registers_step:
  assumes "length h = 5"
  shows "registers (Suc i) (h[reg i (Suc 0) := w, reg i 4 := z]) = (z, h ! reg i 0, w, h ! reg i 2, h ! reg i 3)"
proof -
  let ?h = "h[reg i (Suc 0) := w, reg i 4 := z]"
  have "registers (Suc i) ?h = (?h ! reg i 4, ?h ! reg i 0, ?h ! reg i (Suc 0), ?h ! reg i 2, ?h ! reg i 3)"
    using reg_Suc(2) [of i 0] reg_Suc(2) [of i "Suc 0", folded numeral_2_eq_2] reg_Suc(2) [of i 2] reg_Suc(2) [of i 3]
    by (simp add: registers_def reg_Suc(1))
  then show ?thesis using assms reg_less by (simp add: nth_list_update reg_inject)
qed

lemma sha1_round_eq:
  assumes "ring M i block" "length h = 5"
  shows "\<exists>block' h'. sha1_round (block, h) i = (block', h') \<and> ring M (i + 1) block' \<and> length h' = 5 \<and>
    registers (i + 1) h' = fips_round M (registers i h) i"
proof -
  have i16: "htonl (block ! i) = fips_W M i" "i < length block" if "i < 16"
    using that assms(1) by (simp_all add: ring_def)
  let ?blk = "block[i mod 16 := fips_W M i]"
  have "round_function i block v w x y z i =
      (?blk, word_rotl 30 w, word_rotl 5 v + fips_f i w x y + z + fips_K i + fips_W M i)" for v w x y z
    using i16 expand_word [OF assms(1)] by (simp add: round_function_eq Let_def)
  then show ?thesis
    using ring_update [OF assms(1)] assms(2)
    by (simp add: sha1_round_def registers_step fips_round_def registers_def [of i])
qed

lemma sha1_rounds_eq:
  assumes "length M = 64" "length h = 5"
  shows "\<exists>block' h'. foldl sha1_round (load_block M, h) [0..<n] = (block', h') \<and> ring M n block' \<and> length h' = 5 \<and>
    registers n h' = foldl (fips_round M) (registers 0 h) [0..<n]"
proof (induction n)
  case 0
  then show ?case using assms ring_initial by simp
next
  case (Suc n)
  then obtain block' h' where "foldl sha1_round (load_block M, h) [0..<n] = (block', h')" "ring M n block'" "length h' = 5"
    "registers n h' = foldl (fips_round M) (registers 0 h) [0..<n]" by blast
  with sha1_round_eq [of M n block' h'] show ?case by auto
qed

definition hash_of :: "sha1_ctx \<Rightarrow> hash" where
  "hash_of ctx = (ctx_h0 ctx, ctx_h1 ctx, ctx_h2 ctx, ctx_h3 ctx, ctx_h4 ctx)"

lemma sha1_transform_eq:
  assumes "length M = 64"
  shows "hash_of (sha1_transform ctx M) = fips_compress (hash_of ctx) M"
proof -
  let ?h = "[ctx_h0 ctx, ctx_h1 ctx, ctx_h2 ctx, ctx_h3 ctx, ctx_h4 ctx]"
  from sha1_rounds_eq [OF assms, of ?h 80] obtain block' h'
    where F: "foldl sha1_round (load_block M, ?h) [0..<80] = (block', h')"
      and R: "registers 80 h' = foldl (fips_round M) (registers 0 ?h) [0..<80]" by auto
  have "reg 80 0 = 0" "reg 80 1 = 1" "reg 80 2 = 2" "reg 80 3 = 3" "reg 80 4 = 4"
    "reg 0 0 = 0" "reg 0 1 = 1" "reg 0 2 = 2" "reg 0 3 = 3" "reg 0 4 = 4"
    by (simp_all add: reg_def)
  note reg = this
  have R80: "registers 80 h' = (h' ! 0, h' ! 1, h' ! 2, h' ! 3, h' ! 4)" by (simp only: registers_def reg)
  have R0: "registers 0 ?h = hash_of ctx"
    unfolding registers_def reg hash_of_def by (simp add: eval_nat_numeral)
  have "foldl (fips_round M) (hash_of ctx) [0..<80] = (h' ! 0, h' ! 1, h' ! 2, h' ! 3, h' ! 4)"
    using R unfolding R80 R0 by (rule sym)
  then show ?thesis
    unfolding sha1_transform_def fips_compress_def Let_def F by (simp only: snd_conv hash_of_def prod.case) simp
qed

lemma sha1_transform_frame [simp]:
  "ctx_buffer (sha1_transform ctx M) = ctx_buffer ctx" "ctx_n0 (sha1_transform ctx M) = ctx_n0 ctx"
  "ctx_n1 (sha1_transform ctx M) = ctx_n1 ctx"
  by (simp_all add: sha1_transform_def Let_def)

section \<open>Buffering\<close>

lemma fips_blocks_short: "length M < 64 \<Longrightarrow> fips_blocks s M = s"
  by (subst fips_blocks.simps) simp

lemma fips_blocks_step: "64 \<le> length M \<Longrightarrow> fips_blocks s M = fips_blocks (fips_compress s (take 64 M)) (drop 64 M)"
  by (subst fips_blocks.simps) simp

lemma fips_blocks_append:
  "length M mod 64 = 0 \<Longrightarrow> fips_blocks s (M @ N) = fips_blocks (fips_blocks s M) N"
proof (induction s M rule: fips_blocks.induct)
  case (1 s M)
  show ?case
  proof (cases "length M < 64")
    case True
    then have "M = []" using "1.prems" by simp
    then show ?thesis by (simp add: fips_blocks_short)
  next
    case False
    then have "length (drop 64 M) mod 64 = 0" using "1.prems" by (simp add: le_mod_geq [symmetric])
    with "1.IH" False show ?thesis
      using fips_blocks_step [of "M @ N" s] fips_blocks_step [of M s] by simp
  qed
qed

text \<open>What a context has seen: the whole blocks are hashed, the rest is in the buffer, the bits are counted.\<close>

definition tail :: "byte list \<Rightarrow> byte list" where
  "tail msg = drop (64 * (length msg div 64)) msg"

definition absorbed :: "sha1_ctx \<Rightarrow> byte list \<Rightarrow> bool" where
  "absorbed ctx msg \<longleftrightarrow> length (ctx_buffer ctx) = 64 \<and>
     hash_of ctx = fips_blocks fips_init msg \<and>
     take (length msg mod 64) (ctx_buffer ctx) = tail msg \<and>
     unat (ctx_n0 ctx) = 8 * length msg mod 2 ^ 32 \<and>
     unat (ctx_n1 ctx) = 8 * length msg div 2 ^ 32 mod 2 ^ 32"

lemma length_tail: "length (tail msg) = length msg mod 64"
  by (simp add: tail_def minus_mult_div_eq_mod)

lemma fips_blocks_tail: "fips_blocks s (msg @ data) = fips_blocks (fips_blocks s msg) (tail msg @ data)"
proof -
  let ?F = "take (64 * (length msg div 64)) msg"
  have F: "length ?F mod 64 = 0" by (simp add: min_absorb2)
  have msg: "msg = ?F @ tail msg" by (simp add: tail_def)
  have "fips_blocks s msg = fips_blocks (fips_blocks s ?F) (tail msg)"
    by (subst msg) (rule fips_blocks_append [OF F])
  then have "fips_blocks s msg = fips_blocks s ?F"
    using length_tail [of msg] by (simp add: fips_blocks_short)
  moreover have "fips_blocks s (msg @ data) = fips_blocks (fips_blocks s ?F) (tail msg @ data)"
    using fips_blocks_append [OF F, of s "tail msg @ data"] msg by (metis append.assoc)
  ultimately show ?thesis by simp
qed

lemma tail_append: "tail (msg @ data) = tail (tail msg @ data)"
proof -
  define q where "q = 64 * (length msg div 64)"
  have q: "q mod 64 = 0" "q \<le> length msg" by (simp_all add: q_def)
  have len: "length (tail msg @ data) = length (msg @ data) - q" by (simp add: tail_def q_def)
  have "64 * ((length (msg @ data) - q) div 64) + q = 64 * (length (msg @ data) div 64)"
  proof -
    define r where "r = length (msg @ data) - q"
    have "length (msg @ data) = r + 64 * (length msg div 64)" using q(2) by (simp add: q_def r_def)
    then have "length (msg @ data) div 64 = r div 64 + length msg div 64" by simp
    then show ?thesis by (simp only: r_def [symmetric] q_def) simp
  qed
  note eq = this
  have dq: "tail msg @ data = drop q (msg @ data)" using q(2) by (simp add: tail_def q_def)
  show ?thesis
    unfolding tail_def [of "msg @ data"] tail_def [of "tail msg @ data"] len by (simp only: dq drop_drop eq)
qed

lemma tail_split:
  assumes "length T + j = 64" "j \<le> length data"
  shows "tail (T @ data) = drop (j + 64 * ((length data - j) div 64)) data"
    and "length (T @ data) mod 64 = (length data - j) mod 64"
proof -
  define r where "r = length data - j"
  have len: "length (T @ data) = r + 64" using assms by (simp add: r_def)
  have "(r + 64) div 64 = r div 64 + 1" by simp
  then have q: "64 * ((r + 64) div 64) = length T + (j + 64 * (r div 64))" using assms(1) by linarith
  show "tail (T @ data) = drop (j + 64 * ((length data - j) div 64)) data"
    unfolding tail_def len q r_def [symmetric] by simp
  show "length (T @ data) mod 64 = (length data - j) mod 64"
    unfolding len r_def [symmetric] by simp
qed

lemma tail_short: "length msg < 64 \<Longrightarrow> tail msg = msg"
  by (simp add: tail_def)

lemma sha1_init_absorbed: "length (ctx_buffer ctx) = 64 \<Longrightarrow> absorbed (sha1_init ctx) []"
  by (simp add: absorbed_def sha1_init_def hash_of_def fips_init_def fips_blocks_short tail_def)

text \<open>The two words of the bit count.\<close>

lemma unat_drop_and: "unat (drop_bit 3 (w :: u32) AND 0x3f) = unat w div 8 mod 64"
proof -
  have "drop_bit 3 w AND 0x3f = take_bit 6 (drop_bit 3 w)" by (simp add: take_bit_eq_mask mask_eq_exp_minus_1)
  note mask = this
  show ?thesis
    unfolding mask unsigned_take_bit_eq unsigned_drop_bit_eq
    using unsigned_less [of w, where 'a = nat] by (simp add: take_bit_eq_mod drop_bit_eq_div)
qed

lemma position: "8 * L mod 2 ^ 32 div 8 mod 64 = (L :: nat) mod 64"
proof -
  have "8 * L mod 2 ^ 32 = 8 * (L mod 2 ^ 29)"
    using mult_mod_right [of 8 L "2 ^ 29"] by simp
  then show ?thesis by (simp add: mod_mod_cancel)
qed

lemma count_low: "unat (n0 :: u32) = N mod 2 ^ 32 \<Longrightarrow> D < 2 ^ 32 \<Longrightarrow>
  unat (n0 + push_bit 3 (of_nat D)) = (N + 8 * D) mod 2 ^ 32"
  by (simp add: unat_word_ariths unsigned_push_bit_eq unsigned_of_nat take_bit_eq_mod push_bit_eq_mult mod_simps)
    (simp add: ac_simps)

lemma count_carry: "unat (n0 :: u32) = N mod 2 ^ 32 \<Longrightarrow> D < 2 ^ 32 \<Longrightarrow>
  (n0 + push_bit 3 (of_nat D) < n0) \<longleftrightarrow> 2 ^ 32 \<le> N mod 2 ^ 32 + 8 * D mod 2 ^ 32"
proof -
  assume n0: "unat n0 = N mod 2 ^ 32" and D: "D < 2 ^ 32"
  define a b where "a = N mod 2 ^ 32" and "b = 8 * D mod 2 ^ 32"
  have ab: "a < 2 ^ 32" "b < 2 ^ 32" by (simp_all add: a_def b_def)
  have "(N + 8 * D) mod 2 ^ 32 = (a + b) mod 2 ^ 32" by (simp add: a_def b_def mod_simps)
  also have "\<dots> = (if a + b < 2 ^ 32 then a + b else a + b - 2 ^ 32)"
    using ab by (simp add: mod_if le_mod_geq)
  finally have "unat (n0 + push_bit 3 (of_nat D)) = (if a + b < 2 ^ 32 then a + b else a + b - 2 ^ 32)"
    using count_low [OF n0 D] by simp
  then show ?thesis
    using ab n0 by (simp only: word_less_nat_alt a_def [symmetric] b_def [symmetric]) (auto split: if_splits)
qed

lemma count_high:
  assumes "unat (n0 :: u32) = N mod 2 ^ 32" "unat (n1 :: u32) = N div 2 ^ 32 mod 2 ^ 32" "D < 2 ^ 32"
  shows "unat ((if n0 + push_bit 3 (of_nat D) < n0 then n1 + 1 else n1) + drop_bit 29 (of_nat D)) =
    (N + 8 * D) div 2 ^ 32 mod 2 ^ 32"
proof -
  define c :: nat where "c = (if n0 + push_bit 3 (of_nat D) < n0 then 1 else 0)"
  have "(N mod 2 ^ 32 + 8 * D mod 2 ^ 32) div 2 ^ 32 = c"
  proof -
    have "N mod 2 ^ 32 + 8 * D mod 2 ^ 32 < 2 * 2 ^ 32"
      using mod_less_divisor [of "2 ^ 32" N] mod_less_divisor [of "2 ^ 32" "8 * D"] by simp
    then show ?thesis
      unfolding c_def count_carry [OF assms(1,3)] by (auto simp: div_if)
  qed
  note carry = this
  have hi: "(N + 8 * D) div 2 ^ 32 = N div 2 ^ 32 + 8 * D div 2 ^ 32 + c"
    using div_add1_eq [of N "8 * D" "2 ^ 32"] by (simp only: carry)
  have "8 * D div 2 ^ 32 = D div 2 ^ 29"
    using div_mult_mult1 [of 8 D "2 ^ 29"] by simp
  then have d: "unat (drop_bit 29 (of_nat D :: u32)) = 8 * D div 2 ^ 32"
    using assms(3) unfolding unsigned_drop_bit_eq by (simp add: drop_bit_eq_div unsigned_of_nat take_bit_nat_eq_self)
  have "(if n0 + push_bit 3 (of_nat D) < n0 then n1 + 1 else n1) = n1 + of_nat c" by (simp add: c_def)
  then have "unat ((if n0 + push_bit 3 (of_nat D) < n0 then n1 + 1 else n1) + drop_bit 29 (of_nat D)) =
      (unat n1 + c + 8 * D div 2 ^ 32) mod 2 ^ 32"
    by (simp only: unat_word_ariths d) (simp add: mod_simps unsigned_of_nat take_bit_eq_mod c_def)
  also have "\<dots> = (N + 8 * D) div 2 ^ 32 mod 2 ^ 32"
    unfolding hi assms(2) by (simp only: add.assoc mod_add_left_eq) (simp only: add.commute)
  finally show ?thesis .
qed

lemma sha1_blocks_eq:
  assumes "length data < 2 ^ 32 - 64" "j \<le> length data"
  shows "\<exists>ctx'. sha1_blocks ctx data (of_nat j) (of_nat (length data)) =
      Some (ctx', of_nat (j + 64 * ((length data - j) div 64))) \<and>
    hash_of ctx' = fips_blocks (hash_of ctx) (drop j data) \<and>
    ctx_buffer ctx' = ctx_buffer ctx \<and> ctx_n0 ctx' = ctx_n0 ctx \<and> ctx_n1 ctx' = ctx_n1 ctx"
  using assms(2)
proof (induction "length data - j" arbitrary: j ctx rule: less_induct)
  case less
  have u: "unat (of_nat k :: u32) = k" if "k \<le> length data + 64" for k
    using that assms(1) by (simp add: unsigned_of_nat take_bit_nat_eq_self)
  have "(of_nat j + 64 - 1 :: u32) = of_nat (j + 63)" by simp
  moreover have "(of_nat (j + 63) < (of_nat (length data) :: u32)) \<longleftrightarrow> j + 63 < length data"
    using u [of "j + 63"] u [of "length data"] less.prems by (simp only: word_less_nat_alt)
  ultimately have cond: "((of_nat j :: u32) + 64 - 1 < of_nat (length data)) \<longleftrightarrow> j + 63 < length data" by (simp only:)
  show ?case
  proof (cases "j + 63 < length data")
    case True
    let ?M = "take 64 (drop j data)"
    have j64: "(of_nat j + 64 :: u32) = of_nat (j + 64)" by simp
    have "unat (of_nat j :: u32) = j" using less.prems by (intro u) simp
    moreover have "(j + 63 < length data) = True" "(j + 64 \<le> length data) = True" using True by simp_all
    ultimately have step: "sha1_blocks ctx data (of_nat j) (of_nat (length data)) =
        sha1_blocks (sha1_transform ctx ?M) data (of_nat (j + 64)) (of_nat (length data))"
      by (simp only: sha1_blocks.simps [of ctx data "of_nat j" "of_nat (length data)"] cond if_True) (simp only: j64)
    have "length data - (j + 64) < length data - j" "j + 64 \<le> length data" using True by auto
    from less.hyps [OF this, of "sha1_transform ctx ?M"]
    obtain ctx' where c: "sha1_blocks (sha1_transform ctx ?M) data (of_nat (j + 64)) (of_nat (length data)) =
        Some (ctx', of_nat (j + 64 + 64 * ((length data - (j + 64)) div 64)))"
      "hash_of ctx' = fips_blocks (hash_of (sha1_transform ctx ?M)) (drop (j + 64) data)"
      "ctx_buffer ctx' = ctx_buffer ctx \<and> ctx_n0 ctx' = ctx_n0 ctx \<and> ctx_n1 ctx' = ctx_n1 ctx" by auto
    have "(length data - j) div 64 = Suc ((length data - (j + 64)) div 64)"
      using True by (simp add: le_div_geq)
    then have "j + 64 + 64 * ((length data - (j + 64)) div 64) = j + 64 * ((length data - j) div 64)" by simp
    moreover have "fips_blocks (hash_of ctx) (drop j data) = fips_blocks (hash_of (sha1_transform ctx ?M)) (drop (j + 64) data)"
      using True fips_blocks_step [of "drop j data" "hash_of ctx"] sha1_transform_eq [of ?M ctx]
      by (simp add: drop_drop add.commute)
    ultimately show ?thesis using c by (simp only: step) auto
  next
    case False
    then show ?thesis
      using cond less.prems by (subst sha1_blocks.simps) (simp add: fips_blocks_short)
  qed
qed

lemma overwrite_prefix:
  "i + length ys \<le> length xs \<Longrightarrow> take (i + length ys) (overwrite xs i ys) = take i xs @ ys"
  by (simp add: overwrite_def)

text \<open>The first half of \<open>sha1_update\<close>: the counters and the position in the buffer.\<close>

lemma sha1_update_unfold:
  assumes abs: "absorbed ctx msg" and D: "length data < 2 ^ 32 - 64"
  defines "i \<equiv> length msg mod 64"
  obtains ctx1 where "hash_of ctx1 = hash_of ctx" "ctx_buffer ctx1 = ctx_buffer ctx"
    "unat (ctx_n0 ctx1) = 8 * length (msg @ data) mod 2 ^ 32"
    "unat (ctx_n1 ctx1) = 8 * length (msg @ data) div 2 ^ 32 mod 2 ^ 32"
    "sha1_update ctx data (of_nat (length data)) =
      (if i + length data < 64 then buffer_copy ctx1 i data 0 (length data)
       else case buffer_copy ctx1 i data 0 (64 - i) of
              None \<Rightarrow> None
            | Some ctx2 \<Rightarrow>
                (case sha1_blocks (sha1_transform ctx2 (ctx_buffer ctx2)) data (of_nat (64 - i)) (of_nat (length data)) of
                   None \<Rightarrow> None
                 | Some (ctx3, j') \<Rightarrow> buffer_copy ctx3 0 data (unat j') (unat (of_nat (length data) - j'))))"
proof
  let ?n0 = "ctx_n0 ctx" and ?D = "of_nat (length data) :: u32"
  define n1 where "n1 = (if ?n0 + push_bit 3 ?D < ?n0 then ctx_n1 ctx + 1 else ctx_n1 ctx) + drop_bit 29 ?D"
  define ctx1 where "ctx1 = ctx\<lparr>ctx_n0 := ?n0 + push_bit 3 ?D, ctx_n1 := n1\<rparr>"
  have n: "unat ?n0 = 8 * length msg mod 2 ^ 32" "unat (ctx_n1 ctx) = 8 * length msg div 2 ^ 32 mod 2 ^ 32"
    using abs by (simp_all add: absorbed_def)
  have D': "length data < 2 ^ 32" using D by simp
  show "hash_of ctx1 = hash_of ctx" "ctx_buffer ctx1 = ctx_buffer ctx" by (simp_all add: ctx1_def hash_of_def)
  show "unat (ctx_n0 ctx1) = 8 * length (msg @ data) mod 2 ^ 32"
    using count_low [OF n(1) D'] by (simp add: ctx1_def distrib_left)
  show "unat (ctx_n1 ctx1) = 8 * length (msg @ data) div 2 ^ 32 mod 2 ^ 32"
    using count_high [OF n D'] by (simp add: ctx1_def n1_def distrib_left)
  have i64: "i < 64" by (simp add: i_def)
  have pos: "unat (drop_bit 3 ?n0 AND 0x3f) = i" by (simp only: unat_drop_and n(1) position i_def)
  have ip: "drop_bit 3 ?n0 AND 0x3f = (of_nat i :: u32)" unfolding pos [symmetric] by simp
  have u: "unat (of_nat k :: u32) = k" if "k \<le> length data + 64" for k
    using that D by (simp add: unsigned_of_nat take_bit_nat_eq_self)
  have ui: "unat (of_nat i :: u32) = i" "unat ?D = length data" using i64 by (simp_all only: u)
  have cond: "(of_nat i + ?D < 64) \<longleftrightarrow> i + length data < 64"
    using u [of "i + length data"] i64 by (simp add: word_less_nat_alt)
  have j: "64 - of_nat i = (of_nat (64 - i) :: u32)" using i64 by (simp add: of_nat_diff)
  have uj: "unat (of_nat (64 - i) :: u32) = 64 - i" by (rule u) simp
  show "sha1_update ctx data ?D =
      (if i + length data < 64 then buffer_copy ctx1 i data 0 (length data)
       else case buffer_copy ctx1 i data 0 (64 - i) of
              None \<Rightarrow> None
            | Some ctx2 \<Rightarrow>
                (case sha1_blocks (sha1_transform ctx2 (ctx_buffer ctx2)) data (of_nat (64 - i)) ?D of
                   None \<Rightarrow> None
                 | Some (ctx3, j') \<Rightarrow> buffer_copy ctx3 0 data (unat j') (unat (?D - j'))))"
    by (simp only: sha1_update_def Let_def ip ui cond j uj ctx1_def n1_def)
qed

definition counted :: "sha1_ctx \<Rightarrow> byte list \<Rightarrow> byte list \<Rightarrow> sha1_ctx \<Rightarrow> bool" where
  "counted ctx msg data ctx1 \<longleftrightarrow> absorbed ctx msg \<and> hash_of ctx1 = hash_of ctx \<and> ctx_buffer ctx1 = ctx_buffer ctx \<and>
     unat (ctx_n0 ctx1) = 8 * length (msg @ data) mod 2 ^ 32 \<and>
     unat (ctx_n1 ctx1) = 8 * length (msg @ data) div 2 ^ 32 mod 2 ^ 32"

lemma countedD:
  assumes "counted ctx msg data ctx1"
  shows "hash_of ctx1 = hash_of ctx" "ctx_buffer ctx1 = ctx_buffer ctx"
    "unat (ctx_n0 ctx1) = 8 * length (msg @ data) mod 2 ^ 32"
    "unat (ctx_n1 ctx1) = 8 * length (msg @ data) div 2 ^ 32 mod 2 ^ 32"
    "length (ctx_buffer ctx) = 64" "take (length msg mod 64) (ctx_buffer ctx) = tail msg" "hash_of ctx = fips_blocks fips_init msg"
  using assms by (simp_all add: counted_def absorbed_def)

lemma absorb_short:
  assumes c: "counted ctx msg data ctx1" and True: "length msg mod 64 + length data < 64"
  defines "i \<equiv> length msg mod 64"
  shows "\<exists>ctx'. buffer_copy ctx1 i data 0 (length data) = Some ctx' \<and> absorbed ctx' (msg @ data)"
proof -
  note c1 = countedD(1-4) [OF c] and buf = countedD(5,6) [OF c, folded i_def] and hash = countedD(7) [OF c]
  note True = True [folded i_def]
  have tl: "length (tail msg) = i" by (simp add: length_tail i_def)
  let ?ctx' = "ctx1\<lparr>ctx_buffer := overwrite (ctx_buffer ctx) i data\<rparr>"
  have "buffer_copy ctx1 i data 0 (length data) = Some ?ctx'"
    using True buf c1(2) by (simp add: buffer_copy_def)
  moreover have "length (msg @ data) mod 64 = i + length data"
    using True by (simp add: i_def mod_add_left_eq [symmetric, of "length msg"])
  moreover have "take (i + length data) (overwrite (ctx_buffer ctx) i data) = tail (msg @ data)"
    using True buf tl by (simp add: overwrite_prefix tail_append [of msg] tail_short)
  moreover have "hash_of ?ctx' = fips_blocks fips_init (msg @ data)"
    using True tl c1(1) hash by (simp add: fips_blocks_tail [of _ msg] fips_blocks_short hash_of_def)
  ultimately show ?thesis
    using c1 True buf by (simp add: absorbed_def)
qed

lemma absorb_blocks:
  assumes c: "counted ctx msg data ctx1" and D: "length data < 2 ^ 32 - 64" and False: "\<not> length msg mod 64 + length data < 64"
  defines "i \<equiv> length msg mod 64"
  shows "\<exists>ctx'. (case buffer_copy ctx1 i data 0 (64 - i) of
         None \<Rightarrow> None
       | Some ctx2 \<Rightarrow>
           (case sha1_blocks (sha1_transform ctx2 (ctx_buffer ctx2)) data (of_nat (64 - i)) (of_nat (length data)) of
              None \<Rightarrow> None
            | Some (ctx3, j') \<Rightarrow> buffer_copy ctx3 0 data (unat j') (unat (of_nat (length data) - j')))) = Some ctx' \<and> absorbed ctx' (msg @ data)"
    (is "\<exists>ctx'. ?up = _ \<and> _")
proof -
  note c1 = countedD(1-4) [OF c] and buf = countedD(5,6) [OF c, folded i_def] and hash = countedD(7) [OF c]
  note False = False [folded i_def]
  have i64: "i < 64" by (simp add: i_def)
  have tl: "length (tail msg) = i" by (simp add: length_tail i_def)
  define j where "j = 64 - i"
  have j: "j \<le> length data" "i + j = 64" using False i64 by (simp_all add: j_def)
  let ?B = "tail msg @ take j data"
  define ctx2 where "ctx2 = ctx1\<lparr>ctx_buffer := overwrite (ctx_buffer ctx) i (take j data)\<rparr>"
  have c2: "buffer_copy ctx1 i data 0 (64 - i) = Some ctx2"
    using j buf c1(2) by (simp add: buffer_copy_def j_def ctx2_def)
  have B: "ctx_buffer ctx2 = ?B"
    using overwrite_prefix [of i "take j data" "ctx_buffer ctx"] j buf by (simp add: ctx2_def)
  have c2h: "hash_of ctx2 = hash_of ctx" using c1(1) by (simp add: ctx2_def hash_of_def)
  have lenB: "length ?B = 64" using j tl by simp
  let ?t = "sha1_transform ctx2 ?B"
  define j' where "j' = j + 64 * ((length data - j) div 64)"
  have j': "j' \<le> length data" by (simp add: j'_def) (metis j(1) le_add_diff_inverse nat_add_left_cancel_le times_div_less_eq_dividend)
  from sha1_blocks_eq [OF D j(1), of ?t] obtain ctx3 where
    c3: "sha1_blocks ?t data (of_nat j) (of_nat (length data)) = Some (ctx3, of_nat j')"
    "hash_of ctx3 = fips_blocks (hash_of ?t) (drop j data)"
    "ctx_buffer ctx3 = ?B" "ctx_n0 ctx3 = ctx_n0 ctx1" "ctx_n1 ctx3 = ctx_n1 ctx1"
    unfolding j'_def using B by (auto simp: ctx2_def)
  have rest: "length data - j' = (length data - j) mod 64"
    using j(1) by (simp add: j'_def minus_mult_div_eq_mod flip: diff_diff_left)
  have "unat (of_nat (length data) - of_nat j' :: u32) = length data - j'" "unat (of_nat j' :: u32) = j'"
    using D j' by (simp_all add: unsigned_of_nat take_bit_nat_eq_self flip: of_nat_diff)
  then have "?up = buffer_copy ctx3 0 data j' (length data - j')"
    using c3(1) unfolding c2 option.case B j_def by simp
  moreover have "length data - j' < 64" unfolding rest by simp
  ultimately have up': "?up =
      Some (ctx3\<lparr>ctx_buffer := overwrite ?B 0 (drop j' data)\<rparr>)" (is "_ = Some ?ctx'")
    using c3(3) lenB j' by (simp add: buffer_copy_def)
  have "tail (tail msg @ data) = drop j' data" unfolding j'_def using tl j by (intro tail_split) simp_all
  moreover have "length (tail msg @ data) mod 64 = length data - j'"
    unfolding rest using tl j by (intro tail_split) simp_all
  ultimately have tl': "tail (msg @ data) = drop j' data" "length (msg @ data) mod 64 = length data - j'"
    using tail_append [of msg data] length_tail [of "msg @ data"] length_tail [of "tail msg @ data"] by simp_all
  have "take 64 (tail msg @ data) = ?B" "drop 64 (tail msg @ data) = drop j data" using tl j by (simp_all add: j_def)
  then have "fips_blocks fips_init (msg @ data) = hash_of ctx3"
    using fips_blocks_step [of "tail msg @ data" "hash_of ctx"] sha1_transform_eq [OF lenB, of ctx2] c1(1) tl False
    by (simp add: fips_blocks_tail [of _ msg] hash [symmetric] c3(2) c2h)
  moreover have "hash_of ?ctx' = hash_of ctx3" by (simp add: hash_of_def)
  moreover have "take (length data - j') (overwrite ?B 0 (drop j' data)) = drop j' data"
    using overwrite_prefix [of 0 "drop j' data" ?B] lenB \<open>length data - j' < 64\<close> by simp
  moreover have "length (overwrite ?B 0 (drop j' data)) = 64"
    using lenB \<open>length data - j' < 64\<close> length_overwrite [of 0 "drop j' data" ?B] by simp
  ultimately have "absorbed ?ctx' (msg @ data)"
    unfolding absorbed_def tl' using c1(3,4) c3(4,5) by simp
  with up' show ?thesis by blast
qed

lemma sha1_update_absorbs:
  assumes abs: "absorbed ctx msg" and D: "length data < 2 ^ 32 - 64"
  shows "\<exists>ctx'. sha1_update ctx data (of_nat (length data)) = Some ctx' \<and> absorbed ctx' (msg @ data)"
proof -
  from sha1_update_unfold [OF abs D] obtain ctx1 where c: "hash_of ctx1 = hash_of ctx" "ctx_buffer ctx1 = ctx_buffer ctx"
    "unat (ctx_n0 ctx1) = 8 * length (msg @ data) mod 2 ^ 32"
    "unat (ctx_n1 ctx1) = 8 * length (msg @ data) div 2 ^ 32 mod 2 ^ 32"
    and up: "sha1_update ctx data (of_nat (length data)) =
      (let i = length msg mod 64 in if i + length data < 64 then buffer_copy ctx1 i data 0 (length data)
       else case buffer_copy ctx1 i data 0 (64 - i) of
           None \<Rightarrow> None
         | Some ctx2 \<Rightarrow>
             (case sha1_blocks (sha1_transform ctx2 (ctx_buffer ctx2)) data (of_nat (64 - i)) (of_nat (length data)) of
                None \<Rightarrow> None
              | Some (ctx3, j') \<Rightarrow> buffer_copy ctx3 0 data (unat j') (unat (of_nat (length data) - j'))))"
    unfolding Let_def by blast
  have "counted ctx msg data ctx1" using abs c by (simp add: counted_def)
  then show ?thesis
    using absorb_short absorb_blocks [OF _ D] unfolding up Let_def
    by (cases "length msg mod 64 + length data < 64") simp_all
qed

section \<open>Finalisation\<close>

lemma pad_condition:
  assumes "absorbed ctx msg"
  shows "ctx_n0 ctx AND 0x1f8 = 0x1c0 \<longleftrightarrow> length msg mod 64 = 56"
proof -
  let ?n = "ctx_n0 ctx"
  have masks: "(0x1f8 :: u32) = push_bit 3 (mask 6)" "(0x3f :: u32) = mask 6"
    by (simp_all add: mask_eq_exp_minus_1 push_bit_eq_mult)
  have "?n AND 0x1f8 = push_bit 3 (drop_bit 3 ?n AND 0x3f)" "drop_bit 3 ?n AND 0x3f = drop_bit 3 (?n AND 0x1f8)"
    unfolding masks by (rule bit_eqI; auto simp: bit_simps)+
  moreover have "push_bit 3 56 = (0x1c0 :: u32)" "drop_bit 3 (0x1c0 :: u32) = 56" by simp_all
  ultimately have "?n AND 0x1f8 = 0x1c0 \<longleftrightarrow> drop_bit 3 ?n AND 0x3f = 56" by metis
  also have "\<dots> \<longleftrightarrow> unat (drop_bit 3 ?n AND 0x3f) = unat (56 :: u32)" by (simp only: word_unat_eq_iff)
  also have "unat (drop_bit 3 ?n AND 0x3f) = length msg mod 64"
    using assms unfolding unat_drop_and absorbed_def by (simp only: position)
  finally show ?thesis by simp
qed

lemma pad_length: "m < 64 \<Longrightarrow> (120 - m) mod 64 = (if m \<le> 56 then 56 - m else 120 - m :: nat)"
proof -
  assume m: "m < 64"
  show ?thesis
  proof (cases "m \<le> 56")
    case True
    then have "120 - m = 56 - m + 64" by simp
    then have "(120 - m) mod 64 = (56 - m) mod 64" by (simp only: mod_add_self2)
    with True show ?thesis by simp
  qed (use m in simp)
qed

lemma sha1_pad_eq:
  assumes "absorbed ctx msg"
  shows "\<exists>ctx'. sha1_pad ctx = Some ctx' \<and> absorbed ctx' (msg @ replicate ((120 - length msg mod 64) mod 64) 0)"
  using assms
proof (induction "(120 - length msg mod 64) mod 64" arbitrary: ctx msg)
  case 0
  then have "length msg mod 64 = 56" using pad_length [of "length msg mod 64"] by (simp split: if_splits)
  with pad_condition [OF 0(2)] 0 show ?case by (subst sha1_pad.simps) simp
next
  case (Suc k)
  have ne: "length msg mod 64 \<noteq> 56" using Suc(2) pad_length [of 56] by auto
  obtain ctx1 where up: "sha1_update ctx [0] 1 = Some ctx1" and abs: "absorbed ctx1 (msg @ [0])"
    using sha1_update_absorbs [OF Suc(3), of "[0]"] by auto
  define m where "m = length msg mod 64"
  have m: "m < 64" "m \<noteq> 56" using ne by (simp_all add: m_def)
  have "length (msg @ [0]) mod 64 = (if m = 63 then 0 else Suc m)" by (simp add: m_def mod_Suc)
  note m' = this
  have "Suc k = (if m \<le> 56 then 56 - m else 120 - m)" using Suc(2) pad_length [OF m(1)] by (simp add: m_def)
  note Suc_k = this
  have k: "k = (120 - length (msg @ [0]) mod 64) mod 64"
  proof (cases "m = 63")
    case True
    with Suc_k show ?thesis unfolding m' by simp
  next
    case False
    then have "(120 - Suc m) mod 64 = (if Suc m \<le> 56 then 56 - Suc m else 120 - Suc m)"
      using m(1) by (intro pad_length) linarith
    with False show ?thesis unfolding m' using Suc_k m by (simp only: if_False) (auto split: if_splits)
  qed
  from Suc(1) [OF k abs] obtain ctx' where
    "sha1_pad ctx1 = Some ctx'" "absorbed ctx' ((msg @ [0]) @ replicate k 0)"
    by (auto simp only: k [symmetric])
  moreover have "sha1_pad ctx = sha1_pad ctx1"
    using pad_condition [OF Suc(3)] ne up by (subst sha1_pad.simps) simp
  ultimately show ?case by (auto simp: Suc(2) [symmetric])
qed

text \<open>The eight bytes of the bit count and the twenty of the digest.\<close>

lemma ucast_low_byte: "(ucast (x AND 0xff :: u32) :: byte) = ucast x"
proof (rule bit_eqI)
  fix k assume "possible_bit TYPE(8 word) k"
  then have "k < 8" by simp
  moreover have m: "(0xff :: u32) = mask 8" by (simp add: mask_eq_exp_minus_1)
  ultimately show "bit (ucast (x AND 0xff :: u32) :: byte) k = bit (ucast x :: byte) k"
    unfolding m by (simp add: bit_simps)
qed

lemma upt_4: "[0..<4] = [0, 1, 2, 3 :: nat]" "[4..<8] = [4, 5, 6, 7 :: nat]"
  by code_simp+

lemma shifted_bytes: "map (\<lambda>i. ucast (drop_bit ((3 - i mod 4) * 8) (w :: u32) AND 0xff) :: byte) [0..<4] = rev (le_bytes 4 w)"
  by (simp add: le_bytes_def upt_4 ucast_low_byte)

lemma shifted_bytes': "map (\<lambda>i. ucast (drop_bit ((3 - i mod 4) * 8) (w :: u32) AND 0xff) :: byte) [4..<8] = rev (le_bytes 4 w)"
  by (simp add: le_bytes_def upt_4 ucast_low_byte)

lemma le_bytes_halves: "le_bytes 8 (N :: u64) = le_bytes 4 (ucast N :: u32) @ le_bytes 4 (ucast (drop_bit 32 N) :: u32)"
proof (rule nth_equalityI)
  fix k assume "k < length (le_bytes 8 N)"
  then have k: "k < 8" by simp
  show "le_bytes 8 N ! k = (le_bytes 4 (ucast N :: u32) @ le_bytes 4 (ucast (drop_bit 32 N) :: u32)) ! k"
  proof (cases "k < 4")
    case True
    then have "ucast (drop_bit (8 * k) (ucast N :: u32)) = (ucast (drop_bit (8 * k) N) :: byte)"
      by (intro bit_eqI) (auto simp: bit_simps)
    with True show ?thesis by (simp add: nth_append nth_le_bytes)
  next
    case False
    define m where "m = k - 4"
    with False k have m: "k = m + 4" "m < 4" by simp_all
    then have "ucast (drop_bit (8 * m) (ucast (drop_bit 32 N) :: u32)) = (ucast (drop_bit (8 * k) N) :: byte)"
      by (intro bit_eqI) (auto simp: bit_simps ac_simps)
    with m show ?thesis by (simp add: nth_append nth_le_bytes)
  qed
qed simp

lemma count_bytes:
  assumes "absorbed ctx msg" "8 * length msg < 2 ^ 64"
  shows "map (sha1_compute_final (ctx_n1 ctx)) [0..<4] @ map (sha1_compute_final (ctx_n0 ctx)) [4..<8] =
    rev (le_bytes 8 (of_nat (8 * length msg) :: u64))"
proof -
  let ?N = "of_nat (8 * length msg) :: u64"
  have n0: "ctx_n0 ctx = ucast ?N" and n1: "ctx_n1 ctx = ucast (drop_bit 32 ?N)"
  proof -
    define N where "N = 8 * length msg"
    have n: "unat (ctx_n0 ctx) = N mod 2 ^ 32" "unat (ctx_n1 ctx) = N div 2 ^ 32 mod 2 ^ 32" "N < 2 ^ 64"
      using assms by (simp_all only: absorbed_def N_def)
    have u: "unat ?N = N" unfolding N_def [symmetric] using n(3)
      by (simp only: unsigned_of_nat) (simp add: take_bit_nat_eq_self)
    have "unat (ucast ?N :: u32) = unat (ctx_n0 ctx)" "unat (ucast (drop_bit 32 ?N) :: u32) = unat (ctx_n1 ctx)"
      unfolding unsigned_ucast_eq unsigned_drop_bit_eq u n(1,2) using n(3)
      by (simp_all add: take_bit_eq_mod drop_bit_eq_div)
    then show "ctx_n0 ctx = ucast ?N" "ctx_n1 ctx = ucast (drop_bit 32 ?N)" by (simp_all only: word_unat_eq_iff)
  qed
  have "le_bytes 8 ?N = le_bytes 4 (ctx_n0 ctx) @ le_bytes 4 (ctx_n1 ctx)"
    unfolding n0 n1 by (rule le_bytes_halves)
  then show ?thesis
    unfolding sha1_compute_final_def shifted_bytes shifted_bytes' by simp
qed

lemma digest_bytes: "map (sha1_compute_digest_byte ctx) [0..<20] = fips_digest (hash_of ctx)"
proof -
  have "[0..<20] = [0, 1, 2, 3, 4, 5, 6, 7, 8, 9, 10, 11, 12, 13, 14, 15, 16, 17, 18, 19 :: nat]" by code_simp
  then show ?thesis
    by (simp add: sha1_compute_digest_byte_def fips_digest_def hash_of_def le_bytes_def upt_4 ucast_low_byte)
qed

lemma sha1_final_eq:
  assumes "absorbed ctx msg" "8 * length msg < 2 ^ 64"
  shows "sha1_final ctx = Some (sha1 msg)"
proof -
  obtain ctx1 where c1: "sha1_update ctx [0x80] 1 = Some ctx1" "absorbed ctx1 (msg @ [0x80])"
    using sha1_update_absorbs [OF assms(1), of "[0x80]"] by auto
  from sha1_pad_eq [OF c1(2)] obtain ctx2 where c2: "sha1_pad ctx1 = Some ctx2"
    "absorbed ctx2 ((msg @ [0x80]) @ replicate ((120 - length (msg @ [0x80]) mod 64) mod 64) 0)" by blast
  let ?final = "rev (le_bytes 8 (of_nat (8 * length msg) :: u64))"
  obtain ctx3 where c3: "sha1_update ctx2 ?final 8 = Some ctx3"
    "absorbed ctx3 (((msg @ [0x80]) @ replicate ((120 - length (msg @ [0x80]) mod 64) mod 64) 0) @ ?final)"
    using sha1_update_absorbs [OF c2(2), of ?final] by auto
  have "(120 - length (msg @ [0x80]) mod 64) mod 64 = (119 - length msg mod 64) mod 64"
    by (cases "length msg mod 64 = 63") (simp_all add: mod_Suc)
  then have "absorbed ctx3 (fips_pad msg)" using c3(2) by (simp only: fips_pad_def append.assoc)
  then have "hash_of ctx3 = fips_blocks fips_init (fips_pad msg)" by (simp add: absorbed_def)
  then show ?thesis
    unfolding sha1_final_def Let_def count_bytes [OF assms] c1(1) option.case c2(1) c3(1) digest_bytes sha1_def by simp
qed

section \<open>The contract of an incremental digest\<close>

text \<open>
  What the cache relies on: a context that stands for the bytes seen so far; whatever the split of a
  message into updates, the digest is the one of the whole message.
\<close>

locale incremental_digest =
  fixes begin_digest :: "'c \<Rightarrow> 'c"
    and update :: "'c \<Rightarrow> byte list \<Rightarrow> u32 \<Rightarrow> 'c option"
    and finish :: "'c \<Rightarrow> byte list option"
    and seen :: "'c \<Rightarrow> byte list \<Rightarrow> bool"
    and fresh :: "'c \<Rightarrow> bool"
    and digest :: "byte list \<Rightarrow> byte list"
    and digest_size chunk_limit message_limit :: nat
  assumes init_seen: "fresh c \<Longrightarrow> seen (begin_digest c) []"
    and update_seen: "seen c msg \<Longrightarrow> length data < chunk_limit \<Longrightarrow>
      \<exists>c'. update c data (of_nat (length data)) = Some c' \<and> seen c' (msg @ data)"
    and finish_seen: "seen c msg \<Longrightarrow> length msg < message_limit \<Longrightarrow> finish c = Some (digest msg)"
    and digest_length: "length (digest msg) = digest_size"
begin

fun updates :: "'c \<Rightarrow> byte list list \<Rightarrow> 'c option" where
  "updates c [] = Some c"
| "updates c (data # rest) = Option.bind (update c data (of_nat (length data))) (\<lambda>c'. updates c' rest)"

lemma updates_seen:
  "seen c msg \<Longrightarrow> \<forall>data \<in> set chunks. length data < chunk_limit \<Longrightarrow>
     \<exists>c'. updates c chunks = Some c' \<and> seen c' (msg @ concat chunks)"
proof (induction chunks arbitrary: c msg)
  case (Cons data rest)
  then obtain c' where "update c data (of_nat (length data)) = Some c'" "seen c' (msg @ data)"
    using update_seen by fastforce
  with Cons.IH [of c' "msg @ data"] Cons.prems(2) show ?case by simp
qed simp

lemma digest_of_chunks:
  assumes "fresh c" "\<forall>data \<in> set chunks. length data < chunk_limit" "length (concat chunks) < message_limit"
  shows "Option.bind (updates (begin_digest c) chunks) finish = Some (digest (concat chunks))"
  using updates_seen [OF init_seen [OF assms(1)] assms(2)] finish_seen [OF _ assms(3)] by auto

lemma digest_of_message:
  assumes "fresh c" "length msg < chunk_limit" "length msg < message_limit"
  shows "\<exists>c'. update (begin_digest c) msg (of_nat (length msg)) = Some c' \<and> finish c' = Some (digest msg)"
  using update_seen [OF init_seen [OF assms(1)] assms(2)] finish_seen [OF _ assms(3)] by auto

end

lemma length_sha1: "length (sha1 msg) = 20"
  by (simp add: sha1_def fips_digest_def split: prod.split)

interpretation sha1_hash: incremental_digest sha1_init sha1_update sha1_final absorbed
    "\<lambda>ctx. length (ctx_buffer ctx) = 64" sha1 20 "2 ^ 32 - 64" "2 ^ 61"
proof unfold_locales
  fix c msg assume "absorbed c msg" "length msg < 2 ^ 61"
  then show "sha1_final c = Some (sha1 msg)" by (intro sha1_final_eq) simp_all
qed (simp_all only: sha1_init_absorbed sha1_update_absorbs length_sha1)

section \<open>Properties\<close>

text \<open>A client that feeds a message in pieces.\<close>

fun sha1_updates :: "sha1_ctx \<Rightarrow> byte list list \<Rightarrow> sha1_ctx option" where
  "sha1_updates ctx [] = Some ctx"
| "sha1_updates ctx (data # rest) =
     (case sha1_update ctx data (of_nat (length data)) of None \<Rightarrow> None | Some ctx' \<Rightarrow> sha1_updates ctx' rest)"

lemma sha1_updates_eq: "sha1_updates ctx chunks = sha1_hash.updates ctx chunks"
  by (induction ctx chunks rule: sha1_updates.induct) (auto split: option.split bind_split)

text \<open>
  C11: the implementation computes SHA-1 as FIPS 180-4 defines it, for every message of less than
  \<open>2\<^sup>6\<^sup>1\<close> bytes and every way of feeding it in pieces of less than \<open>2\<^sup>3\<^sup>2 - 64\<close> bytes: the ring buffer
  of sixteen words, the rotating registers, the in-place byte swap, the buffering of incomplete
  blocks, the two-word bit count and the byte-wise padding lead to the digest of the concatenation;
  the loops end, and no access leaves the context's buffer.  The digest has 20 bytes.
\<close>

theorem sha1_implements_fips180:
  assumes "length (ctx_buffer ctx) = SHA1_BLOCKSIZE" and "\<forall>data \<in> set chunks. length data < 2 ^ 32 - 64"
    and "length (concat chunks) < 2 ^ 61"
  shows "(case sha1_updates (sha1_init ctx) chunks of None \<Rightarrow> None | Some ctx' \<Rightarrow> sha1_final ctx') =
      Some (sha1 (concat chunks)) \<and>
    length (sha1 (concat chunks)) = SHA1_DIGESTSIZE"
  using sha1_hash.digest_of_chunks [OF assms] sha1_hash.digest_length [of "concat chunks"]
  by (cases "sha1_updates (sha1_init ctx) chunks") (simp_all add: sha1_updates_eq)

theorem sha1_implements_fips180_witness:
  "\<exists>ctx. (case sha1_updates (sha1_init ctx) [[1, 2, 3], replicate 64 7] of None \<Rightarrow> None | Some ctx' \<Rightarrow> sha1_final ctx') =
      Some (sha1 ([1, 2, 3] @ replicate 64 7))"
proof -
  define ctx where "ctx = \<lparr>ctx_h0 = 0, ctx_h1 = 0, ctx_h2 = 0, ctx_h3 = 0, ctx_h4 = 0, ctx_n0 = 0, ctx_n1 = 0,
    ctx_buffer = replicate 64 0\<rparr>"
  have "length (ctx_buffer ctx) = SHA1_BLOCKSIZE" "\<forall>data \<in> set [[1, 2, 3], replicate 64 7]. length data < 2 ^ 32 - 64"
    "length (concat [[1, 2, 3], replicate 64 7]) < 2 ^ 61" by (simp_all add: ctx_def)
  from sha1_implements_fips180 [OF this] show ?thesis by (intro exI [of _ ctx]) simp
qed

end
