(* ===== verification/Cache.thy ===== *)
theory Cache
  imports Serialize Sha1 File
begin

text \<open>
  \<^verbatim>\<open>src/fand/cache.c\<close>: the sysfs paths that were found at an earlier start, kept in a file with a
  checksum.

  The global \<open>fand_cache\<close> is a record that every operation takes and returns.  Path fields are arrays
  of 256 bytes.  The SHA-1 context is an uninitialised local variable in the source; here it is an
  argument.  The branch on \<open>cache_struct_is_padded\<close> (a function that the tests replace) is kept as an
  argument \<open>padded\<close>.  \<^term>\<open>None\<close> is undefined behaviour.
\<close>

section \<open>The structure\<close>

abbreviation (input) HWMON_PATH_SIZE :: nat where "HWMON_PATH_SIZE \<equiv> 256"
abbreviation (input) CACHE_SIZE :: nat where "CACHE_SIZE \<equiv> 256 + 256 + 256 + 4 + 20"

record fand_cache =
  pwm :: "byte list"
  pwm_enable :: "byte list"
  temp_input :: "byte list"
  card_idx :: u32
  checksum :: "byte list"

definition wf_cache :: "fand_cache \<Rightarrow> bool" where
  "wf_cache c \<longleftrightarrow> length (pwm c) = 256 \<and> length (pwm_enable c) = 256 \<and> length (temp_input c) = 256 \<and>
     length (checksum c) = 20"

text \<open>The string in a path field.\<close>

definition field_path :: "byte list \<Rightarrow> string" where
  "field_path bs = cstr (chars bs)"

definition FAND_CACHE_DIR :: string where
  "FAND_CACHE_DIR = ''/var/cache/amdgpu-fand''"

definition FAND_CACHE_FILE :: string where
  "FAND_CACHE_FILE = FAND_CACHE_DIR @ ''/amdgpu-fand.cache''"

text \<open>The members need no padding on the target: \<open>card_idx\<close> is at offset 768.\<close>

definition sizeof_fand_cache :: nat where
  "sizeof_fand_cache = 792"

definition cache_struct_is_padded :: bool where
  "cache_struct_is_padded \<longleftrightarrow> sizeof_fand_cache > CACHE_SIZE"

definition cache_file_exists_in_sysfs :: "fs \<Rightarrow> string \<Rightarrow> bool" where
  "cache_file_exists_in_sysfs s file \<longleftrightarrow> fsys_file_exists s file \<and> take 5 file = ''/sys/''"

section \<open>Operations\<close>

definition sha1_of :: "sha1_ctx \<Rightarrow> byte list \<Rightarrow> nat \<Rightarrow> byte list option" where
  "sha1_of ctx buffer nbytes =
     (case sha1_update (sha1_init ctx) buffer (of_nat nbytes) of None \<Rightarrow> None | Some ctx' \<Rightarrow> sha1_final ctx')"

text \<open>Test builds replace \<open>cache_file_exists_in_sysfs\<close> and \<open>cache_struct_is_padded\<close> by mocks and use another path.\<close>

definition cache_validate_in :: "(string \<Rightarrow> bool) \<Rightarrow> sha1_ctx \<Rightarrow> fand_cache \<Rightarrow> byte list \<Rightarrow> nat \<Rightarrow> int option" where
  "cache_validate_in exists_in_sysfs ctx c buffer nbytes =
     (if nbytes \<noteq> CACHE_SIZE then Some (- 1)
      else case sha1_of ctx (take (nbytes - SHA1_DIGESTSIZE) buffer) (nbytes - SHA1_DIGESTSIZE) of
        None \<Rightarrow> None
      | Some digest \<Rightarrow>
          if take SHA1_DIGESTSIZE digest \<noteq> take SHA1_DIGESTSIZE (checksum c) then Some (- 1)
          else if \<not> exists_in_sysfs (field_path (pwm c)) then Some (- 1)
          else if \<not> exists_in_sysfs (field_path (pwm_enable c)) then Some (- 1)
          else if \<not> exists_in_sysfs (field_path (temp_input c)) then Some (- 1)
          else Some 0)"

definition cache_validate :: "sha1_ctx \<Rightarrow> fs \<Rightarrow> fand_cache \<Rightarrow> byte list \<Rightarrow> nat \<Rightarrow> int option" where
  "cache_validate ctx s = cache_validate_in (cache_file_exists_in_sysfs s) ctx"

definition cache_pack :: "sha1_ctx \<Rightarrow> fand_cache \<Rightarrow> byte list \<Rightarrow> nat \<Rightarrow> (int \<times> byte list) option" where
  "cache_pack ctx c buffer bufsize =
     (if bufsize < CACHE_SIZE then Some (- 1, buffer)
      else case packf (\<lambda>k. [pwm c, pwm_enable c, temp_input c] ! k) buffer bufsize ''%*hhu%*hhu%*hhu%u''
             [VWord 256, VPtr 0 0, VWord 256, VPtr 1 0, VWord 256, VPtr 2 0, VWord (ucast (card_idx c))] of
        None \<Rightarrow> None
      | Some (nbytes, buffer1) \<Rightarrow>
          (case sha1_of ctx (take (nat nbytes) buffer1) (nat nbytes) of
             None \<Rightarrow> None
           | Some digest \<Rightarrow>
               (case packf (\<lambda>_. digest) (drop (nat nbytes) buffer1) (bufsize - nat nbytes) ''%*hhu''
                       [VWord 20, VPtr 0 0] of
                  None \<Rightarrow> None
                | Some (n, rest) \<Rightarrow> Some (nbytes + n, take (nat nbytes) buffer1 @ rest))))"

text \<open>Both ways of filling the structure, then the terminators.\<close>

definition cache_memcpy :: "byte list \<Rightarrow> fand_cache" where
  "cache_memcpy buffer =
     \<lparr>pwm = take 256 buffer, pwm_enable = take 256 (drop 256 buffer), temp_input = take 256 (drop 512 buffer),
      card_idx = le_word (take 4 (drop 768 buffer)), checksum = take 20 (drop 772 buffer)\<rparr>"

definition cache_terminate :: "fand_cache \<Rightarrow> fand_cache" where
  "cache_terminate c =
     c\<lparr>pwm := (pwm c)[255 := 0], pwm_enable := (pwm_enable c)[255 := 0], temp_input := (temp_input c)[255 := 0]\<rparr>"

definition cache_unpack :: "bool \<Rightarrow> fand_cache \<Rightarrow> byte list \<Rightarrow> nat \<Rightarrow> (int \<times> fand_cache) option" where
  "cache_unpack padded c buffer bufsize =
     (if bufsize < CACHE_SIZE then Some (- 1, c)
      else if \<not> padded
      then Some (int sizeof_fand_cache, cache_terminate (cache_memcpy buffer))
      else case unpackf (\<lambda>k. [pwm c, pwm_enable c, temp_input c, le_bytes 4 (card_idx c), checksum c] ! k)
             buffer bufsize ''%*hhu%*hhu%*hhu%u%*hhu''
             [VWord 256, VPtr 0 0, VWord 256, VPtr 1 0, VWord 256, VPtr 2 0, VPtr 3 0, VWord 20, VPtr 4 0] of
        None \<Rightarrow> None
      | Some (nbytes, m) \<Rightarrow>
          Some (nbytes, cache_terminate \<lparr>pwm = m 0, pwm_enable = m 1, temp_input = m 2,
            card_idx = le_word (m 3), checksum = m 4\<rparr>))"

text \<open>\<open>nread\<close> bounds what \<open>read\<close> delivers.\<close>

definition cache_load_in ::
    "string \<Rightarrow> bool \<Rightarrow> (string \<Rightarrow> bool) \<Rightarrow> sha1_ctx \<Rightarrow> io \<Rightarrow> nat \<Rightarrow> fs \<Rightarrow> fand_cache \<Rightarrow> (int \<times> fand_cache) option" where
  "cache_load_in path padded exists_in_sysfs ctx k nread s c =
     (case fs_files s path of
        None \<Rightarrow> Some (- 1, c)
      | Some content \<Rightarrow>
          if io_open_err k \<noteq> None then Some (- 1, c)
          else if io_read_err k then Some (- 1, c)
          else let buffer = take (min nread CACHE_SIZE) content in
            if length buffer \<noteq> CACHE_SIZE then Some (- 1, c)
            else case cache_unpack padded c buffer CACHE_SIZE of
              None \<Rightarrow> None
            | Some (nbytes, c') \<Rightarrow>
                if nbytes < 0 then Some (- 1, c')
                else map_option (\<lambda>st. (st, c')) (cache_validate_in exists_in_sysfs ctx c' buffer (nat nbytes)))"

definition cache_load ::
    "sha1_ctx \<Rightarrow> io \<Rightarrow> nat \<Rightarrow> fs \<Rightarrow> fand_cache \<Rightarrow> (int \<times> fand_cache) option" where
  "cache_load ctx k nread s =
     cache_load_in FAND_CACHE_FILE cache_struct_is_padded (cache_file_exists_in_sysfs s) ctx k nread s"

text \<open>
  \<open>open\<close> with \<open>O_CREAT | O_WRONLY\<close> keeps the old content, and \<open>write\<close> overwrites the start of it;
  \<open>nwritten\<close> is what \<open>write\<close> returns, at most the size of the buffer.
\<close>

definition cache_write ::
    "sha1_ctx \<Rightarrow> io \<Rightarrow> bool \<Rightarrow> int \<Rightarrow> fs \<Rightarrow> fand_cache \<Rightarrow> (int \<times> fs) option" where
  "cache_write ctx k mkdir_fails nwritten s c =
     (if \<not> fsys_dir_exists s FAND_CACHE_DIR \<and> mkdir_fails then Some (- 1, s)
      else let s1 = (if fsys_dir_exists s FAND_CACHE_DIR then s
                     else s\<lparr>fs_dirs := (fs_dirs s)(FAND_CACHE_DIR := True)\<rparr>) in
        case cache_pack ctx c (replicate CACHE_SIZE 0) CACHE_SIZE of
          None \<Rightarrow> None
        | Some (r, buffer) \<Rightarrow>
            if r < 0 then Some (- 1, s1)
            else if io_open_err k \<noteq> None then Some (- 1, s1)
            else let old = (case fs_files s1 FAND_CACHE_FILE of None \<Rightarrow> [] | Some content \<Rightarrow> content);
                     n = nat (min nwritten (int CACHE_SIZE));
                     s2 = put_file s1 FAND_CACHE_FILE (take n buffer @ drop n old)
                 in Some (if nwritten \<noteq> int CACHE_SIZE then - 1 else if io_close_err k then - 1 else 0, s2))"

section \<open>The image of a cache\<close>

definition cache_body :: "fand_cache \<Rightarrow> byte list" where
  "cache_body c = pwm c @ pwm_enable c @ temp_input c @ le_bytes 4 (card_idx c)"

definition cache_image :: "fand_cache \<Rightarrow> byte list" where
  "cache_image c = cache_body c @ sha1 (cache_body c)"

lemma cache_valsize [simp]: "dfa_valsize FMT_HHU = 1" "dfa_valsize FMT_U = 4"
  by (simp_all add: dfa_valsize_def)

lemma length_cache_body: "wf_cache c \<Longrightarrow> length (cache_body c) = 772"
  by (simp add: cache_body_def wf_cache_def)

lemma length_cache_image: "wf_cache c \<Longrightarrow> length (cache_image c) = 792"
  by (simp add: cache_image_def length_cache_body length_sha1)

lemma sha1_of_eq:
  assumes "length (ctx_buffer ctx) = 64" "length msg < 2 ^ 31" "n = length msg"
  shows "sha1_of ctx msg n = Some (sha1 msg)"
  using sha1_hash.digest_of_message [of ctx msg] assms by (auto simp: sha1_of_def)

lemma cache_pack_image:
  assumes "wf_cache c" "length (ctx_buffer ctx) = 64" "length buffer = CACHE_SIZE"
  shows "cache_pack ctx c buffer CACHE_SIZE = Some (int CACHE_SIZE, cache_image c)"
proof -
  let ?m = "\<lambda>k. [pwm c, pwm_enable c, temp_input c] ! k"
  let ?its = "[Array FMT_HHU 256 0 0, Array FMT_HHU 256 1 0, Array FMT_HHU 256 2 0, Scalar FMT_U (ucast (card_idx c))]"
  have ok: "\<forall>it \<in> set ?its. item_ok ?m it"
    using assms(1) by (simp add: wf_cache_def dfa_valsize_def)
  have body: "items_bytes ?m ?its = cache_body c"
    using assms(1) by (simp add: cache_body_def wf_cache_def dfa_valsize_def integral_image_le_bytes le_bytes_ucast)
  have p1: "packf ?m buffer CACHE_SIZE ''%*hhu%*hhu%*hhu%u''
      [VWord 256, VPtr 0 0, VWord 256, VPtr 1 0, VWord 256, VPtr 2 0, VWord (ucast (card_idx c))] =
      Some (772, cache_body c @ drop 772 buffer)"
    using packf_items [OF ok, of CACHE_SIZE buffer, unfolded body] assms(3) length_cache_body [OF assms(1)]
    by (simp add: c_buffer)
  let ?d = "sha1 (cache_body c)"
  have p2: "packf (\<lambda>_. ?d) (drop 772 buffer) 20 ''%*hhu'' [VWord 20, VPtr 0 0] = Some (20, ?d)"
    using packf_items [of "[Array FMT_HHU 20 0 0]" "\<lambda>_. ?d" 20 "drop 772 buffer"] assms(3)
    by (simp add: dfa_valsize_def length_sha1 c_buffer)
  show ?thesis
    using p1 p2 length_cache_body [OF assms(1)]
    by (simp add: cache_pack_def sha1_of_eq [OF assms(2)] cache_image_def)
qed

lemma le_bytes_ucast_id: "le_word (le_bytes 4 (w :: u32)) = w"
  by (simp add: le_word_le_bytes)

lemma cache_memcpy_image:
  assumes "wf_cache c"
  shows "cache_memcpy (cache_image c @ rest) = c\<lparr>checksum := sha1 (cache_body c)\<rparr>"
  using assms by (simp add: cache_memcpy_def cache_image_def cache_body_def wf_cache_def length_sha1 le_bytes_ucast_id)

text \<open>Both branches of \<open>cache_unpack\<close> fill the structure with the same bytes.\<close>

lemma unpackf_cache:
  assumes "wf_cache c" "CACHE_SIZE \<le> bufsize" "bufsize \<le> length buffer"
  shows "\<exists>m. unpackf (\<lambda>k. [pwm c, pwm_enable c, temp_input c, le_bytes 4 (card_idx c), checksum c] ! k)
      buffer bufsize ''%*hhu%*hhu%*hhu%u%*hhu''
      [VWord 256, VPtr 0 0, VWord 256, VPtr 1 0, VWord 256, VPtr 2 0, VPtr 3 0, VWord 20, VPtr 4 0] = Some (792, m) \<and>
    m 0 = take 256 buffer \<and> m 1 = take 256 (drop 256 buffer) \<and> m 2 = take 256 (drop 512 buffer) \<and>
    m 3 = take 4 (drop 768 buffer) \<and> m 4 = take 20 (drop 772 buffer)"
proof -
  let ?m = "\<lambda>k. [pwm c, pwm_enable c, temp_input c, le_bytes 4 (card_idx c), checksum c] ! k"
  let ?ds = "[Dest FMT_HHU (Some 256) 0 0, Dest FMT_HHU (Some 256) 1 0, Dest FMT_HHU (Some 256) 2 0,
    Dest FMT_U None 3 0, Dest FMT_HHU (Some 20) 4 0]"
  have ok: "\<forall>d \<in> set ?ds. dest_ok d" by (simp add: dfa_valsize_def)
  have sz: "sum_list (map dest_size ?ds) = 792" by (simp add: dfa_valsize_def)
  have "unpackf ?m buffer bufsize (dests_text ?ds) (dests_args ?ds) =
      map_option (\<lambda>m'. (792, m')) (store_all ?m ?ds (segments ?ds buffer))"
    using unpackf_dests [OF ok, of bufsize buffer ?m] assms(2,3) unfolding sz by simp
  moreover have "segments ?ds buffer = [take 256 buffer, take 256 (drop 256 buffer), take 256 (drop 512 buffer),
      take 4 (drop 768 buffer), take 20 (drop 772 buffer)]"
    by (simp add: dfa_valsize_def)
  ultimately show ?thesis
    using assms by (simp add: store_def wf_cache_def overwrite_def)
qed

lemma cache_unpack_eq:
  assumes "wf_cache c" "CACHE_SIZE \<le> bufsize" "bufsize \<le> length buffer"
  shows "cache_unpack padded c buffer bufsize = Some (792, cache_terminate (cache_memcpy buffer))"
  using unpackf_cache [OF assms] assms
  by (cases padded) (auto simp: cache_unpack_def sizeof_fand_cache_def cache_memcpy_def)

section \<open>Loading and writing\<close>

definition digest_matches :: "byte list \<Rightarrow> bool" where
  "digest_matches content \<longleftrightarrow> sha1 (take 772 content) = take 20 (drop 772 content)"

definition paths_in_sysfs :: "fs \<Rightarrow> fand_cache \<Rightarrow> bool" where
  "paths_in_sysfs s c \<longleftrightarrow> cache_file_exists_in_sysfs s (field_path (pwm c)) \<and>
     cache_file_exists_in_sysfs s (field_path (pwm_enable c)) \<and> cache_file_exists_in_sysfs s (field_path (temp_input c))"

lemma wf_cache_memcpy: "792 \<le> length content \<Longrightarrow> wf_cache (cache_memcpy content)"
  by (simp add: wf_cache_def cache_memcpy_def)

lemma wf_cache_terminate: "wf_cache c \<Longrightarrow> wf_cache (cache_terminate c)"
  by (simp add: wf_cache_def cache_terminate_def)

lemma cache_memcpy_take: "cache_memcpy (take 792 content) = cache_memcpy content"
  by (simp add: cache_memcpy_def drop_take min_def)

lemma cache_validate_eq:
  assumes "length (ctx_buffer ctx) = 64" "length buffer = CACHE_SIZE"
  shows "cache_validate ctx s (cache_terminate (cache_memcpy buffer)) buffer CACHE_SIZE =
    Some (if digest_matches buffer \<and> paths_in_sysfs s (cache_terminate (cache_memcpy buffer)) then 0 else - 1)"
proof -
  let ?c = "cache_terminate (cache_memcpy buffer)"
  have "sha1_of ctx (take 772 buffer) 772 = Some (sha1 (take 772 buffer))"
    using assms by (intro sha1_of_eq) simp_all
  moreover have "take 20 (checksum ?c) = take 20 (drop 772 buffer)"
    by (simp add: cache_terminate_def cache_memcpy_def)
  ultimately show ?thesis
    by (simp add: cache_validate_def cache_validate_in_def digest_matches_def paths_in_sysfs_def length_sha1)
qed

lemma cache_load_eq:
  assumes "length (ctx_buffer ctx) = 64" "wf_cache c" "fs_files s FAND_CACHE_FILE = Some content"
    and "io_open_err k = None" "\<not> io_read_err k" "CACHE_SIZE \<le> nread" "CACHE_SIZE \<le> length content"
  shows "cache_load ctx k nread s c =
    Some (if digest_matches content \<and> paths_in_sysfs s (cache_terminate (cache_memcpy content)) then 0 else - 1,
      cache_terminate (cache_memcpy content))"
proof -
  let ?b = "take CACHE_SIZE content"
  have len: "length ?b = CACHE_SIZE" using assms(7) by simp
  have un: "cache_unpack cache_struct_is_padded c ?b CACHE_SIZE = Some (792, cache_terminate (cache_memcpy content))"
    using cache_unpack_eq [OF assms(2), of CACHE_SIZE ?b] len cache_memcpy_take [of content] by simp
  have dm: "digest_matches ?b = digest_matches content"
    by (simp add: digest_matches_def drop_take min_def)
  show ?thesis
    using assms un cache_validate_eq [OF assms(1) len, of s] cache_memcpy_take [of content] dm
    by (simp add: cache_load_def cache_load_in_def Let_def min_absorb2 flip: cache_validate_def)
qed

lemma cache_write_eq:
  assumes "length (ctx_buffer ctx) = 64" "wf_cache c" "cache_write ctx k mkdir_fails nwritten s c = Some (0, s')"
  shows "\<exists>rest. fs_files s' = (fs_files s)(FAND_CACHE_FILE \<mapsto> cache_image c @ rest)"
proof -
  have "cache_pack ctx c (replicate CACHE_SIZE 0) CACHE_SIZE = Some (int CACHE_SIZE, cache_image c)"
    by (rule cache_pack_image [OF assms(2,1)]) simp
  with assms(3) length_cache_image [OF assms(2)] show ?thesis
    by (auto simp: cache_write_def Let_def put_file_def split: if_splits)
qed

lemma cache_terminate_id:
  assumes "wf_cache c" "pwm c ! 255 = 0" "pwm_enable c ! 255 = 0" "temp_input c ! 255 = 0"
  shows "cache_terminate c = c"
proof -
  have "xs[255 := 0] = xs" if "xs ! 255 = (0 :: byte)" for xs by (metis that list_update_id)
  with assms show ?thesis by (simp add: cache_terminate_def)
qed

lemma cache_file_not_sysfs: "take 5 file = ''/sys/'' \<Longrightarrow> file \<noteq> FAND_CACHE_FILE"
  by (auto simp: FAND_CACHE_FILE_def FAND_CACHE_DIR_def)

text \<open>
  The contract between the cache and its user \<open>hwmon_open\<close>: what was saved is what the next start
  loads, as long as the paths still exist.
\<close>

locale persistent_record =
  fixes save :: "'s \<Rightarrow> 'r \<Rightarrow> (int \<times> 's) option"
    and load :: "'s \<Rightarrow> 'r \<Rightarrow> (int \<times> 'r) option"
    and well_formed terminated_record :: "'r \<Rightarrow> bool"
    and present :: "'s \<Rightarrow> 'r \<Rightarrow> bool"
    and payload :: "'r \<Rightarrow> 'p"
  assumes save_load: "well_formed r \<Longrightarrow> terminated_record r \<Longrightarrow> well_formed q \<Longrightarrow> present s r \<Longrightarrow>
      save s r = Some (0, s') \<Longrightarrow> \<exists>r'. load s' q = Some (0, r') \<and> payload r' = payload r"
    and load_total: "well_formed q \<Longrightarrow> \<exists>st r'. load s q = Some (st, r') \<and> well_formed r'"
    and save_total: "well_formed r \<Longrightarrow> \<exists>st s'. save s r = Some (st, s')"
begin

lemma save_load_twice:
  assumes "well_formed r" "terminated_record r" "well_formed q" "well_formed p" "present s r" "save s r = Some (0, s')"
  shows "\<exists>r' r''. load s' q = Some (0, r') \<and> load s' p = Some (0, r'') \<and> payload r' = payload r''"
  using save_load [OF assms(1,2,3,5,6)] save_load [OF assms(1,2,4,5,6)] by auto

end

definition cache_terminated :: "fand_cache \<Rightarrow> bool" where
  "cache_terminated c \<longleftrightarrow> pwm c ! 255 = 0 \<and> pwm_enable c ! 255 = 0 \<and> temp_input c ! 255 = 0"

definition cache_payload :: "fand_cache \<Rightarrow> byte list \<times> byte list \<times> byte list \<times> u32" where
  "cache_payload c = (pwm c, pwm_enable c, temp_input c, card_idx c)"

definition ctx_any :: sha1_ctx where
  "ctx_any = \<lparr>ctx_h0 = 0, ctx_h1 = 0, ctx_h2 = 0, ctx_h3 = 0, ctx_h4 = 0, ctx_n0 = 0, ctx_n1 = 0,
     ctx_buffer = replicate 64 0\<rparr>"

lemma cache_load_image:
  assumes ctx: "length (ctx_buffer ctx) = 64"
    and c: "wf_cache c" "cache_terminated c" "wf_cache c0" "paths_in_sysfs s c"
    and f: "fs_files s FAND_CACHE_FILE = Some (cache_image c @ rest)"
    and k: "io_open_err k = None" "\<not> io_read_err k" "CACHE_SIZE \<le> nread"
  shows "cache_load ctx k nread s c0 = Some (0, c\<lparr>checksum := sha1 (cache_body c)\<rparr>)"
proof -
  let ?content = "cache_image c @ rest" and ?c' = "c\<lparr>checksum := sha1 (cache_body c)\<rparr>"
  have "wf_cache ?c'" using c(1) by (simp add: wf_cache_def length_sha1)
  then have mem: "cache_terminate (cache_memcpy ?content) = ?c'"
    using c(1,2) cache_terminate_id [of ?c'] by (simp add: cache_memcpy_image cache_terminated_def)
  have "digest_matches ?content"
    using c(1) by (simp add: digest_matches_def cache_image_def length_cache_body length_sha1)
  moreover have "paths_in_sysfs s ?c'" using c(4) by (simp add: paths_in_sysfs_def)
  ultimately show ?thesis
    using cache_load_eq [OF ctx c(3) f k] length_cache_image [OF c(1)] mem by simp
qed

lemma paths_in_sysfs_cong:
  assumes "paths_in_sysfs s c" "\<And>p. take 5 p = ''/sys/'' \<Longrightarrow> fs_files s p \<noteq> None \<Longrightarrow> fs_files s' p \<noteq> None"
  shows "paths_in_sysfs s' c"
  using assms by (auto simp: paths_in_sysfs_def cache_file_exists_in_sysfs_def fsys_file_exists_def)

lemma cache_save_load:
  assumes ctx: "length (ctx_buffer ctx) = 64" "length (ctx_buffer ctx') = 64"
    and c: "wf_cache c" "cache_terminated c" "wf_cache c0" "paths_in_sysfs s c"
    and w: "cache_write ctx k mkdir_fails nwritten s c = Some (0, s')"
    and k': "io_open_err k' = None" "\<not> io_read_err k'" "CACHE_SIZE \<le> nread"
  shows "cache_load ctx' k' nread s' c0 = Some (0, c\<lparr>checksum := sha1 (cache_body c)\<rparr>)"
proof -
  obtain rest where files: "fs_files s' = (fs_files s)(FAND_CACHE_FILE \<mapsto> cache_image c @ rest)"
    using cache_write_eq [OF ctx(1) c(1) w] by blast
  have "paths_in_sysfs s' c" by (rule paths_in_sysfs_cong [OF c(4)]) (simp add: files)
  then show ?thesis using cache_load_image [OF ctx(2) c(1-3) _ _ k'] files by simp
qed

lemma cache_load_total:
  assumes "length (ctx_buffer ctx) = 64" "wf_cache c"
  shows "\<exists>st c'. cache_load ctx k nread s c = Some (st, c') \<and> wf_cache c'"
proof (cases "fs_files s FAND_CACHE_FILE")
  case None
  then show ?thesis using assms(2) by (simp add: cache_load_def cache_load_in_def)
next
  case (Some content)
  show ?thesis
  proof (cases "io_open_err k = None \<and> \<not> io_read_err k \<and> CACHE_SIZE \<le> nread \<and> CACHE_SIZE \<le> length content")
    case True
    then show ?thesis
      using cache_load_eq [OF assms Some, of k nread] wf_cache_terminate [OF wf_cache_memcpy, of content] by simp
  next
    case False
    then have "cache_load ctx k nread s c = Some (- 1, c)"
      using Some by (auto simp: cache_load_def cache_load_in_def Let_def)
    then show ?thesis using assms(2) by simp
  qed
qed

lemma cache_write_total:
  assumes "length (ctx_buffer ctx) = 64" "wf_cache c"
  shows "\<exists>st s'. cache_write ctx k mkdir_fails nwritten s c = Some (st, s')"
  using cache_pack_image [OF assms(2,1), of "replicate CACHE_SIZE 0"]
  by (auto simp: cache_write_def Let_def)

interpretation cache_store: persistent_record
    "\<lambda>s c. cache_write ctx_any (io_ok fd) False 792 s c" "\<lambda>s c. cache_load ctx_any (io_ok fd) 792 s c"
    wf_cache cache_terminated paths_in_sysfs cache_payload for fd
proof unfold_locales
  have any: "length (ctx_buffer ctx_any) = 64" by (simp add: ctx_any_def)
  show "\<exists>r'. cache_load ctx_any (io_ok fd) 792 s' q = Some (0, r') \<and> cache_payload r' = cache_payload r"
    if "wf_cache r" "cache_terminated r" "wf_cache q" "paths_in_sysfs s r"
      "cache_write ctx_any (io_ok fd) False 792 s r = Some (0, s')" for r q s s'
    using cache_save_load [OF any any that, of "io_ok fd" 792] by (simp add: io_ok_def cache_payload_def)
  show "\<exists>st r'. cache_load ctx_any (io_ok fd) 792 s q = Some (st, r') \<and> wf_cache r'" if "wf_cache q" for q s
    by (rule cache_load_total [OF any that])
  show "\<exists>st s'. cache_write ctx_any (io_ok fd) False 792 s r = Some (st, s')" if "wf_cache r" for r s
    by (rule cache_write_total [OF any that])
qed

lemma chars_append: "chars (xs @ ys) = chars xs @ chars ys"
  by (simp add: chars_def)

lemma chars_zeros: "chars (replicate n 0) = replicate n NUL"
  by (simp add: chars_def char_of_def)

lemma field_path_padded: "nul_free s \<Longrightarrow> 0 < n \<Longrightarrow> field_path (bytes s @ replicate n 0) = s"
  by (auto simp: field_path_def cstr_def chars_append chars_zeros nul_free_def takeWhile_append takeWhile_eq_all_conv
      takeWhile_eq_Nil_iff hd_replicate)

text \<open>An example.\<close>

definition example_cache :: fand_cache where
  "example_cache = \<lparr>pwm = bytes ''/sys/p'' @ replicate 250 0, pwm_enable = bytes ''/sys/e'' @ replicate 250 0,
     temp_input = bytes ''/sys/t'' @ replicate 250 0, card_idx = 0, checksum = replicate 20 0\<rparr>"

definition example_fs :: fs where
  "example_fs = \<lparr>fs_files = (\<lambda>p. if p \<in> {''/sys/p'', ''/sys/e'', ''/sys/t''} then Some [] else None),
     fs_dirs = (\<lambda>_. False), fs_sockets = (\<lambda>_. False), fs_fds = Map.empty\<rparr>"

lemma example_cache_ok: "wf_cache example_cache" "cache_terminated example_cache" "paths_in_sysfs example_fs example_cache"
  by (simp_all add: wf_cache_def cache_terminated_def example_cache_def nth_append paths_in_sysfs_def
      cache_file_exists_in_sysfs_def fsys_file_exists_def field_path_padded nul_free_def example_fs_def)

lemma ctx_any_buffer: "length (ctx_buffer ctx_any) = 64"
  by (simp add: ctx_any_def)

lemma example_cache_written: "\<exists>s'. cache_write ctx_any (io_ok 3) False 792 example_fs example_cache = Some (0, s')"
  using cache_pack_image [OF example_cache_ok(1) ctx_any_buffer, of "replicate CACHE_SIZE 0"]
  by (simp add: cache_write_def Let_def io_ok_def)

section \<open>Properties\<close>

text \<open>
  C28: a cache that was written is loaded again.  When \<open>cache_write\<close> returns success, then, whatever
  the cache file held before, \<open>cache_load\<close> accepts the file and restores the three paths and the card
  index exactly, provided the fields are terminated and the paths still exist below \<open>/sys\<close>.
\<close>

theorem cache_write_load_roundtrip:
  assumes "length (ctx_buffer ctx) = 64" and "length (ctx_buffer ctx') = 64"
    and "wf_cache c" and "cache_terminated c" and "wf_cache c0" and "paths_in_sysfs s c"
    and "cache_write ctx k mkdir_fails nwritten s c = Some (0, s')"
    and "io_open_err k' = None" and "\<not> io_read_err k'" and "CACHE_SIZE \<le> nread"
  shows "\<exists>c'. cache_load ctx' k' nread s' c0 = Some (0, c') \<and> pwm c' = pwm c \<and> pwm_enable c' = pwm_enable c \<and>
    temp_input c' = temp_input c \<and> card_idx c' = card_idx c"
  using cache_save_load [OF assms] by simp

theorem cache_write_load_roundtrip_witness:
  "\<exists>s' c'. cache_write ctx_any (io_ok 3) False 792 example_fs example_cache = Some (0, s') \<and>
    cache_load ctx_any (io_ok 3) 792 s' example_cache = Some (0, c') \<and> pwm c' = pwm example_cache"
proof -
  obtain s' where w: "cache_write ctx_any (io_ok 3) False 792 example_fs example_cache = Some (0, s')"
    using example_cache_written by blast
  have k: "io_open_err (io_ok 3) = None" "\<not> io_read_err (io_ok 3)" "CACHE_SIZE \<le> 792" by (simp_all add: io_ok_def)
  from cache_write_load_roundtrip [OF ctx_any_buffer ctx_any_buffer example_cache_ok(1,2,1,3) w k] w
  show ?thesis by blast
qed

text \<open>
  C29: a cache is accepted exactly when it is intact.  \<open>cache_load\<close> never runs into undefined
  behaviour, and it returns success if and only if the file can be read, has at least the 792 bytes of
  a cache, the last 20 of them are the SHA-1 digest of the first 772, and the three paths in it name
  existing regular files that start with \<open>/sys/\<close>; every accepted path is a terminated string.
\<close>

theorem cache_load_accepts:
  assumes "length (ctx_buffer ctx) = 64" and "wf_cache c"
  shows "\<exists>st c'. cache_load ctx k nread s c = Some (st, c') \<and> st \<in> {0, - 1} \<and>
    (st = 0 \<longleftrightarrow> (\<exists>content. fs_files s FAND_CACHE_FILE = Some content \<and> io_open_err k = None \<and> \<not> io_read_err k \<and>
        CACHE_SIZE \<le> nread \<and> CACHE_SIZE \<le> length content \<and>
        sha1 (take 772 content) = take 20 (drop 772 content) \<and>
        c' = cache_terminate (cache_memcpy content) \<and> paths_in_sysfs s c')) \<and>
    (st = 0 \<longrightarrow> pwm c' ! 255 = 0 \<and> pwm_enable c' ! 255 = 0 \<and> temp_input c' ! 255 = 0)"
proof (cases "\<exists>content. fs_files s FAND_CACHE_FILE = Some content \<and> io_open_err k = None \<and> \<not> io_read_err k \<and>
        CACHE_SIZE \<le> nread \<and> CACHE_SIZE \<le> length content")
  case True
  then obtain content where c: "fs_files s FAND_CACHE_FILE = Some content" "io_open_err k = None" "\<not> io_read_err k"
    "CACHE_SIZE \<le> nread" "CACHE_SIZE \<le> length content" by blast
  let ?c' = "cache_terminate (cache_memcpy content)"
  have "pwm ?c' ! 255 = 0" "pwm_enable ?c' ! 255 = 0" "temp_input ?c' ! 255 = 0"
    using c(5) by (simp_all add: cache_terminate_def cache_memcpy_def)
  with cache_load_eq [OF assms c] c show ?thesis
    by (auto simp: digest_matches_def)
next
  case False
  then have "cache_load ctx k nread s c = Some (- 1, c)"
    by (auto simp: cache_load_def cache_load_in_def Let_def split: option.split)
  with False show ?thesis by auto
qed

theorem cache_load_accepts_witness:
  "\<exists>st c'. cache_load ctx_any (io_ok 3) 792 example_fs example_cache = Some (st, c') \<and> st \<in> {0, - 1}"
  using cache_load_accepts [OF ctx_any_buffer example_cache_ok(1), of "io_ok 3" 792 example_fs] by blast

text \<open>
  The two ways of reading the structure agree.  Where the compiler adds no padding the bytes are
  copied at once, otherwise member by member through \<open>unpackf\<close>; both give the same structure, with all
  three path arrays terminated, for any buffer of at least 792 bytes.
\<close>

theorem cache_unpack_padding_irrelevant:
  assumes "wf_cache c" and "CACHE_SIZE \<le> bufsize" and "bufsize \<le> length buffer"
  shows "cache_unpack True c buffer bufsize = cache_unpack False c buffer bufsize \<and>
    (\<exists>c'. cache_unpack False c buffer bufsize = Some (int CACHE_SIZE, c') \<and> cache_terminated c' \<and> wf_cache c')"
proof -
  have "cache_terminated (cache_terminate (cache_memcpy buffer))"
    using assms(2,3) by (simp add: cache_terminated_def cache_terminate_def cache_memcpy_def)
  then show ?thesis
    using cache_unpack_eq [OF assms] wf_cache_terminate [OF wf_cache_memcpy, of buffer] assms(2,3) by simp
qed

theorem cache_unpack_padding_irrelevant_witness:
  "cache_unpack True example_cache (replicate 800 7) 792 = cache_unpack False example_cache (replicate 800 7) 792"
  using cache_unpack_padding_irrelevant [OF example_cache_ok(1), of 792 "replicate 800 7"] by simp

end
