(* ===== verification/Hwmon.thy ===== *)
theory Hwmon
  imports Cache Fanctrl
begin

text \<open>
  \<^verbatim>\<open>src/fand/hwmon.c\<close>: finding the card's sysfs files, taking over its fan, and reading
  its sensors.

  The state is the global \<open>fand_cache\<close> and the descriptor \<open>hwmon_pwm_enable_fd\<close>.  The outcome of the
  calls to the kernel is the record \<open>hwmon_env\<close>: which calls fail, what \<open>realpath\<close> returns, and which
  entries \<open>readdir\<close> lists (\<open>None\<close> when \<open>opendir\<close> fails).
\<close>

section \<open>State\<close>

record hwmon =
  hw_cache :: fand_cache
  hw_fd :: int

record hwmon_env =
  he_ctx :: sha1_ctx
  he_load_io :: io
  he_nread :: nat
  he_regcomp_fails :: bool
  he_realpath :: "string \<Rightarrow> string option"
  he_entries :: "string list option"
  he_iface :: "char list"
  he_write_io :: io
  he_mkdir_fails :: bool
  he_nwritten :: int
  he_fd_io :: io

abbreviation (input) PWM_MODE_MANUAL :: u64 where "PWM_MODE_MANUAL \<equiv> 1"
abbreviation (input) PWM_MODE_AUTO :: u64 where "PWM_MODE_AUTO \<equiv> 2"

section \<open>Finding the files\<close>

definition dri_path :: "nat \<Rightarrow> string" where
  "dri_path i = ''/sys/kernel/debug/dri'' @ ''/'' @ print_nat i @ ''/'' @ ''amdgpu_pm_info''"

fun detect_card_from :: "fs \<Rightarrow> nat list \<Rightarrow> int" where
  "detect_card_from s [] = - 1"
| "detect_card_from s (i # rest) =
     (if length (dri_path i) \<ge> HWMON_PATH_SIZE then - 1
      else if fsys_file_exists s (dri_path i) then int i
      else detect_card_from s rest)"

definition hwmon_detect_card_index :: "fs \<Rightarrow> int" where
  "hwmon_detect_card_index s = detect_card_from s [0..<128]"

text \<open>A match of the extended regular expression \<open>hwmon[0-9]+\<close> somewhere in the name.\<close>

definition matches_hwmon :: "string \<Rightarrow> bool" where
  "matches_hwmon name \<longleftrightarrow>
     list_ex (\<lambda>i. take 5 (drop i name) = ''hwmon'' \<and> i + 5 < length name \<and> isdigit (name ! (i + 5))) [0..<length name]"

definition hwmon_dir :: "nat \<Rightarrow> string" where
  "hwmon_dir idx = ''/sys/class/drm/card'' @ print_nat idx @ ''/device/hwmon/''"

definition hwmon_detect_iface_dir ::
    "bool \<Rightarrow> (string \<Rightarrow> string option) \<Rightarrow> string list option \<Rightarrow> char list \<Rightarrow> nat \<Rightarrow> (int \<times> char list) option" where
  "hwmon_detect_iface_dir regcomp_fails realpath entries dst idx =
     (let path = hwmon_dir idx in
      if length path > HWMON_PATH_SIZE then Some (- 1, dst)
      else if regcomp_fails then Some (- 1, dst)
      else case entries of
        None \<Rightarrow> None
      | Some names \<Rightarrow>
          (case find matches_hwmon names of
             None \<Rightarrow> Some (0, dst)
           | Some name \<Rightarrow>
               (case strscpy_at (take 255 path @ replicate (256 - length (take 255 path)) NUL) (length path) name of
                  None \<Rightarrow> None
                | Some (r, buffer) \<Rightarrow>
                    if r < 0 then Some (- 1, dst) else fsys_abspath realpath dst (cstr buffer))))"

definition hwmon_init_single_sysfs_path :: "char list \<Rightarrow> string \<Rightarrow> string \<Rightarrow> (int \<times> char list) option" where
  "hwmon_init_single_sysfs_path dst iface filename =
     (case strscpy dst iface (length dst) of
        None \<Rightarrow> None
      | Some (pos, dst1) \<Rightarrow>
          if pos < 0 then Some (pos, dst1)
          else case strscpy_at dst1 (nat pos) ''/'' of
            None \<Rightarrow> None
          | Some (r, dst2) \<Rightarrow>
              let pos1 = pos + r in
              if pos1 < 0 then Some (pos1, dst2) else strscpy_at dst2 (nat pos1) filename)"

definition hwmon_set_sysfs_paths :: "hwmon_env \<Rightarrow> fs \<Rightarrow> fand_cache \<Rightarrow> (int \<times> fand_cache) option" where
  "hwmon_set_sysfs_paths e s c =
     (let idx = hwmon_detect_card_index s in
      if idx < 0 then Some (idx, c)
      else let c1 = c\<lparr>card_idx := word_of_int idx\<rparr> in
        case hwmon_detect_iface_dir (he_regcomp_fails e) (he_realpath e) (he_entries e) (he_iface e) (nat idx) of
          None \<Rightarrow> None
        | Some (status, buffer) \<Rightarrow>
            if status < 0 then Some (status, c1)
            else let iface = cstr buffer in
              case hwmon_init_single_sysfs_path (chars (temp_input c1)) iface ''temp1_input'' of
                None \<Rightarrow> None
              | Some (st1, t) \<Rightarrow>
                  let c2 = c1\<lparr>temp_input := bytes t\<rparr> in
                  if st1 < 0 then Some (st1, c2)
                  else case hwmon_init_single_sysfs_path (chars (pwm c2)) iface ''pwm1'' of
                    None \<Rightarrow> None
                  | Some (st2, p) \<Rightarrow>
                      let c3 = c2\<lparr>pwm := bytes p\<rparr> in
                      if st2 < 0 then Some (st2, c3)
                      else case hwmon_init_single_sysfs_path (chars (pwm_enable c3)) iface ''pwm1_enable'' of
                        None \<Rightarrow> None
                      | Some (st3, en) \<Rightarrow> Some (st3, c3\<lparr>pwm_enable := bytes en\<rparr>))"

section \<open>Taking over the fan and giving it back\<close>

definition hwmon_set_pwm_mode_manual :: "io \<Rightarrow> fs \<Rightarrow> hwmon \<Rightarrow> int \<times> fs \<times> hwmon" where
  "hwmon_set_pwm_mode_manual k s h =
     (case fdopen_excl k s (field_path (pwm_enable (hw_cache h))) of (fd, s1) \<Rightarrow>
        let h1 = h\<lparr>hw_fd := fd\<rparr> in
        if fd = - 1 then (- 1, s1, h1)
        else case fdwrite_ulong k s1 fd PWM_MODE_MANUAL of (r, s2) \<Rightarrow> (if r \<noteq> 0 then - 1 else 0, s2, h1))"

definition hwmon_open :: "hwmon_env \<Rightarrow> fs \<Rightarrow> hwmon \<Rightarrow> (int \<times> fs \<times> hwmon) option" where
  "hwmon_open e s h =
     (let finish = (\<lambda>s1 h1. case hwmon_set_pwm_mode_manual (he_fd_io e) s1 h1 of (status, s2, h2) \<Rightarrow>
            Some (if status < 0 then status else c_int (card_idx (hw_cache h2)), s2, h2)) in
      case cache_load (he_ctx e) (he_load_io e) (he_nread e) s (hw_cache h) of
        None \<Rightarrow> None
      | Some (st, c) \<Rightarrow>
          if st = 0 then finish s (h\<lparr>hw_cache := c\<rparr>)
          else case hwmon_set_sysfs_paths e s c of
            None \<Rightarrow> None
          | Some (status, c1) \<Rightarrow>
              if status < 0 then Some (status, s, h\<lparr>hw_cache := c1\<rparr>)
              else case cache_write (he_ctx e) (he_write_io e) (he_mkdir_fails e) (he_nwritten e) s c1 of
                None \<Rightarrow> None
              | Some (status', s1) \<Rightarrow>
                  if status' < 0 then Some (status', s1, h\<lparr>hw_cache := c1\<rparr>)
                  else finish s1 (h\<lparr>hw_cache := c1\<rparr>))"

definition hwmon_close :: "io \<Rightarrow> fs \<Rightarrow> hwmon \<Rightarrow> int \<times> fs" where
  "hwmon_close k s h =
     (if hw_fd h = - 1 then (0, s)
      else case fdwrite_ulong k s (hw_fd h) PWM_MODE_AUTO of (_, s1) \<Rightarrow> fdclose_excl s1 (hw_fd h))"

definition hwmon_read_temp :: "io \<Rightarrow> fs \<Rightarrow> hwmon \<Rightarrow> int" where
  "hwmon_read_temp k s h =
     (case fread_ulong_excl k s (field_path (temp_input (hw_cache h))) 0 of (r, temp) \<Rightarrow>
        if r \<noteq> 0 then - 1 else c_int temp)"

definition hwmon_read_pwm :: "io \<Rightarrow> fs \<Rightarrow> hwmon \<Rightarrow> int" where
  "hwmon_read_pwm k s h =
     (case fread_ulong_excl k s (field_path (pwm (hw_cache h))) 0 of (r, v) \<Rightarrow> if r \<noteq> 0 then - 1 else c_int v)"

section \<open>Building a path\<close>

lemma init_path_fits:
  assumes "length dst = n" "length iface + 1 + length filename < n" "nul_free iface" "nul_free filename"
  shows "\<exists>dst'. hwmon_init_single_sysfs_path dst iface filename = Some (int (length filename), dst') \<and>
    length dst' = n \<and> cstr dst' = iface @ ''/'' @ filename"
proof -
  let ?d1 = "iface @ NUL # drop (Suc (length iface)) dst"
  let ?d2 = "iface @ CHR ''/'' # NUL # drop (Suc (Suc (length iface))) dst"
  have 1: "strscpy dst iface (length dst) = Some (int (length iface), ?d1)"
    using assms by (intro strscpy_fits) simp_all
  have 2: "strscpy_at ?d1 (length iface) ''/'' = Some (1, ?d2)"
    using strscpy_at_fits [of "length iface" ?d1 "''/''"] assms by (simp add: drop_Suc [symmetric] drop_drop)
  have 3: "strscpy_at ?d2 (Suc (length iface)) filename =
      Some (int (length filename), (iface @ ''/'') @ filename @ NUL # drop (Suc (length filename)) (NUL # drop (Suc (Suc (length iface))) dst))"
    using strscpy_at_fits [of "Suc (length iface)" ?d2 filename] assms by simp
  have pos: "nat (int (length iface) + 1) = Suc (length iface)" by simp
  have "hwmon_init_single_sysfs_path dst iface filename =
      Some (int (length filename), (iface @ ''/'') @ filename @ NUL # drop (Suc (length filename)) (NUL # drop (Suc (Suc (length iface))) dst))"
    unfolding hwmon_init_single_sysfs_path_def 1 option.case prod.case nat_int 2 Let_def pos 3 by simp
  moreover have "cstr ((iface @ ''/'') @ filename @ NUL # rest) = iface @ ''/'' @ filename" for rest
    using assms(3,4) by (auto simp: cstr_def nul_free_def takeWhile_append takeWhile_eq_all_conv)
  ultimately show ?thesis using assms(1,2) by auto
qed

text \<open>The error of the second copy is added to the position and disappears.\<close>

lemma init_path_loses_error:
  assumes "length dst = 256" "length iface = 255" "length filename < 8" "nul_free iface" "nul_free filename"
  shows "\<exists>dst'. hwmon_init_single_sysfs_path dst iface filename = Some (int (length filename), dst') \<and>
    cstr dst' = take 248 iface @ filename"
proof -
  let ?d1 = "iface @ [NUL]"
  have 1: "strscpy dst iface (length dst) = Some (255, ?d1)"
    using assms strscpy_fits [of iface 256 dst] by simp
  have 2: "strscpy_at ?d1 255 ''/'' = Some (- 7, ?d1)"
    using strscpy_at_truncates [of 255 ?d1 "''/''"] assms by simp
  have 3: "strscpy_at ?d1 248 filename =
      Some (int (length filename), take 248 iface @ filename @ NUL # drop (Suc (length filename)) (drop 248 ?d1))"
    using strscpy_at_fits [of 248 ?d1 filename] assms by simp
  have pos: "nat (255 :: int) = 255" "nat (255 + - 7 :: int) = 248" by simp_all
  have "hwmon_init_single_sysfs_path dst iface filename =
      Some (int (length filename), take 248 iface @ filename @ NUL # drop (Suc (length filename)) (drop 248 ?d1))"
    unfolding hwmon_init_single_sysfs_path_def 1 option.case prod.case pos(1) 2 Let_def pos(2) 3 by simp
  moreover have "cstr (take 248 iface @ filename @ NUL # rest) = take 248 iface @ filename" for rest
  proof -
    have "NUL \<notin> set (take 248 iface)" "NUL \<notin> set filename"
      using assms(4,5) by (auto simp: nul_free_def dest: in_set_takeD)
    then show ?thesis by (auto simp: cstr_def takeWhile_append takeWhile_eq_all_conv)
  qed
  ultimately show ?thesis by auto
qed


section \<open>What a successful start leaves\<close>

lemma print_manual: "print_ulong PWM_MODE_MANUAL = ''1''"
  by code_simp

lemma print_auto: "print_ulong PWM_MODE_AUTO = ''2''"
  by code_simp

lemma set_manual_success:
  assumes "hwmon_set_pwm_mode_manual k s h = (status, s', h')" "\<not> status < 0"
  shows "hw_cache h' = hw_cache h" "hw_fd h' \<noteq> - 1"
    "fs_fds s' (hw_fd h') = Some (field_path (pwm_enable (hw_cache h)))"
    "fs_files s' = (fs_files s)(field_path (pwm_enable (hw_cache h)) \<mapsto> bytes ''1'')"
  using assms
  by (auto simp: hwmon_set_pwm_mode_manual_def fdopen_excl_def fdwrite_ulong_def put_file_def Let_def
      print_manual split: if_splits prod.splits)

lemma cache_write_status: "cache_write ctx k mf nw s c = Some (st, s') \<Longrightarrow> \<not> st < 0 \<Longrightarrow> st = 0"
  by (auto simp: cache_write_def Let_def split: if_splits option.splits)

lemma hwmon_open_cases:
  assumes "hwmon_open e s h = Some (r, s', h')" "0 \<le> r"
  obtains (cached) c status where "cache_load (he_ctx e) (he_load_io e) (he_nread e) s (hw_cache h) = Some (0, c)"
      "hwmon_set_pwm_mode_manual (he_fd_io e) s (h\<lparr>hw_cache := c\<rparr>) = (status, s', h')" "\<not> status < 0"
      "r = c_int (card_idx c)"
  | (detected) c st status c1 s1 status' where
      "cache_load (he_ctx e) (he_load_io e) (he_nread e) s (hw_cache h) = Some (st, c)"
      "hwmon_set_sysfs_paths e s c = Some (status, c1)"
      "cache_write (he_ctx e) (he_write_io e) (he_mkdir_fails e) (he_nwritten e) s c1 = Some (0, s1)"
      "hwmon_set_pwm_mode_manual (he_fd_io e) s1 (h\<lparr>hw_cache := c1\<rparr>) = (status', s', h')" "\<not> status' < 0"
      "r = c_int (card_idx c1)"
proof -
  from assms(1) obtain st c where load: "cache_load (he_ctx e) (he_load_io e) (he_nread e) s (hw_cache h) = Some (st, c)"
    by (auto simp: hwmon_open_def Let_def split: option.splits)
  have manual: "\<exists>status. hwmon_set_pwm_mode_manual (he_fd_io e) s0 (h\<lparr>hw_cache := c0\<rparr>) = (status, s', h') \<and> \<not> status < 0 \<and>
      r = c_int (card_idx c0)"
    if "(case hwmon_set_pwm_mode_manual (he_fd_io e) s0 (h\<lparr>hw_cache := c0\<rparr>) of (status, s2, h2) \<Rightarrow>
            Some (if status < 0 then status else c_int (card_idx (hw_cache h2)), s2, h2)) = Some (r, s', h')" for s0 c0
    using that assms(2) set_manual_success(1) [of "he_fd_io e" s0 "h\<lparr>hw_cache := c0\<rparr>"]
    by (fastforce split: prod.splits if_splits)
  show thesis
  proof (cases "st = 0")
    case True
    then show thesis using manual [of s c] assms(1) load cached by (auto simp: hwmon_open_def Let_def)
  next
    case False
    from False assms load obtain status c1 where paths: "hwmon_set_sysfs_paths e s c = Some (status, c1)" "\<not> status < 0"
      by (auto simp: hwmon_open_def Let_def split: option.splits if_splits)
    from False assms load paths obtain st' s1 where
      w: "cache_write (he_ctx e) (he_write_io e) (he_mkdir_fails e) (he_nwritten e) s c1 = Some (st', s1)" "\<not> st' < 0"
      by (auto simp: hwmon_open_def Let_def split: option.splits if_splits)
    have "st' = 0" by (rule cache_write_status [OF w])
    then show thesis
      using manual [of s1 c1] False assms(1) load paths w detected by (auto simp: hwmon_open_def Let_def)
  qed
qed

lemma hwmon_open_manual:
  assumes "hwmon_open e s h = Some (r, s', h')" "0 \<le> r"
  shows "hw_fd h' \<noteq> - 1" "fs_fds s' (hw_fd h') = Some (field_path (pwm_enable (hw_cache h')))"
    "fs_files s' (field_path (pwm_enable (hw_cache h'))) = Some (bytes ''1'')"
    "r = c_int (card_idx (hw_cache h'))"
  using assms by (cases rule: hwmon_open_cases; use set_manual_success in force)+

lemma cache_load_intact:
  assumes "length (ctx_buffer ctx) = 64" "wf_cache c" "cache_load ctx k nread s c = Some (0, c')"
  shows "\<exists>content. fs_files s FAND_CACHE_FILE = Some content \<and> CACHE_SIZE \<le> length content \<and> digest_matches content \<and>
    c' = cache_terminate (cache_memcpy content)"
proof -
  obtain content where f: "fs_files s FAND_CACHE_FILE = Some content" "io_open_err k = None" "\<not> io_read_err k"
      "CACHE_SIZE \<le> nread" "CACHE_SIZE \<le> length content"
    using assms(3) by (auto simp: cache_load_def cache_load_in_def Let_def split: option.splits if_splits)
  with cache_load_eq [OF assms(1,2) f] assms(3) show ?thesis by (auto split: if_splits)
qed

lemma cache_load_terminated:
  assumes "length (ctx_buffer ctx) = 64" "wf_cache c" "cache_terminated c" "cache_load ctx k nread s c = Some (st, c')"
  shows "wf_cache c' \<and> cache_terminated c'"
proof (cases "\<exists>content. fs_files s FAND_CACHE_FILE = Some content \<and> io_open_err k = None \<and> \<not> io_read_err k \<and>
        CACHE_SIZE \<le> nread \<and> CACHE_SIZE \<le> length content")
  case True
  then obtain content where f: "fs_files s FAND_CACHE_FILE = Some content" "io_open_err k = None" "\<not> io_read_err k"
      "CACHE_SIZE \<le> nread" "CACHE_SIZE \<le> length content" by blast
  from cache_load_eq [OF assms(1,2) f] assms(4) have "c' = cache_terminate (cache_memcpy content)" by simp
  then show ?thesis
    using wf_cache_terminate [OF wf_cache_memcpy, of content] f(5)
    by (simp add: cache_terminated_def cache_terminate_def cache_memcpy_def)
next
  case False
  then have "cache_load ctx k nread s c = Some (- 1, c)"
    by (auto simp: cache_load_def cache_load_in_def Let_def split: option.split)
  with assms show ?thesis by simp
qed

lemma cache_write_keeps_files:
  "cache_write ctx k mf nw s c = Some (st, s') \<Longrightarrow> fs_files s p \<noteq> None \<Longrightarrow> fs_files s' p \<noteq> None"
  by (auto simp: cache_write_def Let_def put_file_def split: if_splits option.splits)

lemma hwmon_open_keeps_files:
  assumes "hwmon_open e s h = Some (r, s', h')" "0 \<le> r" "fs_files s p \<noteq> None"
  shows "fs_files s' p \<noteq> None"
  using assms(1,2)
proof (cases rule: hwmon_open_cases)
  case (cached c status)
  then show ?thesis using set_manual_success(4) [OF cached(2,3)] assms(3) by simp
next
  case (detected c st status c1 s1 status')
  then show ?thesis
    using set_manual_success(4) [OF detected(4,5)] cache_write_keeps_files [OF detected(3) assms(3)] by simp
qed

text \<open>A copy never removes the terminator at the end of the array.\<close>

lemma strscpy_last:
  assumes "strscpy dst src (length dst) = Some (r, dst')" "dst \<noteq> []" "last dst = NUL"
  shows "length dst' = length dst \<and> last dst' = NUL"
proof (cases "length src < length dst")
  case True
  with strscpy_fits [of src "length dst" dst] assms show ?thesis
    by (auto simp: last_append last_drop)
next
  case False
  with strscpy_truncates [of "length dst" src dst] assms show ?thesis by auto
qed

lemma strscpy_at_last:
  assumes "strscpy_at dst pos src = Some (r, dst')" "pos < length dst" "last dst = NUL"
  shows "length dst' = length dst \<and> last dst' = NUL"
proof -
  obtain b where "strscpy (drop pos dst) src (length (drop pos dst)) = Some (r, b)" "dst' = take pos dst @ b"
    using assms(1) by (auto simp: strscpy_at_def)
  moreover have "drop pos dst \<noteq> []" "last (drop pos dst) = NUL" using assms(2,3) by simp_all
  ultimately have "length b = length dst - pos" "last b = NUL" "dst' = take pos dst @ b" "b \<noteq> []"
    using strscpy_last [of "drop pos dst" src r b] assms(2) by auto
  then show ?thesis using assms(2) by simp
qed

lemma init_path_last:
  assumes "hwmon_init_single_sysfs_path dst iface filename = Some (r, dst')" "length dst = 256" "last dst = NUL"
  shows "length dst' = 256 \<and> last dst' = NUL"
proof -
  obtain pos dst1 where 1: "strscpy_at dst 0 iface = Some (pos, dst1)"
    using assms(1) by (auto simp: hwmon_init_single_sysfs_path_def strscpy_at_def split: option.splits)
  then have copied: "strscpy dst iface (length dst) = Some (pos, dst1)" by (auto simp: strscpy_at_def)
  have l1: "length dst1 = 256" "last dst1 = NUL" using strscpy_at_last [OF 1] assms(2,3) by auto
  show ?thesis
  proof (cases "pos < 0")
    case True
    with assms(1) copied l1 show ?thesis by (simp add: hwmon_init_single_sysfs_path_def)
  next
    case False
    then have pos: "nat pos < 256" using strscpy_at_return [OF 1] assms(2) by auto
    from assms(1) copied False obtain r1 dst2 where 2: "strscpy_at dst1 (nat pos) ''/'' = Some (r1, dst2)"
      by (auto simp: hwmon_init_single_sysfs_path_def split: option.splits)
    have l2: "length dst2 = 256" "last dst2 = NUL" using strscpy_at_last [OF 2] pos l1 by auto
    show ?thesis
    proof (cases "pos + r1 < 0")
      case True
      with assms(1) copied 2 False l2 show ?thesis by (simp add: hwmon_init_single_sysfs_path_def Let_def)
    next
      case nonneg: False
      have "nat (pos + r1) < 256" using strscpy_at_return [OF 2] pos l1 False by auto
      moreover have "strscpy_at dst2 (nat (pos + r1)) filename = Some (r, dst')"
        using assms(1) copied 2 False nonneg by (simp add: hwmon_init_single_sysfs_path_def Let_def)
      ultimately show ?thesis using strscpy_at_last l2 by fastforce
    qed
  qed
qed

lemma last_chars: "length bs = 256 \<Longrightarrow> last (chars bs) = NUL \<longleftrightarrow> bs ! 255 = 0"
proof -
  assume l: "length bs = 256"
  then have "last (chars bs) = char_of (unat (bs ! 255))"
    by (subst last_conv_nth) (auto simp: chars_def simp flip: length_greater_0_conv)
  moreover have "char_of (unat b) = NUL \<longleftrightarrow> b = 0" for b :: byte
    using unsigned_less [of b, where 'a = nat] by (auto simp: char_of_eq_iff unat_eq_zero take_bit_nat_eq_self)
  ultimately show ?thesis by simp
qed

lemma init_path_field:
  assumes "hwmon_init_single_sysfs_path (chars bs) iface filename = Some (r, t)" "length bs = 256" "bs ! 255 = 0"
  shows "length t = 256 \<and> bytes t ! 255 = 0"
proof -
  have "length t = 256" "last t = NUL" using init_path_last [OF assms(1)] assms(2,3) last_chars [of bs] by simp_all
  then show ?thesis using last_chars [of "bytes t"] by simp
qed

lemma set_sysfs_paths_wf:
  assumes "hwmon_set_sysfs_paths e s c = Some (status, c')" "wf_cache c" "cache_terminated c"
  shows "wf_cache c' \<and> cache_terminated c'"
  using assms
  by (auto simp: hwmon_set_sysfs_paths_def Let_def wf_cache_def cache_terminated_def split: if_splits option.splits)
    (blast dest: init_path_field)+

text \<open>
  The sysfs files of a card are the cache's own paths: the contract of the cache carries over to a
  second start.
\<close>

lemma hwmon_open_cached:
  assumes "cache_load (he_ctx e) (he_load_io e) (he_nread e) s (hw_cache h) = Some (0, c)"
    and "io_open_err (he_fd_io e) = None" "\<not> io_write_err (he_fd_io e)" "io_newfd (he_fd_io e) \<noteq> - 1" "paths_in_sysfs s c"
  shows "\<exists>s' h'. hwmon_open e s h = Some (c_int (card_idx c), s', h') \<and> hw_cache h' = c \<and>
    fs_files s' (field_path (pwm_enable c)) = Some (bytes ''1'')"
  using assms
  by (auto simp: hwmon_open_def hwmon_set_pwm_mode_manual_def fdopen_excl_def fdwrite_ulong_def Let_def print_manual
      put_file_def paths_in_sysfs_def cache_file_exists_in_sysfs_def fsys_file_exists_def)

text \<open>After a start the cache file describes the structure in memory.\<close>

lemma hwmon_open_cache_file:
  assumes "hwmon_open e s h = Some (r, s1, h1)" "0 \<le> r" "length (ctx_buffer (he_ctx e)) = 64"
    and "wf_cache (hw_cache h)" "cache_terminated (hw_cache h)" "paths_in_sysfs s (hw_cache h1)"
    and c0: "wf_cache c0" and s2: "fs_files s2 FAND_CACHE_FILE = fs_files s1 FAND_CACHE_FILE" "paths_in_sysfs s2 (hw_cache h1)"
    and k: "length (ctx_buffer ctx) = 64" "io_open_err k = None" "\<not> io_read_err k" "CACHE_SIZE \<le> nread"
  shows "\<exists>c. cache_load ctx k nread s2 c0 = Some (0, c) \<and> cache_payload c = cache_payload (hw_cache h1)"
  using assms(1,2)
proof (cases rule: hwmon_open_cases)
  case (cached c status)
  note m = set_manual_success [OF cached(2,3)]
  have h1: "hw_cache h1 = c" using m(1) by simp
  have "field_path (pwm_enable c) \<noteq> FAND_CACHE_FILE"
    using assms(6) cache_file_not_sysfs by (auto simp: h1 paths_in_sysfs_def cache_file_exists_in_sysfs_def)
  then have same: "fs_files s2 FAND_CACHE_FILE = fs_files s FAND_CACHE_FILE" using s2(1) m(4) by simp
  obtain content where "fs_files s FAND_CACHE_FILE = Some content" "CACHE_SIZE \<le> length content"
      "digest_matches content" "c = cache_terminate (cache_memcpy content)"
    using cache_load_intact [OF assms(3,4) cached(1)] by blast
  then show ?thesis
    using cache_load_eq [OF k(1) c0, of s2 content k nread] k s2(2) same h1 by simp
next
  case (detected c st status c1 sw status')
  note m = set_manual_success [OF detected(4,5)]
  have h1: "hw_cache h1 = c1" using m(1) by simp
  have "wf_cache c \<and> cache_terminated c" by (rule cache_load_terminated [OF assms(3,4,5) detected(1)])
  then have c1: "wf_cache c1" "cache_terminated c1" using set_sysfs_paths_wf [OF detected(2)] by auto
  obtain rest where "fs_files sw FAND_CACHE_FILE = Some (cache_image c1 @ rest)"
    using cache_write_eq [OF assms(3) c1(1) detected(3)] by auto
  moreover have "field_path (pwm_enable c1) \<noteq> FAND_CACHE_FILE"
    using assms(6) cache_file_not_sysfs by (auto simp: h1 paths_in_sysfs_def cache_file_exists_in_sysfs_def)
  ultimately have "fs_files s2 FAND_CACHE_FILE = Some (cache_image c1 @ rest)" using s2(1) m(4) by simp
  from cache_load_image [OF k(1) c1 c0 _ this k(2,3,4)] s2(2) h1 show ?thesis by (simp add: cache_payload_def)
qed

text \<open>An example: a machine with a cache file from an earlier start.\<close>

definition cached_fs :: fs where
  "cached_fs = put_file example_fs FAND_CACHE_FILE (cache_image example_cache)"

definition example_env :: hwmon_env where
  "example_env = \<lparr>he_ctx = ctx_any, he_load_io = io_ok 3, he_nread = 792, he_regcomp_fails = False,
     he_realpath = (\<lambda>_. None), he_entries = None, he_iface = [], he_write_io = io_ok 3, he_mkdir_fails = False,
     he_nwritten = 792, he_fd_io = io_ok 5\<rparr>"

definition example_hwmon :: hwmon where
  "example_hwmon = \<lparr>hw_cache = example_cache, hw_fd = - 1\<rparr>"

definition example_loaded :: fand_cache where
  "example_loaded = example_cache\<lparr>checksum := sha1 (cache_body example_cache)\<rparr>"

lemma cached_fs_ok: "paths_in_sysfs cached_fs example_cache" "paths_in_sysfs cached_fs example_loaded"
proof -
  show "paths_in_sysfs cached_fs example_cache"
    by (rule paths_in_sysfs_cong [OF example_cache_ok(3)]) (simp add: cached_fs_def put_file_def)
  then show "paths_in_sysfs cached_fs example_loaded" by (simp add: paths_in_sysfs_def example_loaded_def)
qed

lemma example_open: "\<exists>s1 h1. hwmon_open example_env cached_fs example_hwmon = Some (0, s1, h1) \<and> hw_cache h1 = example_loaded"
proof -
  have "cache_load ctx_any (io_ok 3) 792 cached_fs example_cache = Some (0, example_loaded)"
    unfolding example_loaded_def
    by (rule cache_load_image [OF ctx_any_buffer example_cache_ok(1,2,1) cached_fs_ok(1), where rest = "[]"])
      (simp_all add: cached_fs_def put_file_def io_ok_def)
  moreover have "c_int (card_idx example_loaded) = 0" by (simp add: example_loaded_def example_cache_def c_int_def)
  ultimately show ?thesis
    using hwmon_open_cached [of example_env cached_fs example_hwmon example_loaded] cached_fs_ok(2)
    by (auto simp: example_env_def example_hwmon_def io_ok_def)
qed

section \<open>Properties\<close>

text \<open>
  C31: the path of an attribute file.  When directory, slash and file name fit into the destination the
  result is exactly their concatenation and the return value the length of the file name.
  A directory of 255 characters does not fit with the slash: the copy of the slash returns \<open>-E2BIG\<close>,
  but since that is added to the position 255 it does not look like an error, and a short file name
  overwrites the end of the directory name; the call reports success for a path that is not the one
  of the file.
\<close>

theorem hwmon_init_single_sysfs_path_cases:
  assumes "length dst = 256" and "nul_free iface" and "nul_free filename"
  shows "(length iface + 1 + length filename < 256 \<longrightarrow>
      (\<exists>dst'. hwmon_init_single_sysfs_path dst iface filename = Some (int (length filename), dst') \<and>
         length dst' = 256 \<and> cstr dst' = iface @ ''/'' @ filename)) \<and>
    (length iface = 255 \<and> length filename < 8 \<longrightarrow>
      (\<exists>dst'. hwmon_init_single_sysfs_path dst iface filename = Some (int (length filename), dst') \<and>
         cstr dst' = take 248 iface @ filename)) \<and>
    (256 \<le> length iface \<longrightarrow> (\<exists>dst'. hwmon_init_single_sysfs_path dst iface filename = Some (- E2BIG, dst')))"
proof (intro conjI impI)
  assume "256 \<le> length iface"
  then have "strscpy dst iface (length dst) = Some (- E2BIG, take 255 iface @ NUL # drop 256 dst)"
    using strscpy_truncates [of 256 iface dst] assms(1) by simp
  then show "\<exists>dst'. hwmon_init_single_sysfs_path dst iface filename = Some (- E2BIG, dst')"
    by (simp add: hwmon_init_single_sysfs_path_def)
qed (use init_path_fits [OF assms(1) _ assms(2,3)] init_path_loses_error [OF assms(1) _ _ assms(2,3)] in blast)+

theorem hwmon_init_single_sysfs_path_cases_witness:
  "\<exists>dst'. hwmon_init_single_sysfs_path (replicate 256 NUL) (replicate 255 CHR ''x'') ''pwm1'' = Some (4, dst') \<and>
     cstr dst' = replicate 248 CHR ''x'' @ ''pwm1''"
  using hwmon_init_single_sysfs_path_cases [of "replicate 256 NUL" "replicate 255 CHR ''x''" "''pwm1''"]
  by (simp add: nul_free_def)

text \<open>
  C30: taking over the fan and giving it back.  When \<open>hwmon_open\<close> succeeds, the control mode file of the
  card holds \<open>1\<close> (manual) and is open, and the result is the card's index.  In every later state in
  which the descriptor still names that file, \<open>hwmon_close\<close> writes \<open>2\<close> (automatic) to it, touches no
  other file, closes the descriptor and returns 0; also when the write fails the descriptor is closed.
\<close>

theorem hwmon_open_close:
  assumes "hwmon_open e s h = Some (r, s1, h1)" and "0 \<le> r"
    and "fs_fds s2 (hw_fd h1) = fs_fds s1 (hw_fd h1)"
  shows "fs_files s1 (field_path (pwm_enable (hw_cache h1))) = Some (bytes ''1'') \<and>
    fs_fds s1 (hw_fd h1) = Some (field_path (pwm_enable (hw_cache h1))) \<and> r = c_int (card_idx (hw_cache h1)) \<and>
    (\<exists>s3. hwmon_close k s2 h1 = (0, s3) \<and> fs_fds s3 = (fs_fds s2)(hw_fd h1 := None) \<and>
      fs_files s3 = (if io_write_err k then fs_files s2
        else (fs_files s2)(field_path (pwm_enable (hw_cache h1)) \<mapsto> bytes ''2'')))"
  using hwmon_open_manual [OF assms(1,2)] assms(3)
  by (auto simp: hwmon_close_def fdwrite_ulong_def fdclose_excl_def sys_close_def put_file_def print_auto Let_def)

theorem hwmon_open_close_witness:
  "\<exists>s1 h1 s3. hwmon_open example_env cached_fs example_hwmon = Some (0, s1, h1) \<and>
     hwmon_close (io_ok 3) s1 h1 = (0, s3) \<and> fs_files s3 (field_path (pwm_enable (hw_cache h1))) = Some (bytes ''2'')"
proof -
  obtain s1 h1 where h: "hwmon_open example_env cached_fs example_hwmon = Some (0, s1, h1)"
    using example_open by blast
  from hwmon_open_close [OF h order_refl refl, of "io_ok 3"] h show ?thesis by (auto simp: io_ok_def)
qed

text \<open>
  The second start finds the same files.  After a successful \<open>hwmon_open\<close>, from a cache or by
  searching, a later \<open>hwmon_open\<close> of a new process returns the same card and the same three paths
  without searching (whatever \<open>realpath\<close> and the directory would say), as long as the cache file is
  unchanged and the three sysfs files exist.
\<close>

theorem hwmon_open_reuses_paths:
  assumes "hwmon_open e s h = Some (r, s1, h1)" and "0 \<le> r" and "length (ctx_buffer (he_ctx e)) = 64"
    and "wf_cache (hw_cache h)" and "cache_terminated (hw_cache h)" and "paths_in_sysfs s (hw_cache h1)"
    and "fs_files s2 FAND_CACHE_FILE = fs_files s1 FAND_CACHE_FILE" and "paths_in_sysfs s2 (hw_cache h1)"
    and "wf_cache (hw_cache h2)" and "length (ctx_buffer (he_ctx e2)) = 64"
    and "io_open_err (he_load_io e2) = None" and "\<not> io_read_err (he_load_io e2)" and "CACHE_SIZE \<le> he_nread e2"
    and "io_open_err (he_fd_io e2) = None" and "\<not> io_write_err (he_fd_io e2)" and "io_newfd (he_fd_io e2) \<noteq> - 1"
  shows "\<exists>s3 h3. hwmon_open e2 s2 h2 = Some (r, s3, h3) \<and> cache_payload (hw_cache h3) = cache_payload (hw_cache h1)"
proof -
  obtain c where c: "cache_load (he_ctx e2) (he_load_io e2) (he_nread e2) s2 (hw_cache h2) = Some (0, c)"
      "cache_payload c = cache_payload (hw_cache h1)"
    using hwmon_open_cache_file [OF assms(1-6) assms(9,7,8,10-13)] by blast
  have "paths_in_sysfs s2 c" using assms(8) c(2) by (simp add: paths_in_sysfs_def cache_payload_def)
  moreover have "r = c_int (card_idx c)"
    using hwmon_open_manual(4) [OF assms(1,2)] c(2) by (simp add: cache_payload_def)
  ultimately show ?thesis using hwmon_open_cached [OF c(1) assms(14-16)] c(2) by auto
qed

theorem hwmon_open_reuses_paths_witness:
  "\<exists>s1 h1 s3 h3. hwmon_open example_env cached_fs example_hwmon = Some (0, s1, h1) \<and>
     hwmon_open example_env s1 example_hwmon = Some (0, s3, h3) \<and> cache_payload (hw_cache h3) = cache_payload (hw_cache h1)"
proof -
  obtain s1 h1 where h: "hwmon_open example_env cached_fs example_hwmon = Some (0, s1, h1)" "hw_cache h1 = example_loaded"
    using example_open by blast
  have "paths_in_sysfs s1 example_loaded"
    by (rule paths_in_sysfs_cong [OF cached_fs_ok(2)]) (rule hwmon_open_keeps_files [OF h(1) order_refl])
  then show ?thesis
    using hwmon_open_reuses_paths [OF h(1) order_refl, of s1 example_hwmon example_env] h cached_fs_ok(2) example_cache_ok(1,2)
    by (simp add: example_env_def example_hwmon_def io_ok_def ctx_any_buffer)
qed

end
