(* ===== verification/Drm.thy ===== *)
theory Drm
  imports Hwmon Regex
begin

text \<open>
  \<^verbatim>\<open>src/fand/drm.c\<close> and, on top of it and of theory \<open>Hwmon\<close>, the functions of \<^verbatim>\<open>src/fand/fanctrl.c\<close> that
  open and release the card and read its temperature.

  A build with libdrm reads the temperature with an \<open>ioctl\<close> on the render node of the card; its static
  \<open>drm_fd\<close> is an \<open>int option\<close> that is passed and returned, and \<^term>\<open>None\<close> is a build without libdrm, which
  has no such variable.  The entries that \<open>readdir\<close> delivers, the descriptor that \<open>open\<close> returns and
  the outcome of the \<open>ioctl\<close> are arguments.  \<^term>\<open>None\<close> as a result is undefined behaviour: reading from a
  directory that could not be opened.
\<close>

section \<open>drm.c\<close>

record drm_env =
  dr_regcomp_fails :: bool
  dr_entries :: "string list option"
  dr_newfd :: int

abbreviation (input) DRM_BUF_SIZE :: nat where "DRM_BUF_SIZE \<equiv> 128"
abbreviation (input) DRM_CARD_IDX_OFFSET :: u32 where "DRM_CARD_IDX_OFFSET \<equiv> 128"

definition DRI_DEV_DIR :: string where
  "DRI_DEV_DIR = ''/dev/dri/''"

text \<open>\<open>^renderD([0-9]+)\<close>; the group is the last item.\<close>

definition devregex :: "item list" where
  "devregex = map (\<lambda>c. Lit c) ''renderD'' @ [Plus isdigit]"

text \<open>\<open>atoi\<close> of a string that starts with a digit: \<open>strtol\<close>, which saturates, cut to an \<open>int\<close>.\<close>

definition atoi :: "string \<Rightarrow> int" where
  "atoi s = c_int (word_of_int (min (int (digits_val (takeWhile isdigit s))) (2 ^ 63 - 1)) :: u64)"

text \<open>The index of an entry, when its name matches.\<close>

definition drm_entry_index :: "string \<Rightarrow> u32 option" where
  "drm_entry_index name =
     (case regexec_anchored devregex name of
        None \<Rightarrow> None
      | Some m \<Rightarrow> Some (word_of_int (atoi (drop (rm_so m 7) name))))"

text \<open>The result, the file system and \<open>drm_fd\<close>; \<open>open\<close> fails when the new descriptor is -1.\<close>

definition drm_open :: "drm_env \<Rightarrow> fs \<Rightarrow> int \<Rightarrow> u32 \<Rightarrow> (int \<times> fs \<times> int) option" where
  "drm_open e s drm_fd index =
     (case strscpy (replicate DRM_BUF_SIZE NUL) DRI_DEV_DIR DRM_BUF_SIZE of
        None \<Rightarrow> None
      | Some (pos, buffer) \<Rightarrow>
          if pos < 0 then Some (pos, s, drm_fd)
          else if dr_regcomp_fails e then Some (- 1, s, drm_fd)
          else case dr_entries e of
            None \<Rightarrow> None
          | Some names \<Rightarrow>
              (case find (\<lambda>n. drm_entry_index n = Some (DRM_CARD_IDX_OFFSET + index)) names of
                 None \<Rightarrow> Some (drm_fd, s, drm_fd)
               | Some name \<Rightarrow>
                   (case strscpy_at buffer (nat pos) name of
                      None \<Rightarrow> None
                    | Some (r, buffer') \<Rightarrow>
                        if r < 0 then Some (drm_fd, s, drm_fd)
                        else let fd = dr_newfd e in
                          Some (fd, if fd = - 1 then s else s\<lparr>fs_fds := (fs_fds s)(fd \<mapsto> cstr buffer')\<rparr>, fd))))"

definition drm_close :: "fs \<Rightarrow> int \<Rightarrow> int \<times> fs" where
  "drm_close s drm_fd = sys_close s drm_fd"

text \<open>\<open>Inl\<close> is a failing \<open>ioctl\<close>, \<open>Inr\<close> the four bytes that it stores: thousandths of a degree.\<close>

definition drm_get_temp :: "unit + u32 \<Rightarrow> int" where
  "drm_get_temp ioctl = (case ioctl of Inl _ \<Rightarrow> - 1 | Inr temp \<Rightarrow> sint temp)"

section \<open>fanctrl.c: the card\<close>

definition fanctrl_init ::
    "hwmon_env \<Rightarrow> drm_env \<Rightarrow> fs \<Rightarrow> hwmon \<Rightarrow> int option \<Rightarrow> (int \<times> fs \<times> hwmon \<times> int option) option" where
  "fanctrl_init e de s h drm =
     (case hwmon_open e s h of
        None \<Rightarrow> None
      | Some (idx, s1, h1) \<Rightarrow>
          if idx < 0 then Some (idx, s1, h1, drm)
          else case drm of
            None \<Rightarrow> Some (0, s1, h1, drm)
          | Some drm_fd \<Rightarrow>
              (case drm_open de s1 drm_fd (word_of_int idx) of
                 None \<Rightarrow> None
               | Some (status, s2, drm_fd') \<Rightarrow> Some (status, s2, h1, Some drm_fd')))"

definition fanctrl_release :: "io \<Rightarrow> fs \<Rightarrow> hwmon \<Rightarrow> int option \<Rightarrow> int \<times> fs" where
  "fanctrl_release k s h drm =
     (case drm of
        None \<Rightarrow> hwmon_close k s h
      | Some drm_fd \<Rightarrow> (case drm_close s drm_fd of (_, s1) \<Rightarrow> hwmon_close k s1 h))"

text \<open>Where \<open>fanctrl_get_temp\<close> reads: the file of the sensor, or the render node.\<close>

datatype temp_source = Hwmon_source io | Drm_source "unit + u32"

definition temp_reading :: "temp_source \<Rightarrow> fs \<Rightarrow> hwmon \<Rightarrow> int" where
  "temp_reading src s h =
     (case src of Hwmon_source k \<Rightarrow> hwmon_read_temp k s h | Drm_source ioctl \<Rightarrow> drm_get_temp ioctl)"

definition built_for :: "int option \<Rightarrow> temp_source \<Rightarrow> bool" where
  "built_for drm src \<longleftrightarrow> (case src of Hwmon_source _ \<Rightarrow> drm = None | Drm_source _ \<Rightarrow> drm \<noteq> None)"

text \<open>What the two functions return that the server calls.  Test builds replace them by mocks.\<close>

record sensors =
  get_speed :: "int option"
  get_temp :: int

definition fanctrl_sensors :: "io \<Rightarrow> temp_source \<Rightarrow> fs \<Rightarrow> hwmon \<Rightarrow> sensors" where
  "fanctrl_sensors k src s h =
     \<lparr>get_speed = fanctrl_get_speed (hwmon_read_pwm k s h), get_temp = fanctrl_get_temp (temp_reading src s h)\<rparr>"

section \<open>The name of a render node\<close>

lemma ways_word:
  "ways (map (\<lambda>c. Lit c) w @ re) s = (if take (length w) s = w then map ((@) (replicate (length w) 1)) (ways re (drop (length w) s)) else [])"
proof (induction w arbitrary: s)
  case (Cons c w)
  show ?case
  proof (cases s)
    case Nil
    then show ?thesis by (simp add: most_def)
  next
    case (Cons d s')
    then show ?thesis using Cons.IH [of s'] by (auto simp: most_def)
  qed
qed (simp add: map_idI)

lemma drm_entry_index_node:
  assumes "n < 2 ^ 31"
  shows "drm_entry_index (''renderD'' @ print_nat n) = Some (of_nat n)"
proof -
  let ?name = "''renderD'' @ print_nat n"
  have digits: "takeWhile isdigit (print_nat n) = print_nat n" "length (print_nat n) \<noteq> 0"
    using digits_print_nat by (simp_all add: takeWhile_eq_all_conv)
  have ways: "ways devregex ?name = map ((@) (replicate 7 1)) (ways [Plus isdigit] (print_nat n))"
    unfolding devregex_def ways_word by (simp add: numeral_eq_Suc del: ways.simps)
  moreover have "ways [Plus isdigit] (print_nat n) \<noteq> []"
    using digits(2) by (simp add: most_def digits(1) Suc_le_eq)
  ultimately have "longest (ways devregex ?name) \<noteq> None" unfolding longest_None by simp
  then obtain ks where ks: "longest (ways devregex ?name) = Some ks" by blast
  then have "ks \<in> set (ways devregex ?name)" using longest_in by blast
  then obtain rest where "ks = replicate 7 1 @ rest" unfolding ways by auto
  then have so: "rm_so (0, ks) 7 = 7" by (simp add: rm_so_def numeral_eq_Suc)
  have "atoi (print_nat n) = int n"
    using assms c_int_of_nat_small [of n, where 'a = 64] by (simp add: atoi_def digits digits_val_print_nat)
  then show ?thesis using ks so by (simp add: drm_entry_index_def regexec_anchored_def)
qed

text \<open>The node of the card is found and opened, whatever other entries there are.\<close>

lemma drm_open_node:
  assumes "\<not> dr_regcomp_fails e" "dr_entries e = Some names" "idx < 2 ^ 16"
    and "''renderD'' @ print_nat (128 + idx) \<in> set names"
    and "\<And>name. name \<in> set names \<Longrightarrow> drm_entry_index name = Some (of_nat (128 + idx)) \<Longrightarrow> name = ''renderD'' @ print_nat (128 + idx)"
  shows "drm_open e s drm_fd (of_nat idx) =
    Some (dr_newfd e, if dr_newfd e = - 1 then s
            else s\<lparr>fs_fds := (fs_fds s)(dr_newfd e \<mapsto> DRI_DEV_DIR @ ''renderD'' @ print_nat (128 + idx))\<rparr>, dr_newfd e)"
proof -
  let ?node = "''renderD'' @ print_nat (128 + idx)"
  have ix: "drm_entry_index ?node = Some (of_nat (128 + idx))" using drm_entry_index_node [of "128 + idx"] assms(3) by simp
  obtain name where f: "find (\<lambda>n. drm_entry_index n = Some (of_nat (128 + idx))) names = Some name"
    using assms(4) ix by (cases "find (\<lambda>n. drm_entry_index n = Some (of_nat (128 + idx))) names") (auto simp: find_None_iff)
  then have "name = ?node" using assms(5) by (auto simp: find_Some_iff)
  have len: "length (print_nat (128 + idx)) \<le> 10" using length_print_nat [of "128 + idx" 9] assms(3) by simp
  define buf where "buf = DRI_DEV_DIR @ NUL # replicate 118 NUL"
  have buf: "strscpy (replicate 128 NUL) DRI_DEV_DIR 128 = Some (9, buf)" "length buf = 128" "take 9 buf = DRI_DEV_DIR"
    using strscpy_fits [of DRI_DEV_DIR 128 "replicate 128 NUL"] by (simp_all add: DRI_DEV_DIR_def buf_def)
  have "strscpy_at buf 9 ?node = Some (int (length ?node), DRI_DEV_DIR @ ?node @ NUL # drop (Suc (length ?node)) (drop 9 buf))"
    using strscpy_at_fits [of 9 buf ?node] len buf by simp
  moreover have "cstr (DRI_DEV_DIR @ ?node @ NUL # rest) = DRI_DEV_DIR @ ?node" for rest
    using digits_print_nat [of "128 + idx"] isdigit_not_sign
    by (auto simp: cstr_def DRI_DEV_DIR_def takeWhile_append takeWhile_eq_all_conv)
  ultimately show ?thesis
    using assms(1,2) buf f \<open>name = ?node\<close> by (simp add: drm_open_def Let_def del: append.simps append_Cons)
qed

text \<open>
  Without a matching entry the old descriptor is returned: after a restart it is the closed one of the
  time before, and the initialisation goes on as if it had been opened.
\<close>

lemma drm_open_stale:
  assumes "\<not> dr_regcomp_fails e" "dr_entries e = Some []"
  shows "drm_open e s drm_fd idx = Some (drm_fd, s, drm_fd)"
proof -
  have "strscpy (replicate 128 NUL) DRI_DEV_DIR 128 = Some (9, DRI_DEV_DIR @ NUL # replicate 118 NUL)"
    using strscpy_fits [of DRI_DEV_DIR 128 "replicate 128 NUL"] by (simp add: DRI_DEV_DIR_def)
  then show ?thesis using assms by (simp add: drm_open_def)
qed

text \<open>
  When the stale descriptor is the one that \<open>open\<close> has meanwhile given to the control file of the fan,
  releasing the card closes that file first: the fan stays in manual mode.
\<close>

lemma release_stale:
  assumes "hw_fd h \<noteq> - 1"
  shows "fs_files (snd (fanctrl_release k s h (Some (hw_fd h)))) = fs_files s"
    "fst (fanctrl_release k s h (Some (hw_fd h))) \<noteq> 0"
  using assms
  by (auto simp: fanctrl_release_def drm_close_def hwmon_close_def fdwrite_ulong_def fdclose_excl_def sys_close_def Let_def
      split: prod.splits)

section \<open>What opening the card changes\<close>

lemma drm_open_frame:
  assumes "drm_open e s drm_fd idx = Some (r, s', drm_fd')"
  shows "fs_files s' = fs_files s" "fs_dirs s' = fs_dirs s" "fs_sockets s' = fs_sockets s"
    "drm_fd' = drm_fd \<and> s' = s \<or> drm_fd' = dr_newfd e \<and> r = drm_fd' \<and>
       (if drm_fd' = - 1 then s' = s else \<exists>path. fs_fds s' = (fs_fds s)(drm_fd' \<mapsto> path))"
    "0 \<le> r \<Longrightarrow> r = drm_fd'"
  using assms by (auto simp: drm_open_def Let_def split: option.splits prod.splits if_splits)

lemma fanctrl_init_cases:
  assumes "fanctrl_init e de s h drm = Some (r, s', h', drm')" "0 \<le> r"
  obtains idx s1 where "hwmon_open e s h = Some (idx, s1, h')" "0 \<le> idx" "drm = None" "drm' = None" "s' = s1" "r = 0"
  | idx s1 fd fd' where "hwmon_open e s h = Some (idx, s1, h')" "0 \<le> idx" "drm = Some fd" "drm' = Some fd'"
      "drm_open de s1 fd (word_of_int idx) = Some (r, s', fd')"
  using assms by (cases drm) (auto simp: fanctrl_init_def split: option.splits prod.splits if_splits)

lemma fanctrl_init_no_drm:
  "fanctrl_init e de s h None =
     (case hwmon_open e s h of None \<Rightarrow> None | Some (idx, s1, h1) \<Rightarrow> Some (if idx < 0 then idx else 0, s1, h1, None))"
  by (simp add: fanctrl_init_def split: option.split)

lemma fanctrl_release_no_drm [simp]: "fanctrl_release k s h None = hwmon_close k s h"
  by (simp add: fanctrl_release_def)

end
