(* ===== verification/Server.thy ===== *)
theory Server
  imports Messages Config Drm
begin

text \<open>
  \<^verbatim>\<open>src/fand/server.c\<close>: the daemon's control socket.

  What the kernel does is an argument: the outcome of \<open>recv\<close>, \<open>getsockopt\<close>, \<open>send\<close>, \<open>poll\<close>,
  \<open>accept\<close> and \<open>fork\<close>.  The credentials are the user id of the peer or an \<open>errno\<close>.  What
  \<open>fanctrl_get_speed\<close> and \<open>fanctrl_get_temp\<close> return is the record \<open>sensors\<close> of theory \<open>Drm\<close>.  \<open>fork\<close> makes two processes: \<open>server_poll\<close> returns the
  result of the parent and, when there is one, the exit code and the response of the child.
  \<^term>\<open>None\<close> is undefined behaviour.
\<close>

section \<open>One request\<close>

abbreviation (input) FAND_SERVER_EXIT :: int where "FAND_SERVER_EXIT \<equiv> 3"

datatype recv_result = Recv_error | Recv_closed | Received ipc_request

record srv_env =
  se_recv :: recv_result
  se_peercred :: "int + nat"
  se_send_fails :: bool

definition server_validate_request :: "int + nat \<Rightarrow> ipc_request \<Rightarrow> int" where
  "server_validate_request creds request =
     (if \<not> list_ex (\<lambda>r. request = r) ipc_valid_requests then EINVAL
      else if request < ipc_req_unprivileged
      then (case creds of Inl err \<Rightarrow> err | Inr uid \<Rightarrow> if uid \<noteq> 0 then EACCES else 0)
      else 0)"

definition server_pack_result ::
    "sensors \<Rightarrow> byte list \<Rightarrow> nat \<Rightarrow> ipc_request \<Rightarrow> (int \<times> byte list) option" where
  "server_pack_result sn buffer bufsize request =
     (case (if request = ipc_req_speed then get_speed sn
            else if request = ipc_req_temp then Some (get_temp sn)
            else Some (- 1)) of
        None \<Rightarrow> None
      | Some rspval \<Rightarrow>
          if rspval < 0 then pack_error buffer bufsize EAGAIN
          else if request = ipc_req_speed then pack_speed buffer bufsize rspval
          else pack_temp buffer bufsize rspval)"

text \<open>The exit code and the bytes that were sent.\<close>

definition server_recv_and_respond ::
    "srv_env \<Rightarrow> sensors \<Rightarrow> byte list \<Rightarrow> fand_config \<Rightarrow> (int \<times> byte list option) option" where
  "server_recv_and_respond e sn buffer config =
     (case se_recv e of
        Recv_error \<Rightarrow> Some (1, None)
      | Recv_closed \<Rightarrow> Some (1, None)
      | Received request \<Rightarrow>
          let status = server_validate_request (se_peercred e) request;
              exitcode = (if status = 0 \<and> request = ipc_req_exit then FAND_SERVER_EXIT else 0) in
          case (if status \<noteq> 0 then pack_error buffer IPC_MAX_MSG_LENGTH status
                else if request = ipc_req_exit then pack_exit_rsp buffer IPC_MAX_MSG_LENGTH
                else if request = ipc_req_speed then server_pack_result sn buffer IPC_MAX_MSG_LENGTH request
                else if request = ipc_req_temp then server_pack_result sn buffer IPC_MAX_MSG_LENGTH request
                else if request = ipc_req_matrix
                then pack_matrix buffer IPC_MAX_MSG_LENGTH (cfg_matrix config) (cfg_matrix_rows config)
                else pack_error buffer IPC_MAX_MSG_LENGTH EINVAL) of
            None \<Rightarrow> None
          | Some (rsplen, buffer') \<Rightarrow>
              if rsplen < 0 then Some (exitcode OR 1, None)
              else if se_send_fails e then Some (exitcode OR 1, None)
              else Some (exitcode, Some (take (nat rsplen) buffer')))"

section \<open>The socket\<close>

definition DAEMON_WORKING_DIR :: string where
  "DAEMON_WORKING_DIR = ''/var/run/amdgpu-fand''"

definition DAEMON_SERVER_SOCKET :: string where
  "DAEMON_SERVER_SOCKET = DAEMON_WORKING_DIR @ ''/fand.sock''"

definition put_socket :: "fs \<Rightarrow> string \<Rightarrow> bool \<Rightarrow> fs" where
  "put_socket s path b = s\<lparr>fs_sockets := (fs_sockets s)(path := b)\<rparr>"

text \<open>\<open>unlink\<close> removes a regular file or a socket.\<close>

definition unlink :: "fs \<Rightarrow> string \<Rightarrow> int \<times> fs" where
  "unlink s path =
     (if fs_files s path \<noteq> None \<or> fs_sockets s path
      then (0, s\<lparr>fs_files := (fs_files s)(path := None), fs_sockets := (fs_sockets s)(path := False)\<rparr>)
      else (- 1, s))"

lemma socket_path_fits:
  "strscpy (replicate 108 NUL) DAEMON_SERVER_SOCKET 108 = Some (30, DAEMON_SERVER_SOCKET @ NUL # replicate 77 NUL)"
  using strscpy_fits [of DAEMON_SERVER_SOCKET 108 "replicate 108 NUL"]
  by (simp add: DAEMON_SERVER_SOCKET_def DAEMON_WORKING_DIR_def)

record sock_env =
  so_fd :: int
  so_bind_fails :: bool
  so_chmod_fails :: bool
  so_listen_fails :: bool

text \<open>The status, the file system and the descriptor in \<open>pollfd\<close>; test builds use another path.  \<open>bind\<close> refuses a path that exists.\<close>

definition server_init_at :: "string \<Rightarrow> sock_env \<Rightarrow> fs \<Rightarrow> int \<Rightarrow> (int \<times> fs \<times> int) option" where
  "server_init_at socket_path e s pollfd =
     (let srvfd = so_fd e in
      if srvfd = - 1 then Some (- 1, s, pollfd)
      else let s1 = s\<lparr>fs_fds := (fs_fds s)(srvfd \<mapsto> ''socket'')\<rparr> in
        case strscpy (replicate 108 NUL) socket_path 108 of
          None \<Rightarrow> None
        | Some (r, path) \<Rightarrow>
            if r < 0 then Some (- 1, snd (sys_close s1 srvfd), pollfd)
            else if so_bind_fails e \<or> path_exists s1 (cstr path) then Some (- 1, snd (sys_close s1 srvfd), pollfd)
            else let s2 = put_socket s1 (cstr path) True in
              if so_chmod_fails e \<or> so_listen_fails e
              then Some (- 1, snd (sys_close (snd (unlink s2 socket_path)) srvfd), pollfd)
              else Some (0, s2, srvfd))"

definition server_init :: "sock_env \<Rightarrow> fs \<Rightarrow> int \<Rightarrow> (int \<times> fs \<times> int) option" where
  "server_init = server_init_at DAEMON_SERVER_SOCKET"

definition server_kill_at :: "string \<Rightarrow> fs \<Rightarrow> int \<Rightarrow> int \<times> fs" where
  "server_kill_at socket_path s pollfd =
     (case sys_close s pollfd of (r, s1) \<Rightarrow>
      case unlink s1 socket_path of (r', s2) \<Rightarrow> (if r = - 1 \<or> r' = - 1 then - 1 else 0, s2))"

definition server_kill :: "fs \<Rightarrow> int \<Rightarrow> int \<times> fs" where
  "server_kill = server_kill_at DAEMON_SERVER_SOCKET"

datatype poll_result = Poll_error bool | Poll_timeout | Poll_ready

record poll_env =
  pe_poll :: "int \<Rightarrow> poll_result"
  pe_newfd :: int
  pe_fork_fails :: bool
  pe_child :: srv_env

text \<open>
  \<open>poll\<close> waits at most the interval of the configuration, in milliseconds; \<open>Poll_error True\<close> is an
  interrupted call.  The result is the status and the file system of the
  parent, and what the child returned.
\<close>

definition server_poll ::
    "poll_env \<Rightarrow> sensors \<Rightarrow> fs \<Rightarrow> byte list \<Rightarrow> fand_config \<Rightarrow> int \<times> fs \<times> (int \<times> byte list option) option option" where
  "server_poll e sn s buffer config =
     (case pe_poll e (uint (cfg_interval config) * 1000) of
        Poll_error eintr \<Rightarrow> (if eintr then 0 else - 1, s, None)
      | Poll_timeout \<Rightarrow> (0, s, None)
      | Poll_ready \<Rightarrow>
          if pe_newfd e = - 1 then (- 1, s, None)
          else let s1 = s\<lparr>fs_fds := (fs_fds s)(pe_newfd e \<mapsto> ''connection'')\<rparr> in
            if pe_fork_fails e then (- 1, s1, None)
            else (0, snd (sys_close s1 (pe_newfd e)), Some (server_recv_and_respond (pe_child e) sn buffer config)))"

section \<open>Responses\<close>

lemma get_speed_bounds:
  assumes "0 \<le> p" "p \<le> 255"
  shows "\<exists>v. fanctrl_get_speed p = Some v \<and> 0 \<le> v \<and> v \<le> 100"
proof -
  have "lerp_inverse PWM_MIN PWM_MAX (word_of_int p) = Some (fraction 0 255 (nat p))"
    using lerp_inverse_fraction [of 0 "nat p" 255] assms by simp
  then have eq: "fanctrl_get_speed p = Some \<lfloor>float_round (100 * fraction 0 255 (nat p))\<rfloor>"
    using assms by (simp add: fanctrl_get_speed_def)
  have q: "0 \<le> fraction 0 255 (nat p)" "fraction 0 255 (nat p) \<le> 1"
    using fraction_bounds [of 0 "nat p" 255] assms by simp_all
  have r: "float_round 100 = 100" "float_round 0 = 0"
    using float_round_exact [of 100 0] float_round_exact [of 0 0] by simp_all
  have "0 \<le> float_round (100 * fraction 0 255 (nat p))"
    using float_round_mono [of 0 "100 * fraction 0 255 (nat p)"] q r by simp
  moreover have "float_round (100 * fraction 0 255 (nat p)) \<le> 100"
    using float_round_mono [of "100 * fraction 0 255 (nat p)" 100] q r by simp
  ultimately show ?thesis unfolding eq by (simp add: floor_le_iff)
qed

text \<open>A response: its length, a status and what it carries.\<close>

definition well_formed_response :: "byte list \<Rightarrow> bool" where
  "well_formed_response bs \<longleftrightarrow> 2 \<le> length bs \<and> length bs \<le> IPC_MAX_MSG_LENGTH \<and> bs ! 0 = of_nat (length bs) \<and>
     (bs ! 1 = ipc_rsp_ok \<or> bs ! 1 = ipc_rsp_err \<and> length bs = 6)"

definition packs :: "(int \<times> byte list) option \<Rightarrow> bool" where
  "packs r \<longleftrightarrow> (\<exists>n b. r = Some (n, b) \<and> 0 \<le> n \<and> well_formed_response (take (nat n) b))"

lemma packs_int:
  assumes "length buffer = 48"
  shows "packs (pack_error buffer 48 v)" "packs (pack_speed buffer 48 v)" "packs (pack_temp buffer 48 v)"
  using assms
  by (simp_all add: packs_def pack_error_def pack_speed_def pack_temp_def pack_int_wire well_formed_response_def ipc_codes)

lemma packs_exit: "length buffer = 48 \<Longrightarrow> packs (pack_exit_rsp buffer 48)"
  by (simp add: packs_def pack_exit_wire well_formed_response_def ipc_codes)

lemma packs_matrix:
  assumes "length buffer = 48" "valid_config config" "0 < nrows config"
  shows "packs (pack_matrix buffer 48 (cfg_matrix config) (cfg_matrix_rows config))"
proof -
  define n where "n = unat (cfg_matrix_rows config)"
  have n: "0 < n" "n < 16" "length (cfg_matrix config) = 32" using assms(2,3) by (simp_all add: valid_config_def nrows_def n_def)
  have "pack_matrix buffer 48 (cfg_matrix config) (cfg_matrix_rows config) =
      Some (3 + 2 * int n, [of_nat (3 + 2 * n), 0, cfg_matrix_rows config] @ take (2 * n) (cfg_matrix config) @ drop (3 + 2 * n) buffer)"
    unfolding n_def using n assms(1) by (intro pack_matrix_wire) (simp_all add: n_def)
  moreover have "nat (3 + 2 * int n) = 3 + 2 * n" by simp
  ultimately show ?thesis using n by (simp add: packs_def well_formed_response_def ipc_codes)
qed

lemma packs_result:
  assumes "length buffer = 48" "get_speed sn \<noteq> None"
  shows "packs (server_pack_result sn buffer 48 request)"
  using packs_int [OF assms(1)] assms(2) by (auto simp: server_pack_result_def)

text \<open>The speed of a fan whose file holds at most 255 can be computed.\<close>

lemma sensors_speed:
  assumes "hwmon_read_pwm k s h \<le> 255"
  shows "get_speed (fanctrl_sensors k src s h) \<noteq> None"
  using get_speed_bounds [of "hwmon_read_pwm k s h"] assms
  by (cases "0 \<le> hwmon_read_pwm k s h") (auto simp: fanctrl_sensors_def fanctrl_get_speed_def)

lemma server_cases:
  assumes "length buffer = 48" "valid_config config" "0 < nrows config" "get_speed sn \<noteq> None" "se_recv e = Received request"
  shows "\<exists>n b. server_recv_and_respond e sn buffer config =
      Some ((if server_validate_request (se_peercred e) request = 0 \<and> request = ipc_req_exit then FAND_SERVER_EXIT else 0) OR
              (if se_send_fails e then 1 else 0), if se_send_fails e then None else Some (take n b)) \<and>
    well_formed_response (take n b)"
proof -
  note p = packs_int [OF assms(1)] packs_exit [OF assms(1)] packs_matrix [OF assms(1-3)] packs_result [OF assms(1,4)]
  define r where "r = (let status = server_validate_request (se_peercred e) request in
    if status \<noteq> 0 then pack_error buffer IPC_MAX_MSG_LENGTH status
    else if request = ipc_req_exit then pack_exit_rsp buffer IPC_MAX_MSG_LENGTH
    else if request = ipc_req_speed then server_pack_result sn buffer IPC_MAX_MSG_LENGTH request
    else if request = ipc_req_temp then server_pack_result sn buffer IPC_MAX_MSG_LENGTH request
    else if request = ipc_req_matrix then pack_matrix buffer IPC_MAX_MSG_LENGTH (cfg_matrix config) (cfg_matrix_rows config)
    else pack_error buffer IPC_MAX_MSG_LENGTH EINVAL)"
  have "packs r" unfolding r_def Let_def using p by simp
  then obtain n b where "r = Some (n, b)" "0 \<le> n" "well_formed_response (take (nat n) b)" by (auto simp: packs_def)
  then show ?thesis
    unfolding r_def server_recv_and_respond_def assms(5) recv_result.case Let_def by (intro exI [of _ "nat n"] exI [of _ b]) simp
qed

lemma validate_exit:
  assumes "creds \<noteq> Inl 0"
  shows "server_validate_request creds ipc_req_exit = 0 \<longleftrightarrow> creds = Inr 0"
  using assms by (auto simp: server_validate_request_def ipc_valid_requests_def ipc_codes split: sum.splits)

lemma validate_get:
  "server_validate_request creds ipc_req_speed = 0" "server_validate_request creds ipc_req_temp = 0"
  "server_validate_request creds ipc_req_matrix = 0"
  by (simp_all add: server_validate_request_def ipc_valid_requests_def ipc_codes)

text \<open>An example: a request of root, with sensor files that hold no number.\<close>

definition example_request :: "ipc_request \<Rightarrow> nat \<Rightarrow> srv_env" where
  "example_request request uid = \<lparr>se_recv = Received request, se_peercred = Inr uid, se_send_fails = False\<rparr>"

definition two_rows :: fand_config where
  "two_rows = no_config\<lparr>cfg_matrix := [50, 5, 60, 20] @ replicate 28 0, cfg_matrix_rows := 2\<rparr>"

lemma two_rows_ok: "valid_config two_rows" "0 < nrows two_rows"
proof -
  have "row_speed two_rows i \<le> 100" if "i < 2" for i
  proof -
    have "i = 0 \<or> i = 1" using that by auto
    then show ?thesis by (auto simp: two_rows_def row_speed_def)
  qed
  then show "valid_config two_rows" by (simp add: valid_config_def nrows_def two_rows_def)
  show "0 < nrows two_rows" by (simp add: nrows_def two_rows_def)
qed

lemma no_files_pwm: "hwmon_read_pwm k no_files h \<le> 255"
  by (auto simp: hwmon_read_pwm_def fread_ulong_excl_def fopen_excl_def fopen_def no_files_def c_int_def split: option.splits)

definition no_sensors :: sensors where
  "no_sensors = fanctrl_sensors (io_ok 7) (Hwmon_source (io_ok 7)) no_files example_hwmon"

lemma no_sensors_speed: "get_speed no_sensors \<noteq> None"
  unfolding no_sensors_def by (rule sensors_speed [OF no_files_pwm])

section \<open>Properties\<close>

text \<open>
  C12: the server answers every request it receives with one well-formed response.  For every request
  byte, valid or not, from every user, with any outcome of the sensor reads, the forked server does not
  run into undefined behaviour and, unless \<open>send\<close> fails, sends one message of at most 48 bytes that
  starts with its own length and a status byte; only then is the exit code 0 or 3.
\<close>

theorem server_answers:
  assumes "length buffer = IPC_MAX_MSG_LENGTH" and "valid_config config" and "0 < nrows config"
    and "hwmon_read_pwm k s h \<le> 255" and "se_recv e = Received request" and "sn = fanctrl_sensors k src s h"
  shows "\<exists>code sent. server_recv_and_respond e sn buffer config = Some (code, sent) \<and>
    (se_send_fails e \<longrightarrow> sent = None \<and> code \<in> {1, FAND_SERVER_EXIT}) \<and>
    (\<not> se_send_fails e \<longrightarrow> code \<in> {0, FAND_SERVER_EXIT} \<and> (\<exists>bs. sent = Some bs \<and> 2 \<le> length bs \<and>
       length bs \<le> IPC_MAX_MSG_LENGTH \<and> bs ! 0 = of_nat (length bs) \<and> (bs ! 1 = ipc_rsp_ok \<or> bs ! 1 = ipc_rsp_err)))"
  using server_cases [OF assms(1-3) _ assms(5), of sn] sensors_speed [OF assms(4)] assms(6) by (auto simp: well_formed_response_def)

theorem server_answers_witness:
  "\<exists>code sent. server_recv_and_respond (example_request 77 1000) no_sensors (replicate 48 0) two_rows = Some (code, sent) \<and>
     code \<in> {0, FAND_SERVER_EXIT} \<and> sent \<noteq> None"
  using server_answers [of "replicate 48 0", OF _ two_rows_ok no_files_pwm _ no_sensors_def, of "example_request 77 1000" 77]
  by (auto simp: example_request_def)

text \<open>
  C13: only the administrator can stop the daemon.  The child that serves a connection exits with the
  code that makes the daemon terminate if and only if it received the exit request and the kernel
  reported user id 0 for the peer; a failing \<open>getsockopt\<close> (whose \<open>errno\<close> is not 0) denies it.  This
  holds for every configuration and also when the response cannot be packed or sent.
\<close>

theorem server_exit_needs_root:
  assumes "server_recv_and_respond e sn buffer config = Some (code, sent)" and "se_peercred e \<noteq> Inl 0"
  shows "code = FAND_SERVER_EXIT \<longleftrightarrow> se_recv e = Received ipc_req_exit \<and> se_peercred e = Inr 0"
proof (cases "se_recv e")
  case (Received request)
  have "code = (if server_validate_request (se_peercred e) request = 0 \<and> request = ipc_req_exit then 3 else 0) \<or>
      code = (if server_validate_request (se_peercred e) request = 0 \<and> request = ipc_req_exit then 3 else 0) OR 1"
    using assms(1) Received unfolding server_recv_and_respond_def Let_def
    by (auto split: option.splits if_splits)
  then show ?thesis using Received validate_exit [OF assms(2)] by (auto split: if_splits)
qed (use assms(1) in \<open>auto simp: server_recv_and_respond_def\<close>)

theorem server_exit_needs_root_witness:
  "\<exists>sent. server_recv_and_respond (example_request ipc_req_exit 0) no_sensors (replicate 48 0) two_rows = Some (3, sent)"
proof -
  obtain code sent where
    r: "server_recv_and_respond (example_request ipc_req_exit 0) no_sensors (replicate 48 0) two_rows = Some (code, sent)"
    using server_cases [OF _ two_rows_ok no_sensors_speed, of "replicate 48 0" "example_request ipc_req_exit 0" ipc_req_exit]
    by (auto simp: example_request_def)
  from server_exit_needs_root [OF r] r show ?thesis by (simp add: example_request_def)
qed

text \<open>
  The life of the socket.  A successful \<open>server_init\<close> leaves the socket of the daemon in the file
  system and its descriptor in \<open>pollfd\<close>, open.  A failing one leaves files, directories, sockets and
  descriptors as they were; in particular it fails without effect when the socket of another
  instance exists.  \<open>server_kill\<close> on a state in which the socket is still there removes it, closes the
  descriptor and returns 0.
\<close>

theorem server_socket_lifecycle:
  assumes "fs_fds s (so_fd e) = None"
  shows "\<exists>status s' fd. server_init e s pollfd = Some (status, s', fd) \<and>
    (status = 0 \<longrightarrow> fs_sockets s' DAEMON_SERVER_SOCKET \<and> fs_fds s' fd \<noteq> None \<and> fs_files s' = fs_files s \<and>
       \<not> path_exists s DAEMON_SERVER_SOCKET) \<and>
    (status \<noteq> 0 \<longrightarrow> s' = s \<and> fd = pollfd) \<and>
    (path_exists s DAEMON_SERVER_SOCKET \<longrightarrow> status \<noteq> 0) \<and>
    (\<forall>s2. fs_sockets s2 DAEMON_SERVER_SOCKET \<and> fs_files s2 DAEMON_SERVER_SOCKET = None \<and> fs_fds s2 fd \<noteq> None \<longrightarrow>
       (\<exists>s3. server_kill s2 fd = (0, s3) \<and> \<not> fs_sockets s3 DAEMON_SERVER_SOCKET \<and> fs_fds s3 fd = None \<and> fs_files s3 = fs_files s2))"
proof -
  have path: "cstr (DAEMON_SERVER_SOCKET @ NUL # x) = DAEMON_SERVER_SOCKET" for x
    by (simp add: DAEMON_SERVER_SOCKET_def DAEMON_WORKING_DIR_def cstr_def)
  have undo: "s\<lparr>fs_fds := (fs_fds s)(so_fd e := None)\<rparr> = s" using assms by (simp add: fun_upd_idem)
  have kill: "\<exists>s3. server_kill s2 fd = (0, s3) \<and> \<not> fs_sockets s3 DAEMON_SERVER_SOCKET \<and> fs_fds s3 fd = None \<and> fs_files s3 = fs_files s2"
    if "fs_sockets s2 DAEMON_SERVER_SOCKET \<and> fs_files s2 DAEMON_SERVER_SOCKET = None \<and> fs_fds s2 fd \<noteq> None" for s2 fd
    using that by (simp add: server_kill_def server_kill_at_def sys_close_def unlink_def fun_upd_idem)
  show ?thesis
  proof (cases "so_fd e = - 1 \<or> so_bind_fails e \<or> path_exists s DAEMON_SERVER_SOCKET")
    case True
    then show ?thesis using kill undo
      by (auto simp: server_init_def server_init_at_def socket_path_fits path Let_def sys_close_def path_exists_def)
  next
    case False
    then have "put_socket (s\<lparr>fs_fds := (fs_fds s)(so_fd e \<mapsto> x)\<rparr>) DAEMON_SERVER_SOCKET True =
        s\<lparr>fs_fds := (fs_fds s)(so_fd e \<mapsto> x), fs_sockets := (fs_sockets s)(DAEMON_SERVER_SOCKET := True)\<rparr>" for x
      by (simp add: put_socket_def)
    moreover have "(fs_sockets s)(DAEMON_SERVER_SOCKET := False) = fs_sockets s" "fs_files s DAEMON_SERVER_SOCKET = None"
      using False by (auto simp: path_exists_def fun_eq_iff)
    ultimately show ?thesis using False kill undo
      by (auto simp: server_init_def server_init_at_def socket_path_fits path Let_def sys_close_def path_exists_def unlink_def put_socket_def fun_upd_idem)
  qed
qed

definition example_socket :: sock_env where
  "example_socket = \<lparr>so_fd = 4, so_bind_fails = False, so_chmod_fails = False, so_listen_fails = True\<rparr>"

theorem server_socket_lifecycle_witness:
  "\<exists>status s' fd. server_init example_socket no_files 0 = Some (status, s', fd) \<and> (status \<noteq> 0 \<longrightarrow> s' = no_files \<and> fd = 0)"
  using server_socket_lifecycle [of no_files example_socket 0] by (auto simp: no_files_def)

text \<open>
  Descriptors of connections.  Whatever happens in one call of \<open>server_poll\<close>, the daemon itself
  keeps no descriptor of a connection open, with one exception: when \<open>fork\<close> fails the accepted
  connection is never closed.
\<close>

theorem server_poll_descriptors:
  assumes "fs_fds s (pe_newfd e) = None" and "server_poll e sn s buffer config = (status, s', child)"
  shows "fs_files s' = fs_files s \<and> fs_sockets s' = fs_sockets s \<and>
    (fs_fds s' = fs_fds s \<or> pe_fork_fails e \<and> status = - 1 \<and> child = None \<and> fs_fds s' (pe_newfd e) \<noteq> None) \<and>
    (pe_poll e (uint (cfg_interval config) * 1000) = Poll_ready \<and> pe_newfd e \<noteq> - 1 \<and> pe_fork_fails e \<longrightarrow> fs_fds s' (pe_newfd e) \<noteq> None)"
  using assms by (auto simp: server_poll_def Let_def sys_close_def fun_upd_idem split: poll_result.splits if_splits)

theorem server_poll_descriptors_witness:
  "fs_fds (fst (snd (server_poll \<lparr>pe_poll = (\<lambda>_. Poll_ready), pe_newfd = 9, pe_fork_fails = True, pe_child = example_request 33 0\<rparr>
     no_sensors no_files [] no_config))) 9 \<noteq> None"
proof -
  define e where "e = \<lparr>pe_poll = (\<lambda>_. Poll_ready), pe_newfd = 9, pe_fork_fails = True, pe_child = example_request 33 0\<rparr>"
  obtain status s' child where r: "server_poll e no_sensors no_files [] no_config = (status, s', child)" by (metis prod.exhaust)
  have "fs_fds no_files (pe_newfd e) = None" by (simp add: no_files_def)
  from server_poll_descriptors [OF this r] have "fs_fds s' 9 \<noteq> None" by (simp add: e_def)
  with r show ?thesis unfolding e_def by simp
qed

end
