(* ===== verification/Pidfile.thy ===== *)
theory Pidfile
  imports Server
begin

text \<open>
  \<^verbatim>\<open>src/fand/pidfile.c\<close>: the file that holds the process id of the running daemon.

  The failures of the system calls, the process id and the number of bytes that \<open>write\<close> accepts are
  arguments, and so is the content of the uninitialised stack buffer that \<open>read\<close> fills in part.
  \<^term>\<open>None\<close> is undefined behaviour: \<open>strtoul\<close> running past the end of that buffer.
\<close>

definition FAND_PIDFILE_PATH :: string where
  "FAND_PIDFILE_PATH = ''/var/run/amdgpu-fand/pid''"

abbreviation (input) PIDBUF_SIZE :: nat where "PIDBUF_SIZE \<equiv> 32"

record pid_env =
  pi_open_fails :: bool
  pi_reopen_fails :: bool
  pi_read_fails :: bool
  pi_buffer :: "char list"
  pi_pid :: int
  pi_nwritten :: int
  pi_chmod_fails :: bool

definition pidfile_get_existing :: "pid_env \<Rightarrow> fs \<Rightarrow> int option" where
  "pidfile_get_existing e s =
     (case fs_files s FAND_PIDFILE_PATH of
        None \<Rightarrow> Some (- 1)
      | Some content \<Rightarrow>
          if pi_reopen_fails e then Some (- 1)
          else if pi_read_fails e then Some (- 1)
          else let buffer = overwrite (pi_buffer e) 0 (take PIDBUF_SIZE (chars content)) in
            if strtoul_overruns buffer then None
            else let pid = c_int (fst (strtoul buffer)) in Some (if pid = 0 then - 1 else pid))"

definition pidfile_write :: "pid_env \<Rightarrow> fs \<Rightarrow> (int \<times> fs) option" where
  "pidfile_write e s =
     (if path_exists s FAND_PIDFILE_PATH
      then (case pidfile_get_existing e s of None \<Rightarrow> None | Some _ \<Rightarrow> Some (- 1, s))
      else if pi_open_fails e then Some (- 1, s)
      else let s1 = put_file s FAND_PIDFILE_PATH [];
               buffer = print_int (pi_pid e) @ [newline_char] in
        if length buffer \<ge> PIDBUF_SIZE then Some (- 1, s1)
        else if pi_nwritten e = - 1 then Some (- 1, s1)
        else let s2 = put_file s1 FAND_PIDFILE_PATH (bytes (take (nat (pi_nwritten e)) buffer)) in
          if pi_nwritten e \<noteq> int (length buffer) then Some (- 1, s2)
          else if pi_chmod_fails e then Some (- 1, s2)
          else Some (0, s2))"

definition pidfile_unlink :: "fs \<Rightarrow> int \<times> fs" where
  "pidfile_unlink s = (case unlink s FAND_PIDFILE_PATH of (r, s') \<Rightarrow> (if r = - 1 then - 1 else 0, s'))"

lemma print_pid_length: "0 \<le> pid \<Longrightarrow> pid < 2 ^ 31 \<Longrightarrow> length (print_int pid) \<le> 10"
  using length_print_nat [of "nat pid" 9] by (simp add: print_int_def)

lemma strtoul_line:
  assumes "0 \<le> pid" "pid < 2 ^ 31"
  shows "\<not> strtoul_overruns (print_int pid @ newline_char # rest)"
    "fst (strtoul (print_int pid @ newline_char # rest)) = word_of_int pid"
proof -
  define ds where "ds = print_nat (nat pid)"
  have ds: "ds \<noteq> []" "\<forall>c \<in> set ds. isdigit c" "digits_val ds = nat pid" "print_int pid = ds"
    using assms digits_print_nat by (simp_all add: ds_def digits_val_print_nat print_int_def)
  have nl: "\<not> isdigit newline_char" by (simp add: isdigit_def)
  obtain c cs where c: "ds = c # cs" using ds(1) by (cases ds) auto
  with ds(2) isdigit_not_sign [of c] have first: "isdigit c" "\<not> isspace c" "c \<noteq> CHR ''-''" "c \<noteq> CHR ''+''" by auto
  have span: "takeWhile isdigit (ds @ newline_char # rest) = ds" "dropWhile isdigit (ds @ newline_char # rest) = newline_char # rest"
    using ds(2) nl by (simp_all add: takeWhile_append2 dropWhile_append2)
  have start: "dropWhile isspace (ds @ newline_char # rest) = ds @ newline_char # rest"
    "hd (ds @ newline_char # rest) = c" using first by (simp_all add: c)
  show "\<not> strtoul_overruns (print_int pid @ newline_char # rest)"
    unfolding strtoul_overruns_def Let_def ds(4) start using first span by simp
  have "nat pid < 2 ^ 64" using assms by simp
  then show "fst (strtoul (print_int pid @ newline_char # rest)) = word_of_int pid"
    unfolding strtoul_def Let_def ds(4) start using first span ds assms(1) by simp
qed

lemma get_existing_line:
  assumes "fs_files s FAND_PIDFILE_PATH = Some (bytes (print_int pid @ [newline_char]))" "0 < pid" "pid < 2 ^ 31"
  shows "pidfile_get_existing e s = Some (if pi_reopen_fails e \<or> pi_read_fails e then - 1 else pid)"
proof -
  have "take 32 (print_int pid @ [newline_char]) = print_int pid @ [newline_char]"
    using print_pid_length [of pid] assms by simp
  moreover have "c_int (word_of_int pid :: u64) = pid"
    using c_int_of_nat_small [of "nat pid", where 'a = 64] assms(2,3) by simp
  ultimately show ?thesis
    using assms strtoul_line [of pid] by (simp add: pidfile_get_existing_def overwrite_0 Let_def)
qed

section \<open>Properties\<close>

text \<open>
  C39: the pid file.  A daemon that finds no such file writes its process id there; from then on every
  other daemon is refused without changing anything, and reads back exactly the process id of the first
  one, whatever its uninitialised stack buffer holds, or -1 when it cannot read the file.  Removing the
  file restores the state before.
\<close>

theorem pidfile_lifecycle:
  assumes "\<not> path_exists s FAND_PIDFILE_PATH" and "0 < pi_pid e" and "pi_pid e < 2 ^ 31"
    and "\<not> pi_open_fails e" and "\<not> pi_chmod_fails e" and "pi_nwritten e = int (length (print_int (pi_pid e))) + 1"
  shows "\<exists>s'. pidfile_write e s = Some (0, s') \<and> fs_files s' FAND_PIDFILE_PATH \<noteq> None \<and>
    (\<forall>e'. pidfile_write e' s' = Some (- 1, s') \<and>
       pidfile_get_existing e' s' = Some (if pi_reopen_fails e' \<or> pi_read_fails e' then - 1 else pi_pid e)) \<and>
    pidfile_unlink s' = (0, s)"
proof -
  let ?s' = "put_file s FAND_PIDFILE_PATH (bytes (print_int (pi_pid e) @ [newline_char]))"
  have w: "pidfile_write e s = Some (0, ?s')"
    using assms print_pid_length [of "pi_pid e"] by (simp add: pidfile_write_def Let_def put_file_def nat_add_distrib)
  have get: "pidfile_get_existing e' ?s' = Some (if pi_reopen_fails e' \<or> pi_read_fails e' then - 1 else pi_pid e)" for e'
    using get_existing_line [of ?s' "pi_pid e" e'] assms(2,3) by (simp add: put_file_def)
  have ex: "path_exists ?s' FAND_PIDFILE_PATH" by (simp add: path_exists_def put_file_def)
  have "pidfile_write e' ?s' = Some (- 1, ?s')" for e'
    unfolding pidfile_write_def get using ex by simp
  moreover have "pidfile_unlink ?s' = (0, s)"
    using assms(1) by (simp add: pidfile_unlink_def unlink_def put_file_def path_exists_def fun_upd_idem)
  ultimately show ?thesis using w get by (auto simp: put_file_def)
qed

definition example_pid :: pid_env where
  "example_pid = \<lparr>pi_open_fails = False, pi_reopen_fails = False, pi_read_fails = False,
     pi_buffer = replicate 32 CHR ''7'', pi_pid = 42, pi_nwritten = 3, pi_chmod_fails = False\<rparr>"

lemma print_example_pid: "print_int 42 = ''42''"
  by code_simp

theorem pidfile_lifecycle_witness:
  "\<exists>s'. pidfile_write example_pid no_files = Some (0, s') \<and> pidfile_get_existing example_pid s' = Some 42"
  using pidfile_lifecycle [of no_files example_pid] print_example_pid
  by (auto simp: example_pid_def no_files_def path_exists_def)

end
