(* ===== verification/Interleaving.thy ===== *)
theory Interleaving
  imports Main
begin

text \<open>
  Runs of a program that is interrupted: steps of the program, which are counted, and steps of its
  environment in between.  The locale is the contract under which such a program keeps an invariant and
  stops: the invariant survives both kinds of steps, and once the program is stopping, each of its own
  steps brings it closer to the end and the environment cannot delay it.
\<close>

inductive interleaved :: "('s \<Rightarrow> 's \<Rightarrow> bool) \<Rightarrow> ('s \<Rightarrow> 's \<Rightarrow> bool) \<Rightarrow> nat \<Rightarrow> 's \<Rightarrow> 's \<Rightarrow> bool"
  for prog env :: "'s \<Rightarrow> 's \<Rightarrow> bool" where
  start: "interleaved prog env 0 x x"
| program: "interleaved prog env n x y \<Longrightarrow> prog y z \<Longrightarrow> interleaved prog env (Suc n) x z"
| environment: "interleaved prog env n x y \<Longrightarrow> env y z \<Longrightarrow> interleaved prog env n x z"

locale interrupted_program =
  fixes prog env :: "'s \<Rightarrow> 's \<Rightarrow> bool" and inv stopping :: "'s \<Rightarrow> bool" and steps_left :: "'s \<Rightarrow> nat"
  assumes prog_inv: "prog x y \<Longrightarrow> inv x \<Longrightarrow> inv y"
    and env_inv: "env x y \<Longrightarrow> inv x \<Longrightarrow> inv y"
    and prog_stopping: "prog x y \<Longrightarrow> stopping x \<Longrightarrow> stopping y \<and> steps_left y < steps_left x"
    and env_stopping: "env x y \<Longrightarrow> stopping x \<Longrightarrow> stopping y \<and> steps_left y \<le> steps_left x"
begin

lemma run_inv: "interleaved prog env n x y \<Longrightarrow> inv x \<Longrightarrow> inv y"
  by (induction rule: interleaved.induct) (auto intro: prog_inv env_inv)

lemma run_stops:
  assumes "interleaved prog env n x y" "stopping x"
  shows "stopping y \<and> n + steps_left y \<le> steps_left x"
  using assms
proof (induction rule: interleaved.induct)
  case (program n x y z)
  then show ?case using prog_stopping [OF program.hyps(2)] by fastforce
next
  case (environment n x y z)
  then show ?case using env_stopping [OF environment.hyps(2)] by fastforce
qed simp

end

section \<open>Refinement\<close>

inductive trace :: "('a \<Rightarrow> 'e \<Rightarrow> 'a \<Rightarrow> bool) \<Rightarrow> 'a \<Rightarrow> 'e list \<Rightarrow> 'a \<Rightarrow> bool"
  for spec :: "'a \<Rightarrow> 'e \<Rightarrow> 'a \<Rightarrow> bool" where
  trace_empty: "trace spec a [] a"
| trace_step: "trace spec a es b \<Longrightarrow> spec b e c \<Longrightarrow> trace spec a (es @ [e]) c"

text \<open>
  The contract of a simulation: every step of the program is one event of its own in the
  specification, every step of its environment an event of the environment.
\<close>

locale refined_program = interrupted_program prog env inv stopping steps_left
  for prog env :: "'s \<Rightarrow> 's \<Rightarrow> bool" and inv stopping :: "'s \<Rightarrow> bool" and steps_left :: "'s \<Rightarrow> nat" +
  fixes inside :: "'s \<Rightarrow> bool" and abs :: "'s \<Rightarrow> 'a" and spec :: "'a \<Rightarrow> 'e \<Rightarrow> 'a \<Rightarrow> bool" and own :: "'e \<Rightarrow> bool"
  assumes prog_inside: "prog x y \<Longrightarrow> inside x" and env_inside: "env x y \<Longrightarrow> inside x"
    and prog_sim: "prog x y \<Longrightarrow> inv x \<Longrightarrow> inside y \<Longrightarrow> \<exists>e. own e \<and> spec (abs x) e (abs y)"
    and env_sim: "env x y \<Longrightarrow> inv x \<Longrightarrow> \<exists>e. \<not> own e \<and> spec (abs x) e (abs y)"
begin

lemma run_refines:
  assumes "interleaved prog env n x y" "inv x" "inside y"
  shows "\<exists>es. trace spec (abs x) es (abs y) \<and> length (filter own es) = n"
  using assms
proof (induction rule: interleaved.induct)
  case (start x)
  show ?case using trace_empty [of spec "abs x"] by (intro exI [of _ "[]"]) simp
next
  case (program n x y z)
  then obtain es where es: "trace spec (abs x) es (abs y)" "length (filter own es) = n" using prog_inside by blast
  have "inv y" using run_inv [OF program.hyps(1)] program.prems(1) .
  then obtain e where "own e" "spec (abs y) e (abs z)" using prog_sim [OF program.hyps(2)] program.prems(2) by blast
  with es show ?case using trace_step [OF es(1)] by (intro exI [of _ "es @ [e]"]) simp
next
  case (environment n x y z)
  then obtain es where es: "trace spec (abs x) es (abs y)" "length (filter own es) = n" using env_inside by blast
  have "inv y" using run_inv [OF environment.hyps(1)] environment.prems(1) .
  then obtain e where "\<not> own e" "spec (abs y) e (abs z)" using env_sim [OF environment.hyps(2)] by blast
  with es show ?case using trace_step [OF es(1)] by (intro exI [of _ "es @ [e]"]) simp
qed

end

end
