(* ===== verification/Daemon.thy ===== *)
theory Daemon
  imports Server Pidfile Interleaving "HOL-Library.Multiset"
begin

text \<open>
  \<^verbatim>\<open>src/fand/daemon.c\<close>: start, main loop, reload, restart, signals and shutdown of the daemon, over the models
  of the components it calls, and \<^verbatim>\<open>src/fand/sigutil.c\<close>.

  The static variables of the program and the locals of \<open>daemon_main\<close> are one record, together with the
  state of the system that the daemon sees.  Every system call that may fail has its outcome in an
  argument.  The main loop is a step relation: a program step is one call of its body; between two of
  them signals arrive, children end and other processes change files.  \<^term>\<open>None\<close> is undefined behaviour.
\<close>

section \<open>State\<close>

record daemon =
  d_alive :: bool
  d_reload_pending :: bool
  d_sigpipe_caught :: bool
  d_status :: int
  d_data :: fand_config
  d_watch :: inotify_watch
  d_ctrl :: fanctrl_state
  d_hwmon :: hwmon
  d_drm :: "int option"
  d_pollfd :: int
  d_children :: "int multiset"
  d_logmask :: int
  d_log_options :: "int option"
  d_fs :: fs

text \<open>
  The uninitialised \<open>status\<close> and the state of the system are arguments; static storage is zeroed.  \<open>drm\<close> is
  a build with libdrm.
\<close>

definition daemon_static :: "bool \<Rightarrow> int \<Rightarrow> fs \<Rightarrow> daemon" where
  "daemon_static drm status s =
     \<lparr>d_alive = True, d_reload_pending = False, d_sigpipe_caught = False, d_status = status,
      d_data = \<lparr>cfg_throttle = False, cfg_matrix_rows = 0, cfg_hysteresis = 0, cfg_interval = 0, cfg_matrix = replicate 32 0\<rparr>,
      d_watch = \<lparr>watch_fd = - 1, watch_wd = - 1, watch_flags = 0, watch_triggered = False\<rparr>,
      d_ctrl = fanctrl_initial,
      d_hwmon = \<lparr>hw_cache = \<lparr>pwm = replicate 256 0, pwm_enable = replicate 256 0, temp_input = replicate 256 0,
        card_idx = 0, checksum = replicate 20 0\<rparr>, hw_fd = - 1\<rparr>,
      d_drm = (if drm then Some (- 1) else None), d_pollfd = 0, d_children = {#}, d_logmask = 0xff, d_log_options = None, d_fs = s\<rparr>"

section \<open>Signals\<close>

datatype signal = SIGINT | SIGTERM | SIGPIPE | SIGHUP | SIGCHLD

definition daemon_kill :: "daemon \<Rightarrow> daemon" where
  "daemon_kill d = d\<lparr>d_alive := False\<rparr>"

definition wexitstatus :: "int \<Rightarrow> int" where
  "wexitstatus status = (status div 256) mod 256"

text \<open>
  \<open>reaped\<close> are the statuses that the calls of \<open>waitpid\<close> store one after the other, \<open>junk\<close> is the
  uninitialised \<open>status\<close>.
\<close>

fun daemon_sighandler :: "signal \<Rightarrow> int \<Rightarrow> int list \<Rightarrow> daemon \<Rightarrow> daemon" where
  "daemon_sighandler SIGINT junk reaped d = daemon_kill d"
| "daemon_sighandler SIGTERM junk reaped d = daemon_kill d"
| "daemon_sighandler SIGPIPE junk reaped d = d\<lparr>d_sigpipe_caught := True\<rparr>"
| "daemon_sighandler SIGHUP junk reaped d = d\<lparr>d_reload_pending := True\<rparr>"
| "daemon_sighandler SIGCHLD junk reaped d =
     (if wexitstatus (last (junk # reaped)) = FAND_SERVER_EXIT then d\<lparr>d_alive := False\<rparr> else d)"

definition sigutil_sethandler :: "bool \<Rightarrow> int" where
  "sigutil_sethandler sigaction_fails = (if sigaction_fails then - 1 else 0)"

definition daemon_set_sigacts :: "(signal \<Rightarrow> bool) \<Rightarrow> int" where
  "daemon_set_sigacts fails =
     sigutil_sethandler (fails SIGINT) OR sigutil_sethandler (fails SIGTERM) OR sigutil_sethandler (fails SIGPIPE) OR
     sigutil_sethandler (fails SIGHUP) OR sigutil_sethandler (fails SIGCHLD)"

section \<open>Start\<close>

record fork_env =
  fk_fork_fails :: bool
  fk_setsid_fails :: bool
  fk_refork_fails :: bool
  fk_open_max :: int

text \<open>In the process that goes on; the two parents exit with 0.\<close>

definition daemon_fork :: "fork_env \<Rightarrow> fs \<Rightarrow> int \<times> fs" where
  "daemon_fork e s =
     (if fk_fork_fails e then (- 1, s)
      else if fk_setsid_fails e then (- 1, s)
      else if fk_refork_fails e then (- 1, s)
      else (0, s\<lparr>fs_fds := (\<lambda>fd. if 0 \<le> fd \<and> fd \<le> fk_open_max e then None else fs_fds s fd)\<rparr>))"

definition sys_mkdir :: "bool \<Rightarrow> fs \<Rightarrow> string \<Rightarrow> int \<times> fs" where
  "sys_mkdir fails s path =
     (if fails \<or> path_exists s path then (- 1, s) else (0, s\<lparr>fs_dirs := (fs_dirs s)(path := True)\<rparr>))"

text \<open>\<open>rmdir\<close> refuses a directory that is not empty: the names are those the daemon creates in it.\<close>

definition sys_rmdir :: "bool \<Rightarrow> fs \<Rightarrow> string \<Rightarrow> string list \<Rightarrow> int \<times> fs" where
  "sys_rmdir fails s path names =
     (if fails \<or> \<not> fs_dirs s path \<or> list_ex (path_exists s) names then (- 1, s)
      else (0, s\<lparr>fs_dirs := (fs_dirs s)(path := False)\<rparr>))"

record init_env =
  ie_sigaction_fails :: "signal \<Rightarrow> bool"
  ie_fork :: fork_env
  ie_mkdir_fails :: bool
  ie_pid :: pid_env
  ie_chdir_fails :: bool
  ie_config :: config_env
  ie_config_io :: io
  ie_sock :: sock_env
  ie_inotify_fd :: int
  ie_inotify_wd :: int
  ie_hwmon :: hwmon_env
  ie_drm :: drm_env

abbreviation (input) IN_MODIFY :: u32 where "IN_MODIFY \<equiv> 2"

text \<open>
  The logging of the C library: bit \<open>p\<close> of the mask enables the priority \<open>p\<close>, \<open>LOG_PERROR\<close> copies the
  messages to the standard error.
\<close>

abbreviation (input) LOG_PERROR :: int where "LOG_PERROR \<equiv> 0x20"

definition daemon_openlog :: "bool \<Rightarrow> bool \<Rightarrow> daemon \<Rightarrow> daemon" where
  "daemon_openlog fork verbose d =
     (let mask = 0x1f OR (0xe0 * of_bool verbose) in
      d\<lparr>d_logmask := mask, d_log_options := Some (of_bool (\<not> fork) * LOG_PERROR)\<rparr>)"

text \<open>A relative path after \<open>chdir\<close>.\<close>

definition resolve :: "string \<Rightarrow> string \<Rightarrow> string" where
  "resolve cwd path = (if path = [] \<or> hd path = CHR ''/'' then path else cwd @ ''/'' @ path)"

definition daemon_init :: "init_env \<Rightarrow> bool \<Rightarrow> bool \<Rightarrow> string \<Rightarrow> daemon \<Rightarrow> (int \<times> daemon) option" where
  "daemon_init e fork verbose config d0 =
     (let d = daemon_openlog fork verbose d0; path = resolve DAEMON_WORKING_DIR config in
      if daemon_set_sigacts (ie_sigaction_fails e) \<noteq> 0 then Some (- 1, d)
      else case (if fork then daemon_fork (ie_fork e) (d_fs d) else (0, d_fs d)) of (st0, s0) \<Rightarrow>
      if st0 \<noteq> 0 then Some (- 1, d\<lparr>d_fs := s0\<rparr>)
      else case sys_mkdir (ie_mkdir_fails e) s0 DAEMON_WORKING_DIR of (st1, s1) \<Rightarrow>
      if st1 \<noteq> 0 then Some (- 1, d\<lparr>d_fs := s1\<rparr>)
      else case pidfile_write (ie_pid e) s1 of None \<Rightarrow> None | Some (st2, s2) \<Rightarrow>
      if st2 \<noteq> 0 then Some (- 1, d\<lparr>d_fs := s2\<rparr>)
      else if ie_chdir_fails e then Some (- 1, d\<lparr>d_fs := s2\<rparr>)
      else case config_parse (ie_config e) (ie_config_io e) s2 path (d_data d) of None \<Rightarrow> None | Some (st3, data) \<Rightarrow>
      if st3 \<noteq> 0 then Some (- 1, d\<lparr>d_fs := s2, d_data := data\<rparr>)
      else case server_init (ie_sock e) s2 (d_pollfd d) of None \<Rightarrow> None | Some (st4, s4, fd) \<Rightarrow>
      if st4 \<noteq> 0 then Some (- 1, d\<lparr>d_fs := s4, d_data := data, d_pollfd := fd\<rparr>)
      else case fsys_watch_init (he_realpath (ie_hwmon e)) s4 path (d_watch d) IN_MODIFY (ie_inotify_fd e) (ie_inotify_wd e) of
        None \<Rightarrow> None | Some (st5, watch, s5) \<Rightarrow>
      let d5 = d\<lparr>d_fs := s5, d_data := data, d_pollfd := fd, d_watch := watch\<rparr> in
      if st5 \<noteq> 0 then Some (- 1, d5)
      else case fanctrl_init (ie_hwmon e) (ie_drm e) s5 (d_hwmon d) (d_drm d) of None \<Rightarrow> None | Some (st6, s6, h, drm) \<Rightarrow>
      let d6 = d5\<lparr>d_fs := s6, d_hwmon := h, d_drm := drm\<rparr> in
      if st6 < 0 then Some (- 1, d6)
      else case fanctrl_configure (d_ctrl d) data of (st7, ctrl) \<Rightarrow>
      Some (if st7 < 0 then - 1 else 0, d6\<lparr>d_ctrl := ctrl\<rparr>))"

section \<open>Shutdown\<close>

record free_env =
  fe_rm_watch_fails :: bool
  fe_rmdir_fails :: bool
  fe_release_io :: io

definition daemon_free :: "free_env \<Rightarrow> daemon \<Rightarrow> int \<times> daemon" where
  "daemon_free e d =
     (case fsys_watch_clear (fe_rm_watch_fails e) (d_fs d) (d_watch d) of (st1, s1) \<Rightarrow>
      case server_kill s1 (d_pollfd d) of (st2, s2) \<Rightarrow>
      case pidfile_unlink s2 of (st3, s3) \<Rightarrow>
      case sys_rmdir (fe_rmdir_fails e) s3 DAEMON_WORKING_DIR [FAND_PIDFILE_PATH, DAEMON_SERVER_SOCKET] of (st4, s4) \<Rightarrow>
      case fanctrl_release (fe_release_io e) s4 (d_hwmon d) (d_drm d) of (st5, s5) \<Rightarrow>
      (if st1 \<noteq> 0 \<or> st2 \<noteq> 0 \<or> st3 \<noteq> 0 \<or> st4 \<noteq> 0 \<or> st5 \<noteq> 0 then - 1 else 0, d\<lparr>d_fs := s5, d_log_options := None\<rparr>))"

section \<open>The body of the main loop\<close>

text \<open>The sensor is read and the fan is set through the paths found at the start.\<close>

definition daemon_adjust_fanspeed :: "temp_source \<Rightarrow> io \<Rightarrow> daemon \<Rightarrow> daemon option" where
  "daemon_adjust_fanspeed src pwm_io d =
     (let write = fwrite_ulong_excl pwm_io (d_fs d) (field_path (pwm (hw_cache (d_hwmon d)))) in
      case fanctrl_adjust (d_ctrl d) (temp_reading src (d_fs d) (d_hwmon d)) (\<lambda>v. fst (write v)) of
        None \<Rightarrow> None
      | Some (status, ctrl, written) \<Rightarrow>
          let d1 = d\<lparr>d_ctrl := ctrl, d_status := status,
                     d_fs := (case written of None \<Rightarrow> d_fs d | Some v \<Rightarrow> snd (write v))\<rparr> in
          Some (if status = FAND_FATAL_ERR then daemon_kill d1 else d1))"

text \<open>\<open>tmpdata\<close> is an uninitialised local: the caller of the model says what it holds.\<close>

definition daemon_reload :: "config_env \<Rightarrow> io \<Rightarrow> fand_config \<Rightarrow> string \<Rightarrow> daemon \<Rightarrow> (int \<times> daemon) option" where
  "daemon_reload e k tmpdata path d =
     (case config_parse e k (d_fs d) (resolve DAEMON_WORKING_DIR path) tmpdata of
        None \<Rightarrow> None
      | Some (r, tmpdata') \<Rightarrow>
          if r \<noteq> 0 then Some (- 1, d)
          else let d1 = d\<lparr>d_data := tmpdata'\<rparr> in
            case fanctrl_configure (d_ctrl d1) (d_data d1) of (r', ctrl) \<Rightarrow>
              Some (if r' \<noteq> 0 then FAND_FATAL_ERR else 0, d1\<lparr>d_ctrl := ctrl\<rparr>))"

definition daemon_watch_event ::
    "config_env \<Rightarrow> io \<Rightarrow> fand_config \<Rightarrow> inotify_event list option \<Rightarrow> string \<Rightarrow> daemon \<Rightarrow> daemon option" where
  "daemon_watch_event e k tmpdata events config d =
     (case fsys_watch_event config (d_watch d) events of (_, watch) \<Rightarrow>
        let d1 = d\<lparr>d_watch := watch\<rparr> in
        if d_reload_pending d1 \<or> watch_triggered (d_watch d1)
        then (case daemon_reload e k tmpdata config (d1\<lparr>d_reload_pending := False\<rparr>) of
                None \<Rightarrow> None
              | Some (r, d2) \<Rightarrow> Some (if r = FAND_FATAL_ERR then daemon_kill d2 else d2))
        else Some d1)"

definition daemon_restart :: "free_env \<Rightarrow> init_env \<Rightarrow> bool \<Rightarrow> bool \<Rightarrow> string \<Rightarrow> daemon \<Rightarrow> (int \<times> daemon) option" where
  "daemon_restart f e fork verbose config d =
     (case daemon_free f d of (_, d1) \<Rightarrow>
      case daemon_init e fork verbose config d1 of
        None \<Rightarrow> None | Some (r, d2) \<Rightarrow> Some (if r \<noteq> 0 then - 1 else 0, d2))"

definition daemon_handle_pending_signals ::
    "free_env \<Rightarrow> init_env \<Rightarrow> bool \<Rightarrow> bool \<Rightarrow> string \<Rightarrow> daemon \<Rightarrow> daemon option" where
  "daemon_handle_pending_signals f e fork verbose config d =
     (if d_sigpipe_caught d
      then (case daemon_restart f e fork verbose config d of
              None \<Rightarrow> None
            | Some (r, d1) \<Rightarrow>
                Some ((if r \<noteq> 0 then d1\<lparr>d_alive := False\<rparr> else d1)\<lparr>d_sigpipe_caught := False\<rparr>))
      else Some d)"

text \<open>
  The last call of the body.  A child that ends normally leaves its exit code for \<open>waitpid\<close>; one that
  runs into undefined behaviour is reported as killed by a signal.
\<close>

definition child_status :: "(int \<times> byte list option) option \<Rightarrow> int" where
  "child_status child = (case child of None \<Rightarrow> 11 | Some (code, _) \<Rightarrow> code * 256)"

definition daemon_poll :: "poll_env \<Rightarrow> io \<Rightarrow> temp_source \<Rightarrow> byte list \<Rightarrow> daemon \<Rightarrow> daemon" where
  "daemon_poll e k src buffer d =
     (case server_poll e (fanctrl_sensors k src (d_fs d) (d_hwmon d)) (d_fs d) buffer (d_data d) of (_, s, child) \<Rightarrow>
        d\<lparr>d_fs := s, d_children := (case child of None \<Rightarrow> d_children d | Some c \<Rightarrow> add_mset (child_status c) (d_children d))\<rparr>)"

section \<open>daemon_main\<close>

datatype pc = At_loop | At_watch | At_signals | At_poll | Exited int | Undefined

text \<open>The descriptors that the kernel hands out during a start are not in use.\<close>

definition fresh_fds :: "init_env \<Rightarrow> bool \<Rightarrow> fs \<Rightarrow> bool" where
  "fresh_fds e fork s \<longleftrightarrow>
     (let used = fs_fds (if fork then snd (daemon_fork (ie_fork e) s) else s);
          new = filter (\<lambda>fd. fd \<noteq> - 1) [so_fd (ie_sock e), ie_inotify_fd e, dr_newfd (ie_drm e)] @
            (if io_open_err (he_fd_io (ie_hwmon e)) = None then [io_newfd (he_fd_io (ie_hwmon e))] else [])
      in distinct new \<and> list_all (\<lambda>fd. fd \<noteq> - 1 \<and> used fd = None) new)"

text \<open>The start of \<open>daemon_main\<close>, up to the loop.\<close>

definition daemon_start :: "bool \<Rightarrow> init_env \<Rightarrow> bool \<Rightarrow> bool \<Rightarrow> string \<Rightarrow> int \<Rightarrow> fs \<Rightarrow> pc \<times> daemon" where
  "daemon_start drm e fork verbose config junk s =
     (case daemon_init e fork verbose config (daemon_static drm junk s) of
        None \<Rightarrow> (Undefined, daemon_static drm junk s)
      | Some (r, d) \<Rightarrow> (At_loop, if r \<noteq> 0 then daemon_kill (d\<lparr>d_status := 1\<rparr>) else d))"

text \<open>
  Program steps.  \<open>tmp\<close> is the set of values that the uninitialised \<open>tmpdata\<close> of \<open>daemon_reload\<close> may have.
\<close>

inductive pstep :: "fand_config set \<Rightarrow> bool \<Rightarrow> bool \<Rightarrow> string \<Rightarrow> pc \<times> daemon \<Rightarrow> pc \<times> daemon \<Rightarrow> bool"
  for tmp :: "fand_config set" and fork :: bool and verbose :: bool and config :: string where
  adjust: "d_alive d \<Longrightarrow> built_for (d_drm d) src \<Longrightarrow> daemon_adjust_fanspeed src k d = r \<Longrightarrow>
    pstep tmp fork verbose config (At_loop, d) (case r of None \<Rightarrow> (Undefined, d) | Some d' \<Rightarrow> (At_watch, d'))"
| watch: "t \<in> tmp \<Longrightarrow> daemon_watch_event e k t events config d = r \<Longrightarrow>
    pstep tmp fork verbose config (At_watch, d) (case r of None \<Rightarrow> (Undefined, d) | Some d' \<Rightarrow> (At_signals, d'))"
| signals: "(d_sigpipe_caught d \<Longrightarrow> fresh_fds e fork (d_fs (snd (daemon_free f d)))) \<Longrightarrow> daemon_handle_pending_signals f e fork verbose config d = r \<Longrightarrow>
    pstep tmp fork verbose config (At_signals, d) (case r of None \<Rightarrow> (Undefined, d) | Some d' \<Rightarrow> (At_poll, d'))"
| poll: "(pe_newfd e \<noteq> - 1 \<Longrightarrow> fs_fds (d_fs d) (pe_newfd e) = None) \<Longrightarrow> built_for (d_drm d) src \<Longrightarrow>
    pstep tmp fork verbose config (At_poll, d) (At_loop, daemon_poll e k src buffer d)"
| leave: "\<not> d_alive d \<Longrightarrow> daemon_free f d = (r, d') \<Longrightarrow>
    pstep tmp fork verbose config (At_loop, d) (Exited (d_status d OR r), d')"

text \<open>
  What happens meanwhile: a signal of the set \<open>sigs\<close> is handled (the handler of \<open>SIGCHLD\<close> reaps some of
  the children that ended, in any order, or none when the signal says that a child was stopped or when an
  earlier call has reaped it), or another process changes the content of files, but not the
  pid file.
\<close>

definition in_loop :: "pc \<Rightarrow> bool" where
  "in_loop pc \<longleftrightarrow> pc = At_loop \<or> pc = At_watch \<or> pc = At_signals \<or> pc = At_poll"

inductive istep :: "signal set \<Rightarrow> pc \<times> daemon \<Rightarrow> pc \<times> daemon \<Rightarrow> bool"
  for sigs :: "signal set" where
  signal: "in_loop pc \<Longrightarrow> sig \<in> sigs \<Longrightarrow> sig \<noteq> SIGCHLD \<Longrightarrow> istep sigs (pc, d) (pc, daemon_sighandler sig junk [] d)"
| child: "in_loop pc \<Longrightarrow> SIGCHLD \<in> sigs \<Longrightarrow> d_children d = mset reaped + rest \<Longrightarrow>
    istep sigs (pc, d) (pc, daemon_sighandler SIGCHLD junk reaped (d\<lparr>d_children := rest\<rparr>))"
| others: "in_loop pc \<Longrightarrow> files' FAND_PIDFILE_PATH = fs_files (d_fs d) FAND_PIDFILE_PATH \<Longrightarrow>
    istep sigs (pc, d) (pc, d\<lparr>d_fs := (d_fs d)\<lparr>fs_files := files'\<rparr>\<rparr>)"

text \<open>A run, with the number of program steps in it.\<close>

abbreviation run :: "fand_config set \<Rightarrow> signal set \<Rightarrow> bool \<Rightarrow> bool \<Rightarrow> string \<Rightarrow> nat \<Rightarrow> pc \<times> daemon \<Rightarrow> pc \<times> daemon \<Rightarrow> bool" where
  "run tmp sigs fork verbose config \<equiv> interleaved (pstep tmp fork verbose config) (istep sigs)"

section \<open>What the components leave alone\<close>

lemma openlog_simps [simp]:
  "d_alive (daemon_openlog fork verbose d) = d_alive d" "d_reload_pending (daemon_openlog fork verbose d) = d_reload_pending d"
  "d_sigpipe_caught (daemon_openlog fork verbose d) = d_sigpipe_caught d" "d_status (daemon_openlog fork verbose d) = d_status d"
  "d_data (daemon_openlog fork verbose d) = d_data d" "d_watch (daemon_openlog fork verbose d) = d_watch d"
  "d_ctrl (daemon_openlog fork verbose d) = d_ctrl d" "d_hwmon (daemon_openlog fork verbose d) = d_hwmon d"
  "d_drm (daemon_openlog fork verbose d) = d_drm d" "d_pollfd (daemon_openlog fork verbose d) = d_pollfd d"
  "d_children (daemon_openlog fork verbose d) = d_children d" "d_fs (daemon_openlog fork verbose d) = d_fs d"
  by (simp_all add: daemon_openlog_def Let_def)

text \<open>
  By default the priorities from \<open>LOG_EMERG\<close> (0) to \<open>LOG_WARNING\<close> (4) are logged, with \<open>--verbose\<close> all
  eight of them.
\<close>

lemma daemon_openlog_levels:
  assumes "p < 8"
  shows "bit (d_logmask (daemon_openlog fork verbose d)) p \<longleftrightarrow> p \<le> 4 \<or> verbose"
proof -
  have "p \<in> {0, 1, 2, 3, 4, 5, 6, 7}" using assms by auto
  then show ?thesis by (cases verbose) (auto simp: daemon_openlog_def)
qed

lemma pidfile_write_ok:
  assumes "pidfile_write e s = Some (0, s')"
  shows "fs_files s' FAND_PIDFILE_PATH \<noteq> None" "fs_dirs s' = fs_dirs s" "fs_sockets s' = fs_sockets s" "fs_fds s' = fs_fds s"
    "\<not> path_exists s FAND_PIDFILE_PATH" "p \<noteq> FAND_PIDFILE_PATH \<Longrightarrow> fs_files s' p = fs_files s p"
  using assms by (auto simp: pidfile_write_def put_file_def Let_def split: if_splits option.splits)

lemma server_init_ok:
  assumes "server_init e s pollfd = Some (0, s', fd)"
  shows "fs_files s' = fs_files s" "fs_dirs s' = fs_dirs s" "fs_sockets s' DAEMON_SERVER_SOCKET"
    "fs_fds s' = (fs_fds s)(fd \<mapsto> ''socket'')" "fd = so_fd e" "fd \<noteq> - 1" "\<not> path_exists s DAEMON_SERVER_SOCKET"
proof -
  have c: "cstr (DAEMON_SERVER_SOCKET @ NUL # x) = DAEMON_SERVER_SOCKET" for x
    by (simp add: DAEMON_SERVER_SOCKET_def DAEMON_WORKING_DIR_def cstr_def)
  show "fs_files s' = fs_files s" "fs_dirs s' = fs_dirs s" "fs_sockets s' DAEMON_SERVER_SOCKET"
    "fs_fds s' = (fs_fds s)(fd \<mapsto> ''socket'')" "fd = so_fd e" "fd \<noteq> - 1" "\<not> path_exists s DAEMON_SERVER_SOCKET"
    using assms by (auto simp: server_init_def server_init_at_def socket_path_fits c Let_def put_socket_def path_exists_def split: if_splits)
qed

lemma watch_init_ok:
  assumes "fsys_watch_init rp s path w flags fd wd = Some (0, w', s')"
  shows "watch_fd w' = fd" "fd \<noteq> - 1" "fs_files s' = fs_files s" "fs_dirs s' = fs_dirs s" "fs_sockets s' = fs_sockets s"
    "\<exists>x. fs_fds s' = (fs_fds s)(fd \<mapsto> x)"
  using assms by (auto simp: fsys_watch_init_def split: option.splits if_splits prod.splits)

lemma set_manual_frame:
  assumes "hwmon_set_pwm_mode_manual k s h = (status, s', h')" "\<not> status < 0"
  shows "fs_dirs s' = fs_dirs s" "fs_sockets s' = fs_sockets s" "io_open_err k = None" "hw_fd h' = io_newfd k"
    "\<exists>x. fs_fds s' = (fs_fds s)(io_newfd k \<mapsto> x)"
  using assms
  by (auto simp: hwmon_set_pwm_mode_manual_def fdopen_excl_def fdwrite_ulong_def put_file_def Let_def split: if_splits prod.splits)

lemma cache_write_frame:
  assumes "cache_write ctx k mf nw s c = Some (st, s')"
  shows "fs_fds s' = fs_fds s" "fs_sockets s' = fs_sockets s" "p \<noteq> FAND_CACHE_DIR \<Longrightarrow> fs_dirs s' p = fs_dirs s p"
  using assms by (auto simp: cache_write_def Let_def put_file_def split: if_splits option.splits)

lemma hwmon_open_frame:
  assumes "hwmon_open e s h = Some (r, s', h')" "0 \<le> r"
  shows "fs_sockets s' = fs_sockets s" "p \<noteq> FAND_CACHE_DIR \<Longrightarrow> fs_dirs s' p = fs_dirs s p"
    "io_open_err (he_fd_io e) = None" "hw_fd h' = io_newfd (he_fd_io e)"
    "\<exists>x. fs_fds s' = (fs_fds s)(io_newfd (he_fd_io e) \<mapsto> x)"
proof -
  have "fs_sockets s' = fs_sockets s \<and> (p \<noteq> FAND_CACHE_DIR \<longrightarrow> fs_dirs s' p = fs_dirs s p) \<and>
    io_open_err (he_fd_io e) = None \<and> hw_fd h' = io_newfd (he_fd_io e) \<and>
    (\<exists>x. fs_fds s' = (fs_fds s)(io_newfd (he_fd_io e) \<mapsto> x))"
    using assms
  proof (cases rule: hwmon_open_cases)
    case (cached c status)
    then show ?thesis using set_manual_frame [OF cached(2,3)] by simp
  next
    case (detected c st status c1 s1 status')
    then show ?thesis using set_manual_frame [OF detected(4,5)] cache_write_frame [OF detected(3)] by simp
  qed
  then show "fs_sockets s' = fs_sockets s" "p \<noteq> FAND_CACHE_DIR \<Longrightarrow> fs_dirs s' p = fs_dirs s p"
    "io_open_err (he_fd_io e) = None" "hw_fd h' = io_newfd (he_fd_io e)"
    "\<exists>x. fs_fds s' = (fs_fds s)(io_newfd (he_fd_io e) \<mapsto> x)" by auto
qed

lemma fwrite_frame:
  "fs_fds (snd (fwrite_ulong_excl k s path v)) = fs_fds s" "fs_dirs (snd (fwrite_ulong_excl k s path v)) = fs_dirs s"
  "fs_sockets (snd (fwrite_ulong_excl k s path v)) = fs_sockets s"
  "fs_files s p \<noteq> None \<Longrightarrow> fs_files (snd (fwrite_ulong_excl k s path v)) p \<noteq> None"
  by (auto simp: fwrite_ulong_excl_def fopen_excl_def fopen_def put_file_def split: option.splits)

lemma watch_event_frame:
  "watch_fd (snd (fsys_watch_event path w events)) = watch_fd w"
proof -
  have "watch_fd (watch_scan name w evs) = watch_fd w" for name w evs
    by (induction name w evs rule: watch_scan.induct) auto
  then show ?thesis by (simp add: fsys_watch_event_def Let_def split: option.split)
qed

section \<open>A running daemon\<close>

text \<open>
  The configuration is usable and is the one the controller works with, the pid file, the socket and
  the working directory exist, and the three descriptors are open and distinct.
\<close>

definition configured :: "daemon \<Rightarrow> bool" where
  "configured d \<longleftrightarrow> valid_config (d_data d) \<and> 0 < nrows (d_data d) \<and> loaded (d_data d) (d_ctrl d)"

definition published :: "daemon \<Rightarrow> bool" where
  "published d \<longleftrightarrow> fs_files (d_fs d) FAND_PIDFILE_PATH \<noteq> None \<and> fs_sockets (d_fs d) DAEMON_SERVER_SOCKET \<and>
     fs_dirs (d_fs d) DAEMON_WORKING_DIR \<and> \<not> fs_dirs (d_fs d) FAND_PIDFILE_PATH \<and> \<not> fs_dirs (d_fs d) DAEMON_SERVER_SOCKET"

definition descriptors :: "daemon \<Rightarrow> bool" where
  "descriptors d \<longleftrightarrow> distinct [hw_fd (d_hwmon d), watch_fd (d_watch d), d_pollfd d] \<and> hw_fd (d_hwmon d) \<noteq> - 1 \<and> watch_fd (d_watch d) \<noteq> - 1 \<and>
     fs_fds (d_fs d) (hw_fd (d_hwmon d)) = Some (field_path (pwm_enable (hw_cache (d_hwmon d)))) \<and>
     fs_fds (d_fs d) (watch_fd (d_watch d)) \<noteq> None \<and> fs_fds (d_fs d) (d_pollfd d) \<noteq> None"

text \<open>In builds with libdrm, the descriptor of the render node is open too, and none of the other three.\<close>

definition drm_apart :: "daemon \<Rightarrow> bool" where
  "drm_apart d \<longleftrightarrow> (\<forall>fd. d_drm d = Some fd \<longrightarrow>
     fs_fds (d_fs d) fd \<noteq> None \<and> fd \<noteq> hw_fd (d_hwmon d) \<and> fd \<noteq> watch_fd (d_watch d) \<and> fd \<noteq> d_pollfd d)"

definition running :: "daemon \<Rightarrow> bool" where
  "running d \<longleftrightarrow> configured d \<and> published d \<and> descriptors d"

lemma path_names:
  "FAND_PIDFILE_PATH \<noteq> FAND_CACHE_DIR" "DAEMON_SERVER_SOCKET \<noteq> FAND_CACHE_DIR" "DAEMON_WORKING_DIR \<noteq> FAND_CACHE_DIR"
  "FAND_PIDFILE_PATH \<noteq> DAEMON_WORKING_DIR" "DAEMON_SERVER_SOCKET \<noteq> DAEMON_WORKING_DIR" "FAND_PIDFILE_PATH \<noteq> DAEMON_SERVER_SOCKET"
  by (simp_all add: FAND_PIDFILE_PATH_def DAEMON_SERVER_SOCKET_def DAEMON_WORKING_DIR_def FAND_CACHE_DIR_def)

text \<open>What a successful start did, step by step.\<close>

lemma daemon_init_okE:
  assumes "daemon_init e fork verbose config d = Some (0, d')"
  obtains s0 s2 s4 s5 s6 data fd watch h ctrl r drm where
    "fs_fds s0 = fs_fds (if fork then snd (daemon_fork (ie_fork e) (d_fs d)) else d_fs d)" "fs_files s0 = fs_files (d_fs d)"
    "pidfile_write (ie_pid e) (s0\<lparr>fs_dirs := (fs_dirs s0)(DAEMON_WORKING_DIR := True)\<rparr>) = Some (0, s2)"
    "config_parse (ie_config e) (ie_config_io e) s2 (resolve DAEMON_WORKING_DIR config) (d_data d) = Some (0, data)"
    "server_init (ie_sock e) s2 (d_pollfd d) = Some (0, s4, fd)"
    "fsys_watch_init (he_realpath (ie_hwmon e)) s4 (resolve DAEMON_WORKING_DIR config) (d_watch d) IN_MODIFY (ie_inotify_fd e) (ie_inotify_wd e) = Some (0, watch, s5)"
    "fanctrl_init (ie_hwmon e) (ie_drm e) s5 (d_hwmon d) (d_drm d) = Some (r, s6, h, drm)" "0 \<le> r"
    "ctrl = snd (fanctrl_configure (d_ctrl d) data)"
    "d' = (daemon_openlog fork verbose d)\<lparr>d_fs := s6, d_data := data, d_pollfd := fd, d_watch := watch, d_hwmon := h, d_drm := drm, d_ctrl := ctrl\<rparr>"
proof -
  define p where "p = (if fork then daemon_fork (ie_fork e) (d_fs d) else (0, d_fs d))"
  obtain st0 s0 where p: "p = (st0, s0)" by (cases p)
  have fds: "fs_fds s0 = fs_fds (if fork then snd (daemon_fork (ie_fork e) (d_fs d)) else d_fs d)"
    using p by (auto simp: p_def split: if_splits)
  have kept: "fs_files s0 = fs_files (d_fs d)" using p by (auto simp: p_def daemon_fork_def split: if_splits)
  show thesis
    using assms that [OF fds kept]
    unfolding daemon_init_def Let_def openlog_simps p_def [symmetric] p
    by (auto simp: sys_mkdir_def split: if_splits option.splits prod.splits)
qed

text \<open>
  Opening the card changes no other descriptor.  In a build with libdrm the render node gets a new one,
  unless no node matches; then the value of the last start is kept.
\<close>

lemma fanctrl_init_ok:
  assumes "fanctrl_init e de s h drm = Some (r, s', h', drm')" "0 \<le> r"
    "dr_newfd de \<noteq> - 1 \<Longrightarrow> dr_newfd de \<noteq> io_newfd (he_fd_io e)"
  shows "fs_sockets s' = fs_sockets s" "p \<noteq> FAND_CACHE_DIR \<Longrightarrow> fs_dirs s' p = fs_dirs s p"
    "fs_files s p \<noteq> None \<Longrightarrow> fs_files s' p \<noteq> None"
    "io_open_err (he_fd_io e) = None" "hw_fd h' = io_newfd (he_fd_io e)"
    "fs_fds s' (hw_fd h') = Some (field_path (pwm_enable (hw_cache h')))"
    "fd \<noteq> hw_fd h' \<Longrightarrow> fd = - 1 \<or> fd \<noteq> dr_newfd de \<Longrightarrow> fs_fds s' fd = fs_fds s fd"
    "drm' = None \<and> drm = None \<or> drm' = drm \<and> drm = Some r \<or> drm' = Some r \<and> r = dr_newfd de \<and> fs_fds s' r \<noteq> None"
proof -
  obtain idx s1 where o: "hwmon_open e s h = Some (idx, s1, h')" "0 \<le> idx"
    and s1: "s' = s1 \<and> drm' = None \<and> drm = None \<or> (\<exists>fd fd'. drm = Some fd \<and> drm' = Some fd' \<and> drm_open de s1 fd (word_of_int idx) = Some (r, s', fd'))"
    using assms(1,2) by (cases rule: fanctrl_init_cases) auto
  note hw = hwmon_open_frame [OF o] and man = hwmon_open_manual [OF o]
  have kept: "fs_files s' = fs_files s1" "fs_dirs s' = fs_dirs s1" "fs_sockets s' = fs_sockets s1"
    using s1 drm_open_frame(1) drm_open_frame(2) drm_open_frame(3) by (elim disjE; fastforce)+
  have fds: "fs_fds s' = fs_fds s1 \<and> (drm' = None \<and> drm = None \<or> drm' = drm \<and> drm = Some r) \<or>
      drm' = Some r \<and> r = dr_newfd de \<and> r \<noteq> - 1 \<and> (\<exists>path. fs_fds s' = (fs_fds s1)(r \<mapsto> path))"
  proof (cases drm)
    case None
    with s1 show ?thesis by auto
  next
    case (Some fd)
    with s1 obtain fd' where o: "drm' = Some fd'" "drm_open de s1 fd (word_of_int idx) = Some (r, s', fd')" by auto
    from drm_open_frame(5) [OF o(2) assms(2)] drm_open_frame(4) [OF o(2)] assms(2) o(1) Some show ?thesis
      by (auto split: if_splits)
  qed
  show "fs_sockets s' = fs_sockets s" "p \<noteq> FAND_CACHE_DIR \<Longrightarrow> fs_dirs s' p = fs_dirs s p"
    "io_open_err (he_fd_io e) = None" "hw_fd h' = io_newfd (he_fd_io e)" using hw(1-4) kept by simp_all
  show "fs_files s p \<noteq> None \<Longrightarrow> fs_files s' p \<noteq> None" using hwmon_open_keeps_files [OF o, of p] kept(1) by simp
  have "r = dr_newfd de \<and> r \<noteq> - 1 \<Longrightarrow> hw_fd h' \<noteq> r" using assms(3) hw(4) by auto
  then show "fs_fds s' (hw_fd h') = Some (field_path (pwm_enable (hw_cache h')))" using fds man by auto
  show "fd \<noteq> hw_fd h' \<Longrightarrow> fd = - 1 \<or> fd \<noteq> dr_newfd de \<Longrightarrow> fs_fds s' fd = fs_fds s fd" using fds hw(4,5) by auto
  show "drm' = None \<and> drm = None \<or> drm' = drm \<and> drm = Some r \<or> drm' = Some r \<and> r = dr_newfd de \<and> fs_fds s' r \<noteq> None"
    using fds by auto
qed

lemma init_running:
  assumes "daemon_init e fork verbose config d = Some (0, d')" "fresh_fds e fork (d_fs d)" "valid_config (d_data d)"
    "length (temps (d_ctrl d)) = 16" "length (speeds (d_ctrl d)) = 16"
  shows "running d' \<and> d_alive d' = d_alive d \<and> d_sigpipe_caught d' = d_sigpipe_caught d \<and>
    (d_drm d = None \<or> d_drm d = Some (- 1) \<longrightarrow> drm_apart d')"
  using assms(1)
proof (cases rule: daemon_init_okE)
  case (1 s0 s2 s4 s5 s6 data fd watch h ctrl r drm)
  note pid = pidfile_write_ok [OF 1(3)] and sock = server_init_ok [OF 1(5)] and watch = watch_init_ok [OF 1(6)]
  let ?hw = "io_newfd (he_fd_io (ie_hwmon e))" and ?drm = "dr_newfd (ie_drm e)"
  have err: "io_open_err (he_fd_io (ie_hwmon e)) = None" using fanctrl_init_cases [OF 1(7,8)] hwmon_open_frame(3) by metis
  have new: "distinct [so_fd (ie_sock e), ie_inotify_fd e, ?hw]" "?hw \<noteq> - 1"
    and drm: "?drm \<noteq> - 1 \<Longrightarrow> ?drm \<noteq> so_fd (ie_sock e) \<and> ?drm \<noteq> ie_inotify_fd e \<and> ?drm \<noteq> ?hw"
    using assms(2) err sock(5,6) watch(2) by (auto simp: fresh_fds_def Let_def)
  note hw = fanctrl_init_ok [OF 1(7,8) conjunct2 [OF conjunct2 [OF drm]]]
  have data: "valid_config data" "0 < nrows data"
    using config_parse_outcome [OF assms(3), of "ie_config e" "ie_config_io e" s2 "resolve DAEMON_WORKING_DIR config"] 1(4) by auto
  then have "loaded data ctrl" using configure_loads(2) [OF assms(4,5), of data] 1(9) by (simp add: valid_config_def)
  with data have c: "configured d'" by (simp add: configured_def 1(10))
  have "fs_files s6 FAND_PIDFILE_PATH \<noteq> None" using hw(3) pid(1) sock(1) watch(3) by simp
  moreover have "\<not> fs_dirs s6 FAND_PIDFILE_PATH" "\<not> fs_dirs s6 DAEMON_SERVER_SOCKET" "fs_dirs s6 DAEMON_WORKING_DIR"
    using pid(2,5) sock(2,7) watch(4) hw(2) path_names by (auto simp: path_exists_def)
  moreover have "fs_sockets s6 DAEMON_SERVER_SOCKET" using sock(3) watch(5) hw(1) by simp
  ultimately have p: "published d'" by (simp add: published_def 1(10))
  have "?drm \<noteq> so_fd (ie_sock e)" "?drm \<noteq> ie_inotify_fd e" using drm sock(5,6) watch(2) by auto
  then have "fs_fds s6 fd \<noteq> None" "fs_fds s6 (watch_fd watch) \<noteq> None"
    using hw(7) [of fd] hw(7) [of "watch_fd watch"] hw(5) new sock(4,5) watch(1,6) by auto
  then have ds: "descriptors d'"
    using hw(5,6) new sock(5,6) watch(1,2) by (auto simp: descriptors_def 1(10))
  have "drm_apart d'" if "d_drm d = None \<or> d_drm d = Some (- 1)"
  proof -
    have "drm = None \<or> drm = Some r \<and> r = dr_newfd (ie_drm e) \<and> fs_fds s6 r \<noteq> None" using hw(8) that 1(8) by auto
    then show ?thesis using drm hw(5) watch(1) sock(5) 1(8) by (auto simp: drm_apart_def 1(10))
  qed
  with c p ds show ?thesis by (simp add: running_def 1(10))
qed

text \<open>Each part of the loop keeps it.\<close>

lemma adjust_running:
  assumes "running d" "daemon_adjust_fanspeed src k d = Some d'"
  shows "running d'" "drm_apart d \<Longrightarrow> drm_apart d'" "d_sigpipe_caught d' = d_sigpipe_caught d" "d_alive d' \<Longrightarrow> d_alive d"
proof -
  obtain ret ctrl written where
    a: "fanctrl_adjust (d_ctrl d) (temp_reading src (d_fs d) (d_hwmon d))
      (\<lambda>v. fst (fwrite_ulong_excl k (d_fs d) (field_path (pwm (hw_cache (d_hwmon d)))) v)) = Some (ret, ctrl, written)"
    using assms(2) by (auto simp: daemon_adjust_fanspeed_def Let_def split: option.splits)
  define s where "s = (case written of None \<Rightarrow> d_fs d
    | Some v \<Rightarrow> snd (fwrite_ulong_excl k (d_fs d) (field_path (pwm (hw_cache (d_hwmon d)))) v))"
  have s: "fs_fds s = fs_fds (d_fs d)" "fs_dirs s = fs_dirs (d_fs d)" "fs_sockets s = fs_sockets (d_fs d)"
    "fs_files (d_fs d) p \<noteq> None \<Longrightarrow> fs_files s p \<noteq> None" for p
    unfolding s_def by (cases written; simp add: fwrite_frame del: not_None_eq)+
  have d': "d' = d\<lparr>d_ctrl := ctrl, d_status := ret, d_fs := s, d_alive := (d_alive d \<and> ret \<noteq> FAND_FATAL_ERR)\<rparr>"
    using assms(2) a by (auto simp: daemon_adjust_fanspeed_def Let_def s_def daemon_kill_def)
  have "loaded (d_data d) ctrl" using assms(1) adjust_keeps_loaded [OF _ a] by (simp add: running_def configured_def)
  with assms(1) s show "running d'" "drm_apart d \<Longrightarrow> drm_apart d'" "d_sigpipe_caught d' = d_sigpipe_caught d" "d_alive d' \<Longrightarrow> d_alive d"
    by (simp_all add: d' drm_apart_def running_def configured_def published_def descriptors_def)
qed

lemma reload_running:
  assumes "running d" "valid_config t"
  shows "\<exists>r d'. daemon_reload e k t path d = Some (r, d') \<and> r \<noteq> FAND_FATAL_ERR \<and> running d' \<and> drm_apart d' = drm_apart d \<and>
    d_sigpipe_caught d' = d_sigpipe_caught d \<and> d_alive d' = d_alive d"
proof -
  obtain r t' where p: "config_parse e k (d_fs d) (resolve DAEMON_WORKING_DIR path) t = Some (r, t')" "r = 0 \<Longrightarrow> valid_config t' \<and> 0 < nrows t'"
    using config_parse_outcome [OF assms(2), of e k "d_fs d" "resolve DAEMON_WORKING_DIR path"] by blast
  show ?thesis
  proof (cases "r = 0")
    case True
    have "length (temps (d_ctrl d)) = 16" "length (speeds (d_ctrl d)) = 16" "nrows t' \<le> 16"
      using assms(1) p(2) [OF True] by (simp_all add: running_def configured_def loaded_def valid_config_def)
    note ok = configure_loads(1,2) [OF this]
    then show ?thesis using assms(1) p True
      by (auto simp: daemon_reload_def Let_def drm_apart_def running_def configured_def published_def descriptors_def split: prod.splits)
  next
    case False
    then show ?thesis using assms(1) p by (simp add: daemon_reload_def)
  qed
qed

lemma watch_running:
  assumes "running d" "valid_config t"
  shows "\<exists>d'. daemon_watch_event e k t events config d = Some d' \<and> running d' \<and> drm_apart d' = drm_apart d \<and>
    d_sigpipe_caught d' = d_sigpipe_caught d \<and> d_alive d' = d_alive d"
proof -
  define w where "w = snd (fsys_watch_event config (d_watch d) events)"
  have "running (d\<lparr>d_watch := w\<rparr>)" "running (d\<lparr>d_watch := w, d_reload_pending := False\<rparr>)"
    using assms(1) watch_event_frame [of config "d_watch d" events]
    by (simp_all add: w_def running_def configured_def published_def descriptors_def)
  moreover have "drm_apart (d\<lparr>d_watch := w\<rparr>) = drm_apart d" "drm_apart (d\<lparr>d_watch := w, d_reload_pending := False\<rparr>) = drm_apart d"
    using watch_event_frame [of config "d_watch d" events] by (simp_all add: w_def drm_apart_def)
  ultimately show ?thesis
    using reload_running [OF _ assms(2), of "d\<lparr>d_watch := w, d_reload_pending := False\<rparr>" e k config]
    by (auto simp: daemon_watch_event_def Let_def w_def split: prod.splits)
qed

lemma poll_running:
  assumes "running d" "pe_newfd e \<noteq> - 1 \<Longrightarrow> fs_fds (d_fs d) (pe_newfd e) = None"
  shows "running (daemon_poll e k src buffer d)" "drm_apart d \<Longrightarrow> drm_apart (daemon_poll e k src buffer d)"
    "d_sigpipe_caught (daemon_poll e k src buffer d) = d_sigpipe_caught d"
    "d_alive (daemon_poll e k src buffer d) = d_alive d"
proof -
  obtain st s child where p: "server_poll e (fanctrl_sensors k src (d_fs d) (d_hwmon d)) (d_fs d) buffer (d_data d) = (st, s, child)" by (metis prod.exhaust)
  then have "fs_fds s fd = fs_fds (d_fs d) fd" if "fs_fds (d_fs d) fd \<noteq> None" for fd
    using assms(2) that by (auto simp: server_poll_def Let_def sys_close_def split: poll_result.splits if_splits)
  moreover have "fs_files s = fs_files (d_fs d)" "fs_dirs s = fs_dirs (d_fs d)" "fs_sockets s = fs_sockets (d_fs d)"
    using p by (auto simp: server_poll_def Let_def sys_close_def split: poll_result.splits if_splits)
  ultimately show "running (daemon_poll e k src buffer d)" "drm_apart d \<Longrightarrow> drm_apart (daemon_poll e k src buffer d)" using assms(1) p
    by (auto simp: daemon_poll_def drm_apart_def running_def configured_def published_def descriptors_def split: option.splits)
  show "d_sigpipe_caught (daemon_poll e k src buffer d) = d_sigpipe_caught d" "d_alive (daemon_poll e k src buffer d) = d_alive d"
    using p by (simp_all add: daemon_poll_def)
qed

lemma restart_running:
  assumes "running d" "d_sigpipe_caught d \<Longrightarrow> fresh_fds e fork (d_fs (snd (daemon_free f d)))"
    "daemon_handle_pending_signals f e fork verbose config d = Some d'" "d_alive d' \<or> \<not> d_sigpipe_caught d"
  shows "running d'"
proof (cases "d_sigpipe_caught d")
  case True
  obtain st d1 where f: "daemon_free f d = (st, d1)" by (cases "daemon_free f d")
  have d1: "d_data d1 = d_data d" "d_ctrl d1 = d_ctrl d" using f by (auto simp: daemon_free_def split: prod.splits)
  from assms(3,4) True f obtain d2 where i: "daemon_init e fork verbose config d1 = Some (0, d2)" "d' = d2\<lparr>d_sigpipe_caught := False\<rparr>"
    by (auto simp: daemon_handle_pending_signals_def daemon_restart_def split: option.splits if_splits)
  have "running d2"
    using init_running [OF i(1)] assms(1,2) True f d1 by (simp add: running_def configured_def loaded_def)
  then show ?thesis by (simp add: i(2) running_def configured_def published_def descriptors_def)
next
  case False
  then show ?thesis using assms by (simp add: daemon_handle_pending_signals_def)
qed

end
