(* ===== verification/Options.thy ===== *)
theory Options
  imports Daemon
begin

text \<open>
  The command lines: \<open>parse_opt\<close> and \<open>main\<close> of \<^verbatim>\<open>src/fand/main.c\<close> and \<open>parse_opt\<close> of \<^verbatim>\<open>src/fanctl/main.c\<close>.

  The argp library is not part of the program.  Its parser is represented by what it is documented to
  do with a command line that it accepts: it calls the callback once for each option and argument, in
  order, with a key and an argument, and ignores \<open>ARGP_ERR_UNKNOWN\<close> for its special keys.
\<close>

abbreviation (input) ARGP_ERR_UNKNOWN :: int where "ARGP_ERR_UNKNOWN \<equiv> E2BIG"

definition option_key :: "char \<Rightarrow> int" where
  "option_key c = of_nat (of_char c)"

text \<open>An entry of an option table: the long name, the key and the name of the argument, if there is one.\<close>

record argp_option =
  ao_name :: string
  ao_key :: char
  ao_arg :: "string option"

section \<open>The daemon\<close>

definition fand_option_table :: "argp_option list" where
  "fand_option_table =
     [\<lparr>ao_name = ''no-fork'', ao_key = CHR ''F'', ao_arg = None\<rparr>,
      \<lparr>ao_name = ''verbose'', ao_key = CHR ''v'', ao_arg = None\<rparr>,
      \<lparr>ao_name = ''config'', ao_key = CHR ''c'', ao_arg = Some ''FILE''\<rparr>]"

record fand_args =
  fa_fork :: bool
  fa_verbose :: bool
  fa_config :: string

definition fand_parse_opt :: "int \<times> string \<Rightarrow> fand_args \<Rightarrow> int \<times> fand_args" where
  "fand_parse_opt ka args =
     (case ka of (key, arg) \<Rightarrow>
        if key = option_key CHR ''F'' then (0, args\<lparr>fa_fork := False\<rparr>)
        else if key = option_key CHR ''v'' then (0, args\<lparr>fa_verbose := True\<rparr>)
        else if key = option_key CHR ''c'' then (0, args\<lparr>fa_config := arg\<rparr>)
        else (ARGP_ERR_UNKNOWN, args))"

definition CONFIG_DEFAULT_PATH :: string where
  "CONFIG_DEFAULT_PATH = ''/etc/amdgpu-fand.conf''"

definition fand_parsed :: "(int \<times> string) list \<Rightarrow> fand_args" where
  "fand_parsed calls =
     fold (\<lambda>ka args. snd (fand_parse_opt ka args)) calls
       \<lparr>fa_fork = True, fa_verbose = False, fa_config = CONFIG_DEFAULT_PATH\<rparr>"

text \<open>\<open>main\<close>, up to the loop of \<open>daemon_main\<close>.\<close>

definition fand_main :: "bool \<Rightarrow> init_env \<Rightarrow> (int \<times> string) list \<Rightarrow> int \<Rightarrow> fs \<Rightarrow> pc \<times> daemon" where
  "fand_main drm e calls junk s =
     (let args = fand_parsed calls in daemon_start drm e (fa_fork args) (fa_verbose args) (fa_config args) junk s)"

section \<open>The client\<close>

definition fanctl_option_table :: "argp_option list" where
  "fanctl_option_table =
     [\<lparr>ao_name = ''exit'', ao_key = CHR ''e'', ao_arg = None\<rparr>,
      \<lparr>ao_name = ''get'', ao_key = CHR ''g'', ao_arg = Some ''TARGET''\<rparr>]"

record ctl_args =
  ca_exit :: bool
  ca_target :: "string option"

definition fanctl_parse_opt :: "int \<times> string \<Rightarrow> ctl_args \<Rightarrow> int \<times> ctl_args" where
  "fanctl_parse_opt ka args =
     (case ka of (key, arg) \<Rightarrow>
        if key = option_key CHR ''e'' then (0, args\<lparr>ca_exit := True\<rparr>)
        else if key = option_key CHR ''g'' then (0, args\<lparr>ca_target := Some arg\<rparr>)
        else (ARGP_ERR_UNKNOWN, args))"

definition fanctl_parsed :: "(int \<times> string) list \<Rightarrow> ctl_args" where
  "fanctl_parsed calls =
     fold (\<lambda>ka args. snd (fanctl_parse_opt ka args)) calls \<lparr>ca_exit = False, ca_target = None\<rparr>"

section \<open>What the options mean\<close>

lemmas option_keys = option_key_def of_char_def

text \<open>
  The callbacks and the tables agree: a callback accepts exactly the keys of its table, and the argument of an
  option that has none (argp passes a null pointer) is never looked at.
\<close>

lemma fand_parse_opt_table:
  "fst (fand_parse_opt (key, arg) args) = 0 \<longleftrightarrow> (\<exists>op \<in> set fand_option_table. key = option_key (ao_key op))"
  "op \<in> set fand_option_table \<Longrightarrow> ao_arg op = None \<Longrightarrow>
     fand_parse_opt (option_key (ao_key op), arg) args = fand_parse_opt (option_key (ao_key op), arg') args"
  by (auto simp: fand_parse_opt_def fand_option_table_def option_keys)

lemma fanctl_parse_opt_table:
  "fst (fanctl_parse_opt (key, arg) cargs) = 0 \<longleftrightarrow> (\<exists>op \<in> set fanctl_option_table. key = option_key (ao_key op))"
  "op \<in> set fanctl_option_table \<Longrightarrow> ao_arg op = None \<Longrightarrow>
     fanctl_parse_opt (option_key (ao_key op), arg) cargs = fanctl_parse_opt (option_key (ao_key op), arg') cargs"
  by (auto simp: fanctl_parse_opt_def fanctl_option_table_def option_keys)

lemma fand_fold:
  "fold (\<lambda>ka args. snd (fand_parse_opt ka args)) calls a =
     \<lparr>fa_fork = (fa_fork a \<and> (\<forall>ka \<in> set calls. fst ka \<noteq> option_key CHR ''F'')),
      fa_verbose = (fa_verbose a \<or> (\<exists>ka \<in> set calls. fst ka = option_key CHR ''v'')),
      fa_config = last (fa_config a # map snd (filter (\<lambda>ka. fst ka = option_key CHR ''c'') calls))\<rparr>"
proof (induction calls arbitrary: a)
  case (Cons ka calls)
  show ?case unfolding fold_simps(2) comp_def Cons.IH by (cases ka) (auto simp: fand_parse_opt_def option_keys)
qed simp

text \<open>
  The daemon runs in the background unless one of the options says otherwise, and the last path wins;
  keys that the callback does not know change nothing.
\<close>

lemma fand_options:
  "fa_fork (fand_parsed calls) \<longleftrightarrow> (\<forall>ka \<in> set calls. fst ka \<noteq> option_key CHR ''F'')"
  "fa_verbose (fand_parsed calls) \<longleftrightarrow> (\<exists>ka \<in> set calls. fst ka = option_key CHR ''v'')"
  "fa_config (fand_parsed calls) =
     last (CONFIG_DEFAULT_PATH # map snd (filter (\<lambda>ka. fst ka = option_key CHR ''c'') calls))"
  by (simp_all add: fand_parsed_def fand_fold)

lemma fanctl_fold:
  "fold (\<lambda>ka args. snd (fanctl_parse_opt ka args)) calls a =
     \<lparr>ca_exit = (ca_exit a \<or> (\<exists>ka \<in> set calls. fst ka = option_key CHR ''e'')),
      ca_target = last (ca_target a # map (\<lambda>ka. Some (snd ka)) (filter (\<lambda>ka. fst ka = option_key CHR ''g'') calls))\<rparr>"
proof (induction calls arbitrary: a)
  case (Cons ka calls)
  show ?case unfolding fold_simps(2) comp_def Cons.IH by (cases ka) (auto simp: fanctl_parse_opt_def option_keys)
qed simp

lemma fanctl_options:
  "ca_exit (fanctl_parsed calls) \<longleftrightarrow> (\<exists>ka \<in> set calls. fst ka = option_key CHR ''e'')"
  "ca_target (fanctl_parsed calls) =
     last (None # map (\<lambda>ka. Some (snd ka)) (filter (\<lambda>ka. fst ka = option_key CHR ''g'') calls))"
  by (simp_all add: fanctl_parsed_def fanctl_fold)

end
