(* ===== verification/Daemon_Run.thy ===== *)
theory Daemon_Run
  imports Daemon
begin

text \<open>
  The runs of the daemon: the invariant of its main loop, and what holds of a start, a reload, a restart
  and a shutdown in the states that a run reaches.
\<close>

section \<open>Runs\<close>

inductive_cases loop_step: "pstep tmp fork verbose config (At_loop, d) y"
inductive_cases watch_step: "pstep tmp fork verbose config (At_watch, d) y"
inductive_cases signals_step: "pstep tmp fork verbose config (At_signals, d) y"
inductive_cases poll_step: "pstep tmp fork verbose config (At_poll, d) y"

lemma in_loop_simps [simp]:
  "in_loop At_loop" "in_loop At_watch" "in_loop At_signals" "in_loop At_poll" "\<not> in_loop (Exited c)" "\<not> in_loop Undefined"
  by (simp_all add: in_loop_def)

lemma pstep_in_loop: "pstep tmp fork verbose config (pc, d) y \<Longrightarrow> in_loop pc"
  by (auto elim: pstep.cases)

text \<open>Nothing brings the daemon back to life.\<close>

lemma init_alive: "daemon_init e fork verbose config d = Some (r, d') \<Longrightarrow> d_alive d' = d_alive d"
  by (auto simp: daemon_init_def Let_def split: if_splits option.splits prod.splits)

lemma free_alive: "daemon_free f d = (r, d') \<Longrightarrow> d_alive d' = d_alive d"
  by (auto simp: daemon_free_def split: prod.splits)

lemma pending_alive:
  assumes "daemon_handle_pending_signals f ie fork verbose config d = Some d'" "d_alive d'"
  shows "d_alive d"
proof (cases "d_sigpipe_caught d")
  case True
  obtain st d1 where f: "daemon_free f d = (st, d1)" by (cases "daemon_free f d")
  with True assms obtain r d2 where i: "daemon_init ie fork verbose config d1 = Some (r, d2)"
    by (auto simp: daemon_handle_pending_signals_def daemon_restart_def split: option.splits)
  with True assms f have "d_alive d2"
    by (auto simp: daemon_handle_pending_signals_def daemon_restart_def split: if_splits)
  with init_alive [OF i] free_alive [OF f] show ?thesis by simp
qed (use assms in \<open>simp add: daemon_handle_pending_signals_def\<close>)

lemma alive_mono:
  "daemon_adjust_fanspeed src k d = Some d' \<Longrightarrow> d_alive d' \<Longrightarrow> d_alive d"
  "daemon_watch_event e k t events config d = Some d' \<Longrightarrow> d_alive d' \<Longrightarrow> d_alive d"
  "daemon_handle_pending_signals f ie fork verbose config d = Some d' \<Longrightarrow> d_alive d' \<Longrightarrow> d_alive d"
  "d_alive (daemon_poll pe k src buffer d) \<Longrightarrow> d_alive d"
  "d_alive (daemon_sighandler sig junk reaped d) \<Longrightarrow> d_alive d"
proof -
  show "daemon_adjust_fanspeed src k d = Some d' \<Longrightarrow> d_alive d' \<Longrightarrow> d_alive d"
    by (auto simp: daemon_adjust_fanspeed_def daemon_kill_def Let_def split: option.splits if_splits)
  show "daemon_watch_event e k t events config d = Some d' \<Longrightarrow> d_alive d' \<Longrightarrow> d_alive d"
    by (auto simp: daemon_watch_event_def daemon_reload_def daemon_kill_def Let_def split: option.splits if_splits prod.splits)
  show "daemon_handle_pending_signals f ie fork verbose config d = Some d' \<Longrightarrow> d_alive d' \<Longrightarrow> d_alive d"
    by (rule pending_alive)
  show "d_alive (daemon_poll pe k src buffer d) \<Longrightarrow> d_alive d" by (simp add: daemon_poll_def split: prod.splits)
  show "d_alive (daemon_sighandler sig junk reaped d) \<Longrightarrow> d_alive d"
    by (cases sig) (auto simp: daemon_kill_def split: if_splits)
qed

lemma pstep_alive: "pstep tmp fork verbose config (pc, d) (pc', d') \<Longrightarrow> d_alive d' \<Longrightarrow> d_alive d"
  by (erule pstep.cases) (auto split: option.splits dest: alive_mono free_alive)

lemma istep_alive: "istep sigs (pc, d) (pc', d') \<Longrightarrow> d_alive d' \<Longrightarrow> d_alive d"
  by (erule istep.cases) (auto dest: alive_mono split: if_splits)

lemma istep_pc: "istep sigs (pc, d) (pc', d') \<Longrightarrow> pc' = pc \<and> in_loop pc"
  by (erule istep.cases) auto

definition loop_inv :: "signal set \<Rightarrow> pc \<times> daemon \<Rightarrow> bool" where
  "loop_inv sigs x \<longleftrightarrow> (in_loop (fst x) \<longrightarrow> (d_alive (snd x) \<or> SIGPIPE \<notin> sigs \<longrightarrow> running (snd x)) \<and>
     (SIGPIPE \<notin> sigs \<longrightarrow> \<not> d_sigpipe_caught (snd x) \<and> drm_apart (snd x)))"

lemma pstep_inv:
  assumes "pstep tmp fork verbose config (pc, d) (pc', d')" "loop_inv sigs (pc, d)" "\<forall>t \<in> tmp. valid_config t"
  shows "loop_inv sigs (pc', d')"
  using assms(1)
proof cases
  case (adjust src k r)
  then show ?thesis using assms(2) adjust_running alive_mono(1)
    by (cases r) (auto simp: loop_inv_def)
next
  case (watch t e k events r)
  show ?thesis
  proof (cases r)
    case None
    with watch show ?thesis by (simp add: loop_inv_def)
  next
    case (Some d1)
    with watch have d1: "daemon_watch_event e k t events config d = Some d'" "pc' = At_signals" by simp_all
    have "valid_config t" using watch assms(3) by blast
    with watch_running [of d t e k events config] d1 have
      "running d \<Longrightarrow> running d' \<and> d_sigpipe_caught d' = d_sigpipe_caught d \<and> drm_apart d' = drm_apart d" by auto
    with alive_mono(2) [OF d1(1)] assms(2) show ?thesis by (auto simp: loop_inv_def watch d1(2))
  qed
next
  case (signals e f r)
  show ?thesis
  proof (cases r)
    case None
    with signals show ?thesis by (simp add: loop_inv_def)
  next
    case (Some d1)
    with signals have d1: "daemon_handle_pending_signals f e fork verbose config d = Some d'" "pc' = At_poll" by simp_all
    have "running d'" if "running d" "d_alive d' \<or> \<not> d_sigpipe_caught d"
      using that(1) signals(3) d1(1) that(2) by (rule restart_running)
    moreover have "d' = d" if "\<not> d_sigpipe_caught d" using that d1(1) by (simp add: daemon_handle_pending_signals_def)
    ultimately show ?thesis using alive_mono(3) [OF d1(1)] assms(2) by (auto simp: loop_inv_def signals d1(2))
  qed
next
  case (poll e src k buffer)
  have "running d \<Longrightarrow> running d' \<and> d_sigpipe_caught d' = d_sigpipe_caught d \<and> (drm_apart d \<longrightarrow> drm_apart d')"
    using poll_running(1-3) [OF _ poll(4), of k src buffer] poll(3) by simp
  with alive_mono(4) [of e k src buffer d] assms(2) show ?thesis by (auto simp: loop_inv_def poll)
next
  case (leave f r)
  then show ?thesis by (simp add: loop_inv_def)
qed

lemma istep_inv:
  assumes "istep sigs (pc, d) (pc', d')" "loop_inv sigs (pc, d)"
  shows "loop_inv sigs (pc', d')"
proof -
  have "running d' \<and> drm_apart d' = drm_apart d \<and> (SIGPIPE \<notin> sigs \<longrightarrow> \<not> d_sigpipe_caught d \<longrightarrow> \<not> d_sigpipe_caught d')"
    if "running d"
    using assms(1)
  proof cases
    case (signal sig junk)
    then show ?thesis using that
      by (cases sig) (auto simp: daemon_kill_def drm_apart_def running_def configured_def published_def descriptors_def)
  qed (use that in \<open>auto simp: drm_apart_def running_def configured_def published_def descriptors_def\<close>)
  then show ?thesis using assms(2) istep_pc [OF assms(1)] istep_alive [OF assms(1)] by (auto simp: loop_inv_def)
qed

lemma start_inv:
  assumes "daemon_start drm e fork verbose config junk s = (At_loop, d)" "d_alive d" "fresh_fds e fork s"
  shows "loop_inv sigs (At_loop, d)"
proof -
  from assms(1,2) obtain r where i: "daemon_init e fork verbose config (daemon_static drm junk s) = Some (r, d)" "r = 0"
    by (auto simp: daemon_start_def daemon_kill_def split: option.splits if_splits)
  have "running d \<and> d_sigpipe_caught d = False \<and> drm_apart d"
    using init_running [OF i(1) [unfolded i(2)]] assms(3)
    by (auto simp: daemon_static_def fanctrl_initial_def valid_config_def nrows_def split: if_splits)
  then show ?thesis by (simp add: loop_inv_def)
qed

text \<open>The number of program steps that are left once the daemon is told to stop.\<close>

fun steps_left :: "pc \<Rightarrow> nat" where
  "steps_left At_watch = 4"
| "steps_left At_signals = 3"
| "steps_left At_poll = 2"
| "steps_left At_loop = 1"
| "steps_left _ = 0"

lemma pstep_steps_left:
  assumes "pstep tmp fork verbose config (pc, d) (pc', d')" "\<not> d_alive d"
  shows "Suc (steps_left pc') \<le> steps_left pc"
  using assms by (cases rule: pstep.cases) (auto split: option.splits)

interpretation daemon_loop: interrupted_program "pstep tmp fork verbose config" "istep sigs"
  "\<lambda>x. (\<forall>t \<in> tmp. valid_config t) \<longrightarrow> loop_inv sigs x" "\<lambda>x. \<not> d_alive (snd x)" "\<lambda>x. steps_left (fst x)" for tmp fork verbose config sigs
proof
  fix x y :: "pc \<times> daemon"
  show "(\<forall>t \<in> tmp. valid_config t) \<longrightarrow> loop_inv sigs y"
    if "pstep tmp fork verbose config x y" "(\<forall>t \<in> tmp. valid_config t) \<longrightarrow> loop_inv sigs x"
    using that pstep_inv [of tmp fork verbose config "fst x" "snd x" "fst y" "snd y" sigs] by simp
  show "(\<forall>t \<in> tmp. valid_config t) \<longrightarrow> loop_inv sigs y" if "istep sigs x y" "(\<forall>t \<in> tmp. valid_config t) \<longrightarrow> loop_inv sigs x"
    using that istep_inv [of sigs "fst x" "snd x" "fst y" "snd y"] by simp
  show "\<not> d_alive (snd y) \<and> steps_left (fst y) < steps_left (fst x)" if "pstep tmp fork verbose config x y" "\<not> d_alive (snd x)"
    using that pstep_steps_left [of tmp fork verbose config "fst x" "snd x" "fst y" "snd y"]
      pstep_alive [of tmp fork verbose config "fst x" "snd x" "fst y" "snd y"] by auto
  show "\<not> d_alive (snd y) \<and> steps_left (fst y) \<le> steps_left (fst x)" if "istep sigs x y" "\<not> d_alive (snd x)"
  proof -
    have "istep sigs (fst x, snd x) (fst y, snd y)" using that(1) by simp
    from istep_pc [OF this] istep_alive [OF this] that(2) show ?thesis by auto
  qed
qed

text \<open>Leaving gives everything back.\<close>

text \<open>What a shutdown does to the files: the four calls before the card is released, and the release.\<close>

definition closed_down :: "free_env \<Rightarrow> daemon \<Rightarrow> fs" where
  "closed_down f d = (d_fs d)\<lparr>
     fs_fds := (fs_fds (d_fs d))(watch_fd (d_watch d) := None, d_pollfd d := None),
     fs_files := (fs_files (d_fs d))(DAEMON_SERVER_SOCKET := None, FAND_PIDFILE_PATH := None),
     fs_sockets := (fs_sockets (d_fs d))(DAEMON_SERVER_SOCKET := False, FAND_PIDFILE_PATH := False),
     fs_dirs := (fs_dirs (d_fs d))(DAEMON_WORKING_DIR := fe_rmdir_fails f)\<rparr>"

definition released :: "free_env \<Rightarrow> daemon \<Rightarrow> fs" where
  "released f d =
     (let s = closed_down f d;
          s' = (if io_write_err (fe_release_io f) then s else put_file s (field_path (pwm_enable (hw_cache (d_hwmon d)))) (bytes ''2''))
      in s'\<lparr>fs_fds := (case d_drm d of None \<Rightarrow> fs_fds s | Some fd \<Rightarrow> (fs_fds s)(fd := None))(hw_fd (d_hwmon d) := None)\<rparr>)"

lemma free_files:
  assumes "running d" "daemon_free f d = (r, d')"
  shows "\<exists>st5 s5. fanctrl_release (fe_release_io f) (closed_down f d) (d_hwmon d) (d_drm d) = (st5, s5) \<and>
    r = (if fe_rm_watch_fails f \<or> fe_rmdir_fails f \<or> st5 \<noteq> 0 then - 1 else 0) \<and> d' = d\<lparr>d_fs := s5, d_log_options := None\<rparr>"
proof -
  have r: "fs_fds (d_fs d) (watch_fd (d_watch d)) \<noteq> None" "fs_fds (d_fs d) (d_pollfd d) \<noteq> None"
    "watch_fd (d_watch d) \<noteq> d_pollfd d" "watch_fd (d_watch d) \<noteq> - 1"
    using assms(1) by (simp_all add: running_def descriptors_def)
  have p: "fs_files (d_fs d) FAND_PIDFILE_PATH \<noteq> None" "fs_sockets (d_fs d) DAEMON_SERVER_SOCKET" "fs_dirs (d_fs d) DAEMON_WORKING_DIR"
    "\<not> fs_dirs (d_fs d) FAND_PIDFILE_PATH" "\<not> fs_dirs (d_fs d) DAEMON_SERVER_SOCKET"
    using assms(1) by (simp_all add: running_def published_def)
  define s1 where "s1 = (d_fs d)\<lparr>fs_fds := (fs_fds (d_fs d))(watch_fd (d_watch d) := None)\<rparr>"
  define s2 where "s2 = s1\<lparr>fs_fds := (fs_fds s1)(d_pollfd d := None), fs_files := (fs_files s1)(DAEMON_SERVER_SOCKET := None),
    fs_sockets := (fs_sockets s1)(DAEMON_SERVER_SOCKET := False)\<rparr>"
  define s3 where "s3 = s2\<lparr>fs_files := (fs_files s2)(FAND_PIDFILE_PATH := None), fs_sockets := (fs_sockets s2)(FAND_PIDFILE_PATH := False)\<rparr>"
  have "fsys_watch_clear (fe_rm_watch_fails f) (d_fs d) (d_watch d) = (if fe_rm_watch_fails f then - 1 else 0, s1)"
    using r by (auto simp: fsys_watch_clear_def sys_close_def s1_def)
  moreover have "server_kill s1 (d_pollfd d) = (0, s2)"
    using r p by (auto simp: server_kill_def server_kill_at_def sys_close_def unlink_def s1_def s2_def)
  moreover have "pidfile_unlink s2 = (0, s3)"
    using p path_names by (simp add: pidfile_unlink_def unlink_def s1_def s2_def s3_def)
  moreover have "sys_rmdir (fe_rmdir_fails f) s3 DAEMON_WORKING_DIR [FAND_PIDFILE_PATH, DAEMON_SERVER_SOCKET] =
      (if fe_rmdir_fails f then - 1 else 0, closed_down f d)"
    using p path_names by (auto simp: sys_rmdir_def path_exists_def s1_def s2_def s3_def closed_down_def fun_upd_idem)
  ultimately show ?thesis
    using assms(2) by (auto simp: daemon_free_def split: if_splits prod.splits)
qed

lemma free_released:
  assumes "running d" "drm_apart d" "daemon_free f d = (r, d')"
  shows "r = (if fe_rm_watch_fails f \<or> fe_rmdir_fails f then - 1 else 0)"
    and "d' = d\<lparr>d_fs := released f d, d_log_options := None\<rparr>"
proof -
  let ?s = "closed_down f d"
  define s' where "s' = (case d_drm d of None \<Rightarrow> ?s | Some fd \<Rightarrow> ?s\<lparr>fs_fds := (fs_fds ?s)(fd := None)\<rparr>)"
  have r: "fs_fds (d_fs d) (hw_fd (d_hwmon d)) = Some (field_path (pwm_enable (hw_cache (d_hwmon d))))"
    "hw_fd (d_hwmon d) \<noteq> watch_fd (d_watch d)" "hw_fd (d_hwmon d) \<noteq> d_pollfd d" "hw_fd (d_hwmon d) \<noteq> - 1"
    using assms(1) by (simp_all add: running_def descriptors_def)
  have drm: "fs_fds (d_fs d) fd \<noteq> None" "fd \<noteq> hw_fd (d_hwmon d)" "fd \<noteq> watch_fd (d_watch d)" "fd \<noteq> d_pollfd d" if "d_drm d = Some fd" for fd
    using assms(2) that by (simp_all add: drm_apart_def)
  have "fs_fds s' (hw_fd (d_hwmon d)) = Some (field_path (pwm_enable (hw_cache (d_hwmon d))))"
    using r drm by (auto simp: s'_def closed_down_def split: option.split)
  moreover have "fanctrl_release (fe_release_io f) ?s (d_hwmon d) (d_drm d) = hwmon_close (fe_release_io f) s' (d_hwmon d)"
    using drm by (auto simp: fanctrl_release_def drm_close_def sys_close_def s'_def closed_down_def split: option.splits)
  ultimately have "fanctrl_release (fe_release_io f) ?s (d_hwmon d) (d_drm d) = (0, released f d)"
    using r(4) by (simp add: hwmon_close_def fdwrite_ulong_def fdclose_excl_def sys_close_def print_auto Let_def put_file_def s'_def released_def
        split: option.split)
  with free_files [OF assms(1,3)] show "r = (if fe_rm_watch_fails f \<or> fe_rmdir_fails f then - 1 else 0)"
    "d' = d\<lparr>d_fs := released f d, d_log_options := None\<rparr>" by auto
qed

lemma free_running:
  assumes "running d" "drm_apart d" "take 5 (field_path (pwm_enable (hw_cache (d_hwmon d)))) = ''/sys/''" "daemon_free f d = (r, d')"
  shows "\<not> path_exists (d_fs d') FAND_PIDFILE_PATH" "\<not> path_exists (d_fs d') DAEMON_SERVER_SOCKET"
    "fs_dirs (d_fs d') DAEMON_WORKING_DIR = fe_rmdir_fails f"
    "fs_fds (d_fs d') (hw_fd (d_hwmon d)) = None" "fs_fds (d_fs d') (watch_fd (d_watch d)) = None"
    "fs_fds (d_fs d') (d_pollfd d) = None" "d_drm d = Some fd \<Longrightarrow> fs_fds (d_fs d') fd = None"
    "\<not> io_write_err (fe_release_io f) \<Longrightarrow>
      fs_files (d_fs d') (field_path (pwm_enable (hw_cache (d_hwmon d)))) = Some (bytes ''2'')"
    "r = (if fe_rm_watch_fails f \<or> fe_rmdir_fails f then - 1 else 0)"
proof -
  have "field_path (pwm_enable (hw_cache (d_hwmon d))) \<noteq> FAND_PIDFILE_PATH"
    "field_path (pwm_enable (hw_cache (d_hwmon d))) \<noteq> DAEMON_SERVER_SOCKET"
    using assms(3) by (auto simp: FAND_PIDFILE_PATH_def DAEMON_SERVER_SOCKET_def DAEMON_WORKING_DIR_def)
  note neq = this path_names
  have p: "\<not> fs_dirs (d_fs d) FAND_PIDFILE_PATH" "\<not> fs_dirs (d_fs d) DAEMON_SERVER_SOCKET"
    using assms(1) by (simp_all add: running_def published_def)
  note free = free_released [OF assms(1,2,4)]
  show "r = (if fe_rm_watch_fails f \<or> fe_rmdir_fails f then - 1 else 0)" by (rule free)
  show "\<not> path_exists (d_fs d') FAND_PIDFILE_PATH" "\<not> path_exists (d_fs d') DAEMON_SERVER_SOCKET"
    "fs_dirs (d_fs d') DAEMON_WORKING_DIR = fe_rmdir_fails f"
    "\<not> io_write_err (fe_release_io f) \<Longrightarrow>
      fs_files (d_fs d') (field_path (pwm_enable (hw_cache (d_hwmon d)))) = Some (bytes ''2'')"
    using p neq by (simp_all add: free(2) released_def closed_down_def path_exists_def put_file_def Let_def)
  show "fs_fds (d_fs d') (hw_fd (d_hwmon d)) = None" "fs_fds (d_fs d') (watch_fd (d_watch d)) = None"
    "fs_fds (d_fs d') (d_pollfd d) = None" "d_drm d = Some fd \<Longrightarrow> fs_fds (d_fs d') fd = None" for fd
    by (auto simp: free(2) released_def closed_down_def Let_def split: option.split)
qed

lemma release_unopened:
  assumes "hw_fd h = - 1" "drm = None \<or> drm = Some (- 1)"
  shows "fs_files (snd (fanctrl_release k s h drm)) = fs_files s" "fs_dirs (snd (fanctrl_release k s h drm)) = fs_dirs s"
    "fs_sockets (snd (fanctrl_release k s h drm)) = fs_sockets s" "fs_fds (snd (fanctrl_release k s h drm)) 0 = fs_fds s 0"
  using assms by (auto simp: fanctrl_release_def drm_close_def hwmon_close_def sys_close_def)

lemma free_unstarted:
  assumes "daemon_free f d = (r, d')" "d_pollfd d = 0" "hw_fd (d_hwmon d) = - 1"
    "d_drm d = None \<or> d_drm d = Some (- 1)" "fs_dirs (d_fs d) DAEMON_WORKING_DIR"
    "\<not> fs_dirs (d_fs d) FAND_PIDFILE_PATH" "\<not> fs_dirs (d_fs d) DAEMON_SERVER_SOCKET"
  shows "\<not> path_exists (d_fs d') FAND_PIDFILE_PATH \<and> \<not> path_exists (d_fs d') DAEMON_SERVER_SOCKET \<and>
    fs_dirs (d_fs d') DAEMON_WORKING_DIR = fe_rmdir_fails f \<and> fs_fds (d_fs d') 0 = None"
proof -
  obtain r1 s1 where s1: "fsys_watch_clear (fe_rm_watch_fails f) (d_fs d) (d_watch d) = (r1, s1)" by (metis prod.exhaust)
  obtain r2 s2 where s2: "server_kill s1 (d_pollfd d) = (r2, s2)" by (metis prod.exhaust)
  obtain r3 s3 where s3: "pidfile_unlink s2 = (r3, s3)" by (metis prod.exhaust)
  obtain r4 s4 where s4: "sys_rmdir (fe_rmdir_fails f) s3 DAEMON_WORKING_DIR [FAND_PIDFILE_PATH, DAEMON_SERVER_SOCKET] = (r4, s4)"
    by (metis prod.exhaust)
  have d': "d_fs d' = snd (fanctrl_release (fe_release_io f) s4 (d_hwmon d) (d_drm d))"
    using assms(1) s1 s2 s3 s4 by (auto simp: daemon_free_def split: prod.splits)
  have 1: "fs_dirs s1 = fs_dirs (d_fs d)" using s1 by (auto simp: fsys_watch_clear_def sys_close_def split: if_splits)
  have 2: "fs_dirs s2 = fs_dirs s1" "\<not> fs_sockets s2 DAEMON_SERVER_SOCKET" "fs_files s2 DAEMON_SERVER_SOCKET = None" "fs_fds s2 0 = None"
    using s2 assms(2) by (auto simp: server_kill_def server_kill_at_def sys_close_def unlink_def split: if_splits)
  have 3: "fs_dirs s3 = fs_dirs s2" "\<not> fs_sockets s3 DAEMON_SERVER_SOCKET" "fs_files s3 DAEMON_SERVER_SOCKET = None"
    "\<not> fs_sockets s3 FAND_PIDFILE_PATH" "fs_files s3 FAND_PIDFILE_PATH = None" "fs_fds s3 0 = None"
    using s3 2 by (auto simp: pidfile_unlink_def unlink_def split: if_splits)
  have 4: "fs_dirs s4 = (fs_dirs s3)(DAEMON_WORKING_DIR := fe_rmdir_fails f)" "fs_files s4 = fs_files s3" "fs_sockets s4 = fs_sockets s3"
    "fs_fds s4 = fs_fds s3"
    using s4 3 1 2(1) assms(5-7) by (auto simp: sys_rmdir_def path_exists_def split: if_splits)
  show ?thesis unfolding d' path_exists_def release_unopened [OF assms(3,4)]
    using 1 2(1) 3 4 assms(5-7) path_names by simp
qed

text \<open>The controller of a running daemon never leaves the range of its conversions when the speeds do not fall.\<close>

lemma adjust_defined:
  assumes "loaded cfg s" "matrix_ok cfg"
  shows "fanctrl_adjust s sensor fw \<noteq> None"
proof (cases "sensor < 0")
  case True
  moreover have "rows s \<noteq> 0" using assms(2) by (simp only: loaded_rows [OF assms(1)] matrix_ok_def) simp
  ultimately show ?thesis by (simp add: fanctrl_adjust_unfold fanctrl_get_temp_def)
next
  case False
  then show ?thesis using adjust_eq [OF assms _ refl refl, of sensor fw] by simp
qed

text \<open>The program is never stuck inside the loop.\<close>

definition poll_nothing :: poll_env where
  "poll_nothing = \<lparr>pe_poll = (\<lambda>_. Poll_timeout), pe_newfd = - 1, pe_fork_fails = False, pe_child = example_request 0 0\<rparr>"

definition no_descriptors :: init_env where
  "no_descriptors = \<lparr>ie_sigaction_fails = (\<lambda>_. False),
     ie_fork = \<lparr>fk_fork_fails = True, fk_setsid_fails = False, fk_refork_fails = False, fk_open_max = 1024\<rparr>,
     ie_mkdir_fails = False, ie_pid = example_pid, ie_chdir_fails = False, ie_config = env_ok, ie_config_io = io_ok 3,
     ie_sock = \<lparr>so_fd = - 1, so_bind_fails = False, so_chmod_fails = False, so_listen_fails = False\<rparr>,
     ie_inotify_fd = - 1, ie_inotify_wd = - 1, ie_hwmon = example_env\<lparr>he_fd_io := (io_ok 5)\<lparr>io_open_err := Some EACCES\<rparr>\<rparr>,
     ie_drm = \<lparr>dr_regcomp_fails = False, dr_entries = Some [], dr_newfd = - 1\<rparr>\<rparr>"

lemma built_for_any: "built_for drm (if drm = None then Hwmon_source (io_ok 3) else Drm_source (Inl ()))"
  by (simp add: built_for_def)

lemma pstep_progress:
  assumes "in_loop pc" "t \<in> tmp"
  shows "\<exists>y. pstep tmp fork verbose config (pc, d) y"
proof (cases pc)
  case At_loop
  show ?thesis
  proof (cases "d_alive d")
    case True
    from pstep.adjust [OF this built_for_any refl, of tmp fork verbose config "io_ok 3"] At_loop show ?thesis by blast
  next
    case False
    obtain r d' where "daemon_free undefined d = (r, d')" by (metis prod.exhaust)
    from pstep.leave [OF False this, of tmp fork verbose config] At_loop show ?thesis by blast
  qed
next
  case At_watch
  then show ?thesis using pstep.watch [of t tmp env_ok "io_ok 3" None config d _ fork verbose, OF assms(2) refl] by blast
next
  case At_signals
  have "fresh_fds no_descriptors fork s" for s
    by (simp add: fresh_fds_def no_descriptors_def)
  then show ?thesis
    using pstep.signals [of d no_descriptors fork _ verbose config _ tmp, OF _ refl] At_signals by blast
next
  case At_poll
  then show ?thesis using pstep.poll [OF _ built_for_any, of poll_nothing d tmp fork verbose config] by (auto simp: poll_nothing_def)
qed (use assms(1) in simp_all)

section \<open>Properties\<close>

text \<open>An example: a machine with a configuration file and the cache of an earlier start.\<close>

definition config_path :: string where
  "config_path = ''/etc/amdgpu-fand.conf''"

definition machine :: fs where
  "machine = (put_file cached_fs config_path (bytes (config_text example_items)))\<lparr>fs_dirs := (\<lambda>p. p = ''/etc'')\<rparr>"

definition machine_env :: init_env where
  "machine_env = \<lparr>ie_sigaction_fails = (\<lambda>_. False),
     ie_fork = \<lparr>fk_fork_fails = False, fk_setsid_fails = False, fk_refork_fails = False, fk_open_max = 1024\<rparr>,
     ie_mkdir_fails = False, ie_pid = example_pid, ie_chdir_fails = False, ie_config = env_ok, ie_config_io = io_ok 3,
     ie_sock = \<lparr>so_fd = 4, so_bind_fails = False, so_chmod_fails = False, so_listen_fails = False\<rparr>,
     ie_inotify_fd = 6, ie_inotify_wd = 1, ie_hwmon = example_env\<lparr>he_realpath := Some\<rparr>,
     ie_drm = \<lparr>dr_regcomp_fails = False, dr_entries = Some [], dr_newfd = - 1\<rparr>\<rparr>"

definition machine_static :: daemon where
  "machine_static = daemon_static False 0 machine"

definition machine_pidfile :: fs where
  "machine_pidfile = put_file (machine\<lparr>fs_dirs := (fs_dirs machine)(DAEMON_WORKING_DIR := True)\<rparr>)
     FAND_PIDFILE_PATH (bytes (print_int 42 @ [newline_char]))"

definition machine_socket :: fs where
  "machine_socket = put_socket (machine_pidfile\<lparr>fs_fds := (fs_fds machine_pidfile)(4 \<mapsto> ''socket'')\<rparr>) DAEMON_SERVER_SOCKET True"

definition machine_watched :: fs where
  "machine_watched = machine_socket\<lparr>fs_fds := (fs_fds machine_socket)(6 \<mapsto> ''/etc'')\<rparr>"

definition machine_config :: fand_config where
  "machine_config = fold apply_item example_items (d_data machine_static)"

lemmas machine_base = machine_def cached_fs_def example_fs_def put_file_def config_path_def FAND_CACHE_FILE_def FAND_CACHE_DIR_def
  DAEMON_WORKING_DIR_def FAND_PIDFILE_PATH_def DAEMON_SERVER_SOCKET_def path_exists_def

lemma machine_pidfile_written:
  obtains s where "sys_mkdir False machine DAEMON_WORKING_DIR = (0, s)" "pidfile_write example_pid s = Some (0, machine_pidfile)"
proof
  let ?s = "machine\<lparr>fs_dirs := (fs_dirs machine)(DAEMON_WORKING_DIR := True)\<rparr>"
  show "sys_mkdir False machine DAEMON_WORKING_DIR = (0, ?s)" by (simp add: sys_mkdir_def machine_base)
  show "pidfile_write example_pid ?s = Some (0, machine_pidfile)"
    by (simp add: pidfile_write_def Let_def machine_pidfile_def machine_base example_pid_def print_example_pid)
qed

lemma machine_config_rows:
  "cfg_matrix_rows machine_config = 3" "cfg_matrix machine_config = [50, 5, 60, 20, 70, 100] @ replicate 26 0"
proof -
  have eq: "machine_config = (d_data machine_static)\<lparr>cfg_interval := 5, cfg_matrix := [50, 5, 60, 20, 70, 100] @ replicate 26 0, cfg_matrix_rows := 3\<rparr>"
    unfolding machine_config_def machine_static_def daemon_static_def daemon.simps by code_simp
  show "cfg_matrix_rows machine_config = 3" "cfg_matrix machine_config = [50, 5, 60, 20, 70, 100] @ replicate 26 0"
    unfolding eq by simp_all
qed

lemma machine_config_parsed:
  "config_parse env_ok (io_ok 3) machine_pidfile config_path (d_data machine_static) = Some (0, machine_config)"
proof -
  have ok: "list_all item_ok example_items" by code_simp
  show ?thesis
    using config_lines_text [OF ok, of env_ok "d_data machine_static"] machine_config_rows
    by (simp add: config_parse_def fopen_def io_ok_def env_ok_def machine_config_def machine_pidfile_def machine_base)
qed

lemma machine_server: "server_init (ie_sock machine_env) machine_pidfile 0 = Some (0, machine_socket, 4)"
  by (simp add: server_init_def server_init_at_def socket_path_fits Let_def machine_env_def machine_socket_def)
    (simp add: machine_pidfile_def machine_base cstr_def)

lemma machine_watch:
  obtains w where "fsys_watch_init Some machine_socket config_path (d_watch machine_static) 2 6 1 = Some (0, w, machine_watched)"
proof
  define w where "w = (d_watch machine_static)\<lparr>watch_fd := 6, watch_wd := 1, watch_flags := 2, watch_triggered := False\<rparr>"
  have "strrchr config_path CHR ''/'' = Some 4" unfolding config_path_def by code_simp
  moreover have "strscpy (replicate 256 NUL) config_path 256 = Some (21, config_path @ NUL # replicate 234 NUL)"
    using strscpy_fits [of config_path 256 "replicate 256 NUL"] by (simp add: config_path_def)
  moreover have "cstr (config_path @ NUL # x) = config_path" for x by (simp add: config_path_def cstr_def)
  moreover have "\<not> fsys_dir_exists machine_socket config_path" "fsys_dir_exists machine_socket ''/etc''"
      "fsys_check_entry machine_socket config_path = 0" "take 4 config_path = ''/etc''"
    by (simp_all add: fsys_dir_exists_def fsys_check_entry_def machine_socket_def put_socket_def machine_pidfile_def machine_base)
  ultimately show "fsys_watch_init Some machine_socket config_path (d_watch machine_static) 2 6 1 = Some (0, w, machine_watched)"
    by (simp add: fsys_watch_init_def fsys_abspath_def fsys_strip_filename_def w_def machine_watched_def)
qed

lemma machine_hwmon:
  obtains s h where "hwmon_open (ie_hwmon machine_env) machine_watched (d_hwmon machine_static) = Some (0, s, h)" "hw_cache h = example_loaded"
proof -
  have files: "fs_files machine_watched p =
      (if p = FAND_PIDFILE_PATH then Some (bytes (print_int 42 @ [newline_char])) else fs_files machine p)" for p
    by (simp add: machine_watched_def machine_socket_def put_socket_def machine_pidfile_def put_file_def)
  have paths: "paths_in_sysfs machine_watched example_cache"
    by (rule paths_in_sysfs_cong [OF cached_fs_ok(1)]) (simp add: files machine_def put_file_def)
  have "cache_load ctx_any (io_ok 3) 792 machine_watched (hw_cache (d_hwmon machine_static)) = Some (0, example_loaded)"
    unfolding example_loaded_def
    by (rule cache_load_image [OF ctx_any_buffer example_cache_ok(1,2) _ paths, where rest = "[]"])
      (simp_all add: files machine_base io_ok_def wf_cache_def machine_static_def daemon_static_def)
  moreover have "paths_in_sysfs machine_watched example_loaded" using paths by (simp add: paths_in_sysfs_def example_loaded_def)
  moreover have "c_int (card_idx example_loaded) = 0" by (simp add: example_loaded_def example_cache_def c_int_def)
  ultimately show thesis
    using that hwmon_open_cached [of "ie_hwmon machine_env" machine_watched "d_hwmon machine_static" example_loaded]
    by (auto simp: machine_env_def example_env_def io_ok_def)
qed

lemma machine_started:
  "\<exists>d. daemon_start False machine_env False False config_path 0 machine = (At_loop, d) \<and> d_alive d \<and>
     field_path (pwm_enable (hw_cache (d_hwmon d))) = ''/sys/e'' \<and> hw_cache (d_hwmon d) = example_loaded \<and> d_drm d = None \<and>
     cfg_matrix (d_data d) = [50, 5, 60, 20, 70, 100] @ replicate 26 0 \<and> cfg_matrix_rows (d_data d) = 3"
proof -
  obtain s1 where pid: "sys_mkdir False machine DAEMON_WORKING_DIR = (0, s1)" "pidfile_write example_pid s1 = Some (0, machine_pidfile)"
    by (rule machine_pidfile_written)
  obtain w where ws: "fsys_watch_init Some machine_socket config_path (d_watch machine_static) 2 6 1 = Some (0, w, machine_watched)"
    by (rule machine_watch)
  obtain s h where hw: "hwmon_open (ie_hwmon machine_env) machine_watched (d_hwmon machine_static) = Some (0, s, h)"
    "hw_cache h = example_loaded" by (rule machine_hwmon)
  have "fst (fanctrl_configure fanctrl_initial machine_config) = 0"
    using configure_loads(1) [of fanctrl_initial machine_config] machine_config_rows by (simp add: nrows_def fanctrl_initial_def)
  then obtain ctrl where ctrl: "fanctrl_configure fanctrl_initial machine_config = (0, ctrl)" by (metis prod.collapse)
  have e: "ie_sigaction_fails machine_env = (\<lambda>_. False)" "ie_mkdir_fails machine_env = False" "ie_pid machine_env = example_pid"
    "ie_chdir_fails machine_env = False" "ie_config machine_env = env_ok" "ie_config_io machine_env = io_ok 3"
    "he_realpath (ie_hwmon machine_env) = Some" "ie_inotify_fd machine_env = 6" "ie_inotify_wd machine_env = 1"
    by (simp_all add: machine_env_def)
  have d: "d_fs machine_static = machine" "d_pollfd machine_static = 0" "d_ctrl machine_static = fanctrl_initial" "d_drm machine_static = None"
    "resolve DAEMON_WORKING_DIR config_path = config_path"
    by (simp_all add: machine_static_def daemon_static_def resolve_def config_path_def)
  have "daemon_init machine_env False False config_path machine_static =
      Some (0, (daemon_openlog False False machine_static)\<lparr>d_fs := s, d_data := machine_config, d_pollfd := 4,
        d_watch := w, d_hwmon := h, d_drm := None, d_ctrl := ctrl\<rparr>)"
    by (simp add: daemon_init_def daemon_set_sigacts_def sigutil_sethandler_def e d pid machine_config_parsed machine_server ws
      fanctrl_init_no_drm hw ctrl Let_def)
  moreover have "field_path (pwm_enable example_loaded) = ''/sys/e''"
    by (simp add: example_loaded_def example_cache_def field_path_padded nul_free_def)
  moreover have "d_alive machine_static" by (simp add: machine_static_def daemon_static_def)
  ultimately show ?thesis using hw(2) machine_config_rows by (simp add: daemon_start_def flip: machine_static_def)
qed

lemma machine_relative:
  "\<exists>d. daemon_start False machine_env False False ''etc/amdgpu-fand.conf'' 0 machine = (At_loop, d)"
proof -
  define s1 where "s1 = machine\<lparr>fs_dirs := (fs_dirs machine)(DAEMON_WORKING_DIR := True)\<rparr>"
  define s2 where "s2 = put_file s1 FAND_PIDFILE_PATH (bytes (print_int 42 @ [newline_char]))"
  let ?path = "DAEMON_WORKING_DIR @ ''/'' @ ''etc/amdgpu-fand.conf''"
  note base = machine_def cached_fs_def example_fs_def put_file_def config_path_def FAND_CACHE_FILE_def FAND_CACHE_DIR_def
    DAEMON_WORKING_DIR_def FAND_PIDFILE_PATH_def DAEMON_SERVER_SOCKET_def path_exists_def
  have mk: "sys_mkdir False machine DAEMON_WORKING_DIR = (0, s1)" by (simp add: sys_mkdir_def s1_def base)
  have pid: "pidfile_write example_pid s1 = Some (0, s2)"
    by (simp add: pidfile_write_def Let_def s1_def s2_def base example_pid_def print_example_pid)
  have "fs_files s2 ?path = None" by (simp add: s1_def s2_def base)
  then have cfg: "config_parse env_ok (io_ok 3) s2 ?path t = Some (- 1, t)" for t
    by (simp add: config_parse_def fopen_def io_ok_def)
  have path: "resolve DAEMON_WORKING_DIR ''etc/amdgpu-fand.conf'' = ?path" by (simp add: resolve_def)
  have fs: "d_fs (daemon_static False 0 machine) = machine" by (simp add: daemon_static_def)
  have e: "ie_sigaction_fails machine_env = (\<lambda>_. False)" "ie_mkdir_fails machine_env = False" "ie_pid machine_env = example_pid"
    "ie_chdir_fails machine_env = False" "ie_config machine_env = env_ok" "ie_config_io machine_env = io_ok 3" by (simp_all add: machine_env_def)
  have "daemon_init machine_env False False ''etc/amdgpu-fand.conf'' (daemon_static False 0 machine) \<noteq> None"
    unfolding daemon_init_def path Let_def openlog_simps fs e
    by (simp add: daemon_set_sigacts_def sigutil_sethandler_def mk pid cfg del: append.simps append_Cons)
  then show ?thesis by (auto simp: daemon_start_def)
qed

lemma machine_fresh: "fresh_fds machine_env False machine"
  by (simp add: fresh_fds_def machine_env_def machine_def cached_fs_def example_fs_def put_file_def example_env_def io_ok_def)

lemma two_rows_set: "\<forall>t \<in> {two_rows}. valid_config t"
  using two_rows_ok(1) by simp





text \<open>
  C15: the daemon stops when it is told to.  Once the flag is cleared (\<open>SIGINT\<close>, \<open>SIGTERM\<close>, an exit request
  or a fatal error), no event sets it again, every continuation has at most four more program steps,
  the program is never stuck before it has left the loop, and after four steps it has left it.
\<close>

theorem daemon_stops:
  assumes "\<not> d_alive d" and "tmp \<noteq> {}" and "run tmp sigs fork verbose config n (pc, d) (pc', d')"
  shows "\<not> d_alive d' \<and> n \<le> 4 \<and> (in_loop pc' \<longrightarrow> n < 4 \<and> (\<exists>y. pstep tmp fork verbose config (pc', d') y))"
proof -
  have "n + steps_left pc' \<le> steps_left pc" "\<not> d_alive d'" using daemon_loop.run_stops [OF assms(3)] assms(1) by simp_all
  moreover have "steps_left pc \<le> 4" by (cases pc) simp_all
  moreover have "in_loop pc' \<Longrightarrow> 0 < steps_left pc'" by (cases pc') simp_all
  moreover obtain t where "t \<in> tmp" using assms(2) by blast
  ultimately show ?thesis using pstep_progress by fastforce
qed

theorem daemon_stops_witness:
  "\<exists>y. pstep {two_rows} False False config_path (At_watch, daemon_kill (daemon_static False 0 machine)) y"
  using daemon_stops [OF _ _ interleaved.start, where d = "daemon_kill (daemon_static False 0 machine)" and tmp = "{two_rows}" and pc = At_watch
      and fork = False and config = config_path]
  by (simp add: daemon_kill_def)



text \<open>
  C36: a second instance destroys the first.  When the working directory of a running daemon exists, the
  start of another one fails, as it should, in the foreground as in the background; but on its way out
  it removes the pid file and the socket of the running daemon and then its working directory, and it
  closes its own descriptor 0, because \<open>daemon_free\<close> does not know that nothing was set up.  Its exit code
  is not 0.
\<close>

theorem daemon_second_instance:
  assumes "fs_dirs s DAEMON_WORKING_DIR" and "\<not> fs_dirs s FAND_PIDFILE_PATH" and "\<not> fs_dirs s DAEMON_SERVER_SOCKET"
    and "daemon_set_sigacts (ie_sigaction_fails e) = 0" and "fork \<Longrightarrow> fst (daemon_fork (ie_fork e) s) = 0"
  shows "\<exists>d. daemon_start drm e fork verbose config junk s = (At_loop, d) \<and> \<not> d_alive d \<and> fs_files (d_fs d) = fs_files s \<and>
    (\<forall>f. \<exists>r d'. daemon_free f d = (r, d') \<and> d_status d OR r \<noteq> 0 \<and>
       \<not> path_exists (d_fs d') FAND_PIDFILE_PATH \<and> \<not> path_exists (d_fs d') DAEMON_SERVER_SOCKET \<and>
       fs_dirs (d_fs d') DAEMON_WORKING_DIR = fe_rmdir_fails f \<and> fs_fds (d_fs d') 0 = None)"
proof -
  define s0 where "s0 = (if fork then snd (daemon_fork (ie_fork e) s) else s)"
  have s0: "(if fork then daemon_fork (ie_fork e) s else (0, s)) = (0, s0)" "fs_dirs s0 = fs_dirs s" "fs_files s0 = fs_files s"
    using assms(5) by (auto simp: s0_def daemon_fork_def split: if_splits)
  define d where "d = daemon_kill ((daemon_openlog fork verbose (daemon_static drm junk s))\<lparr>d_fs := s0, d_status := 1\<rparr>)"
  have "daemon_init e fork verbose config (daemon_static drm junk s) = Some (- 1, (daemon_openlog fork verbose (daemon_static drm junk s))\<lparr>d_fs := s0\<rparr>)"
  proof -
    have fs: "d_fs (daemon_static drm junk s) = s" by (simp add: daemon_static_def)
    show ?thesis unfolding daemon_init_def Let_def openlog_simps fs s0(1) using assms(1,4) s0(2) by (simp add: sys_mkdir_def path_exists_def)
  qed
  then have start: "daemon_start drm e fork verbose config junk s = (At_loop, d)" by (simp add: daemon_start_def d_def)
  have d: "\<not> d_alive d" "d_fs d = s0" "d_status d = 1" by (simp_all add: d_def daemon_kill_def daemon_static_def)
  have "\<exists>r d'. daemon_free f d = (r, d') \<and> d_status d OR r \<noteq> 0 \<and>
       \<not> path_exists (d_fs d') FAND_PIDFILE_PATH \<and> \<not> path_exists (d_fs d') DAEMON_SERVER_SOCKET \<and>
       fs_dirs (d_fs d') DAEMON_WORKING_DIR = fe_rmdir_fails f \<and> fs_fds (d_fs d') 0 = None" for f
  proof -
    obtain r d' where f: "daemon_free f d = (r, d')" by (metis prod.exhaust)
    moreover have "r \<in> {0, - 1}" using f by (auto simp: daemon_free_def split: prod.splits if_splits)
    then have "d_status d OR r \<noteq> 0" using d(3) by auto
    moreover have "\<not> path_exists (d_fs d') FAND_PIDFILE_PATH \<and> \<not> path_exists (d_fs d') DAEMON_SERVER_SOCKET \<and>
       fs_dirs (d_fs d') DAEMON_WORKING_DIR = fe_rmdir_fails f \<and> fs_fds (d_fs d') 0 = None"
      by (rule free_unstarted [OF f]) (use assms(1-3) s0(2) in \<open>simp_all add: d_def daemon_kill_def daemon_static_def\<close>)
    ultimately show ?thesis by blast
  qed
  with start d s0(3) show ?thesis by auto
qed

theorem daemon_second_instance_witness:
  "\<exists>d d0 d' r. daemon_start False machine_env False False config_path 0 machine = (At_loop, d) \<and> running d \<and>
     daemon_start False machine_env False False config_path 0 (d_fs d) = (At_loop, d0) \<and>
     daemon_free \<lparr>fe_rm_watch_fails = False, fe_rmdir_fails = False, fe_release_io = io_ok 3\<rparr> d0 = (r, d') \<and>
     \<not> path_exists (d_fs d') DAEMON_SERVER_SOCKET"
proof -
  obtain d where d: "daemon_start False machine_env False False config_path 0 machine = (At_loop, d)" "d_alive d" using machine_started by blast
  have "running d" using start_inv [OF d machine_fresh, of "{}"] by (simp add: loop_inv_def)
  moreover from this have "fs_dirs (d_fs d) DAEMON_WORKING_DIR" "\<not> fs_dirs (d_fs d) FAND_PIDFILE_PATH" "\<not> fs_dirs (d_fs d) DAEMON_SERVER_SOCKET"
    by (simp_all add: running_def published_def)
  moreover have "daemon_set_sigacts (ie_sigaction_fails machine_env) = 0"
    by (simp add: daemon_set_sigacts_def sigutil_sethandler_def machine_env_def)
  ultimately show ?thesis
    using daemon_second_instance [of "d_fs d" machine_env False False False config_path 0] d(1) by blast
qed




definition exit_poll :: poll_env where
  "exit_poll = \<lparr>pe_poll = (\<lambda>_. Poll_ready), pe_newfd = 9, pe_fork_fails = False, pe_child = example_request ipc_req_exit 0\<rparr>"


end
