(* ===== verification/Daemon_Spec.thy ===== *)
theory Daemon_Spec
  imports Daemon_Run
begin

text \<open>
  What the daemon is for, without files, descriptors, signals and clients: an abstract fan controller.
  Its state is the configuration in force, the threshold that the hysteresis is about and what the file
  of the fan holds.  It sets the fan as the curve of the configuration says, takes a new configuration, or
  waits; the rest of the system may write the file of the fan.  The main loop of the daemon is shown to
  refine it.
\<close>

section \<open>The abstract controller\<close>

record fan_spec =
  sp_config :: fand_config
  sp_threshold :: int
  sp_file :: "byte list option"

datatype fan_event = Adjusted nat u64 | Not_adjusted nat | Reloaded fand_config | Waited | Outside

text \<open>
  With a usable matrix the speed and the next threshold are those of the curve and the hysteresis.  A
  failing write leaves the file as it is or empty.
\<close>

definition as_configured :: "fan_spec \<Rightarrow> nat \<Rightarrow> u64 \<Rightarrow> int \<Rightarrow> bool" where
  "as_configured a temp speed threshold \<longleftrightarrow>
     (matrix_ok (sp_config a) \<longrightarrow> speed = pwm_of (percentage (sp_config a) (sp_threshold a) temp) \<and>
        threshold = next_threshold (sp_config a) (sp_threshold a) temp)"

inductive fan_step :: "fan_spec \<Rightarrow> fan_event \<Rightarrow> fan_spec \<Rightarrow> bool" where
  adjusted: "as_configured a temp speed th \<Longrightarrow> speed \<le> 255 \<Longrightarrow>
    fan_step a (Adjusted temp speed) (a\<lparr>sp_threshold := th, sp_file := Some (bytes (print_ulong speed))\<rparr>)"
| not_adjusted: "as_configured a temp speed th \<Longrightarrow> file = sp_file a \<or> file = Some [] \<Longrightarrow>
    fan_step a (Not_adjusted temp) (a\<lparr>sp_threshold := th, sp_file := file\<rparr>)"
| reloaded: "valid_config c \<Longrightarrow> 0 < nrows c \<Longrightarrow> fan_step a (Reloaded c) (a\<lparr>sp_config := c, sp_threshold := - 1\<rparr>)"
| waited: "fan_step a Waited a"
| outside: "fan_step a Outside (a\<lparr>sp_file := file\<rparr>)"

definition fan_abs :: "daemon \<Rightarrow> fan_spec" where
  "fan_abs d = \<lparr>sp_config = d_data d, sp_threshold = fs_current_threshold (d_ctrl d),
     sp_file = fs_files (d_fs d) (field_path (pwm (hw_cache (d_hwmon d))))\<rparr>"

section \<open>Simulation\<close>

lemma fwrite_outcome:
  "fwrite_ulong_excl k s path v = (r, s') \<Longrightarrow>
     r = 0 \<and> fs_files s' path = Some (bytes (print_ulong v)) \<or> r \<noteq> 0 \<and> (fs_files s' path = fs_files s path \<or> fs_files s' path = Some [])"
  by (auto simp: fwrite_ulong_excl_def fopen_excl_def fopen_def fclose_excl_def put_file_def split: option.splits if_splits)

lemma adjust_written:
  assumes "fanctrl_adjust s sensor fw = Some (ret, s', Some v)"
  shows "0 \<le> sensor" "v \<le> 255"
proof -
  show "0 \<le> sensor" using assms by (cases "sensor < 0") (auto simp: fanctrl_adjust_unfold fanctrl_get_temp_def split: if_splits)
  show "v \<le> 255" using assms
    by (auto simp: fanctrl_adjust_unfold hwmon_write_pwm_def Let_def not_less split: if_split_asm option.split_asm prod.split_asm)
qed

lemma adjust_no_reading:
  assumes "fanctrl_adjust s sensor fw = Some (ret, s', written)" "sensor < 0"
  shows "s' = s \<and> written = None"
  using assms by (auto simp: fanctrl_adjust_unfold fanctrl_get_temp_def split: if_splits)

lemma adjust_sim:
  assumes "running d" "daemon_adjust_fanspeed src k d = Some d'"
  shows "\<exists>e. e \<noteq> Outside \<and> fan_step (fan_abs d) e (fan_abs d')"
proof -
  let ?path = "field_path (pwm (hw_cache (d_hwmon d)))" and ?t = "temp_reading src (d_fs d) (d_hwmon d)"
  let ?fw = "\<lambda>v. fst (fwrite_ulong_excl k (d_fs d) ?path v)"
  have ld: "loaded (d_data d) (d_ctrl d)" using assms(1) by (simp add: running_def configured_def)
  obtain ret ctrl written where a: "fanctrl_adjust (d_ctrl d) ?t ?fw = Some (ret, ctrl, written)"
    using assms(2) by (auto simp: daemon_adjust_fanspeed_def Let_def split: option.splits)
  define s where "s = (case written of None \<Rightarrow> d_fs d | Some v \<Rightarrow> snd (fwrite_ulong_excl k (d_fs d) ?path v))"
  have d': "fan_abs d' = (fan_abs d)\<lparr>sp_threshold := fs_current_threshold ctrl, sp_file := fs_files s ?path\<rparr>"
    using assms(2) a by (auto simp: daemon_adjust_fanspeed_def Let_def s_def fan_abs_def daemon_kill_def)
  have conf: "as_configured (fan_abs d) (nat (?t div 1000)) v (fs_current_threshold ctrl)" if "0 \<le> ?t" "written = Some v" for v
    using adjust_eq [OF ld _ that(1) refl refl, of ?fw] a that(2) by (auto simp: as_configured_def fan_abs_def)
  show ?thesis
  proof (cases written)
    case (Some v)
    obtain r s' where w: "fwrite_ulong_excl k (d_fs d) ?path v = (r, s')" by (metis prod.exhaust)
    have s: "s = s'" using Some w by (simp add: s_def)
    have t: "0 \<le> ?t" "v \<le> 255" using adjust_written [OF a [unfolded Some]] by auto
    from fwrite_outcome [OF w] show ?thesis
    proof
      assume "r = 0 \<and> fs_files s' ?path = Some (bytes (print_ulong v))"
      then have "fan_step (fan_abs d) (Adjusted (nat (?t div 1000)) v) (fan_abs d')"
        using fan_step.adjusted [OF conf [OF t(1) Some] t(2)] by (simp add: d' s)
      then show ?thesis by blast
    next
      assume "r \<noteq> 0 \<and> (fs_files s' ?path = fs_files (d_fs d) ?path \<or> fs_files s' ?path = Some [])"
      then have "fan_step (fan_abs d) (Not_adjusted (nat (?t div 1000))) (fan_abs d')"
        using fan_step.not_adjusted [OF conf [OF t(1) Some], of "fs_files s' ?path"] by (simp add: d' s) (simp add: fan_abs_def)
      then show ?thesis by blast
    qed
  next
    case None
    show ?thesis
    proof (cases "0 \<le> ?t")
      case True
      then have "as_configured (fan_abs d) (nat (?t div 1000)) 0 (fs_current_threshold ctrl)"
        using adjust_eq [OF ld _ True refl refl, of ?fw] a None by (auto simp: as_configured_def fan_abs_def)
      then have "fan_step (fan_abs d) (Not_adjusted (nat (?t div 1000))) (fan_abs d')"
        using fan_step.not_adjusted [of "fan_abs d" _ 0 _ "sp_file (fan_abs d)"] None by (simp add: d' s_def) (simp add: fan_abs_def)
      then show ?thesis by blast
    next
      case False
      then have "fan_abs d' = fan_abs d" using adjust_no_reading [OF a] None by (simp add: d' s_def) (simp add: fan_abs_def)
      then show ?thesis using fan_step.waited by (metis fan_event.distinct(19))
    qed
  qed
qed

lemma reload_sim:
  assumes "running d" "daemon_reload e k t path d = Some (r, d')" "valid_config t"
  shows "\<exists>e. e \<noteq> Outside \<and> fan_step (fan_abs d) e (fan_abs d')"
proof -
  obtain r' t' where p: "config_parse e k (d_fs d) (resolve DAEMON_WORKING_DIR path) t = Some (r', t')" "r' = 0 \<Longrightarrow> valid_config t' \<and> 0 < nrows t'"
    using config_parse_outcome [OF assms(3), of e k "d_fs d" "resolve DAEMON_WORKING_DIR path"] by blast
  show ?thesis
  proof (cases "r' = 0")
    case True
    have "length (temps (d_ctrl d)) = 16" "length (speeds (d_ctrl d)) = 16" "nrows t' \<le> 16"
      using assms(1) p(2) [OF True] by (simp_all add: running_def configured_def loaded_def valid_config_def)
    note th = configure_loads(3) [OF this]
    have "fan_abs d' = (fan_abs d)\<lparr>sp_config := t', sp_threshold := - 1\<rparr>"
      using assms(2) p(1) True th by (auto simp: daemon_reload_def Let_def fan_abs_def split: prod.splits)
    then have "fan_step (fan_abs d) (Reloaded t') (fan_abs d')" using fan_step.reloaded p(2) [OF True] by simp
    then show ?thesis by blast
  next
    case False
    then have "d' = d" using assms(2) p by (simp add: daemon_reload_def)
    then have "fan_step (fan_abs d) Waited (fan_abs d')" by (simp add: fan_step.waited)
    then show ?thesis by blast
  qed
qed

lemma watch_sim:
  assumes "running d" "daemon_watch_event e k t events config d = Some d'" "valid_config t"
  shows "\<exists>e. e \<noteq> Outside \<and> fan_step (fan_abs d) e (fan_abs d')"
proof -
  define w where "w = snd (fsys_watch_event config (d_watch d) events)"
  have w: "fsys_watch_event config (d_watch d) events = (fst (fsys_watch_event config (d_watch d) events), w)" by (simp add: w_def)
  define d1 where "d1 = d\<lparr>d_watch := w, d_reload_pending := False\<rparr>"
  show ?thesis
  proof (cases "d_reload_pending d \<or> watch_triggered w")
    case True
    then obtain r d2 where r: "daemon_reload e k t config d1 = Some (r, d2)" "fan_abs d' = fan_abs d2"
      using assms(2) w by (auto simp: daemon_watch_event_def Let_def d1_def daemon_kill_def fan_abs_def split: prod.splits option.splits if_splits)
    have "running d1" "fan_abs d1 = fan_abs d" using assms(1) watch_event_frame [of config "d_watch d" events]
      by (simp_all add: d1_def w_def running_def configured_def published_def descriptors_def fan_abs_def)
    with reload_sim [OF _ r(1) assms(3)] r(2) show ?thesis by simp
  next
    case False
    then have "fan_abs d' = fan_abs d"
      using assms(2) w by (auto simp: daemon_watch_event_def Let_def fan_abs_def split: prod.splits)
    then have "fan_step (fan_abs d) Waited (fan_abs d')" by (simp add: fan_step.waited)
    then show ?thesis by blast
  qed
qed

lemma poll_sim: "fan_abs (daemon_poll e k src buffer d) = fan_abs d"
  by (auto simp: daemon_poll_def server_poll_def fan_abs_def Let_def sys_close_def split: prod.splits poll_result.splits if_splits)

text \<open>The invariant under which the steps are simulated: the daemon runs, and no restart is due.\<close>

definition sim_inv :: "fand_config set \<Rightarrow> signal set \<Rightarrow> pc \<times> daemon \<Rightarrow> bool" where
  "sim_inv tmp sigs x \<longleftrightarrow> (\<forall>t \<in> tmp. valid_config t) \<and> SIGPIPE \<notin> sigs \<and> loop_inv sigs x"

lemma pstep_sim:
  assumes "pstep tmp fork verbose config (pc, d) (pc', d')" "sim_inv tmp sigs (pc, d)" "in_loop pc'"
  shows "\<exists>e. e \<noteq> Outside \<and> fan_step (fan_abs d) e (fan_abs d')"
proof -
  have run: "running d" "\<not> d_sigpipe_caught d" "\<forall>t \<in> tmp. valid_config t"
    using assms(2) pstep_in_loop [OF assms(1)] by (auto simp: sim_inv_def loop_inv_def)
  have wait: "\<exists>e. e \<noteq> Outside \<and> fan_step (fan_abs d) e (fan_abs d)" using fan_step.waited by blast
  from assms(1) show ?thesis
  proof cases
    case (adjust src k r)
    then show ?thesis using adjust_sim [OF run(1), of src k] assms(3) by (cases r) auto
  next
    case (watch t e k events r)
    then show ?thesis using watch_sim [OF run(1), of e k t events config d'] run(3) assms(3) by (cases r) auto
  next
    case (signals e f r)
    then have "d' = d" using run(2) assms(3) by (auto simp: daemon_handle_pending_signals_def)
    then show ?thesis using wait by simp
  next
    case (poll e src k buffer)
    then show ?thesis using wait by (simp add: poll_sim)
  next
    case leave
    then show ?thesis using assms(3) by simp
  qed
qed

lemma sighandler_abs: "fan_abs (daemon_sighandler sig junk reaped d) = fan_abs d"
  by (cases sig) (simp_all add: daemon_kill_def fan_abs_def)

lemma istep_sim:
  assumes "istep sigs (pc, d) (pc', d')"
  shows "fan_step (fan_abs d) Outside (fan_abs d')"
proof -
  have "\<exists>file. fan_abs d' = (fan_abs d)\<lparr>sp_file := file\<rparr>"
    using assms
  proof cases
    case (signal sig junk)
    then show ?thesis by (intro exI [of _ "sp_file (fan_abs d)"]) (simp add: sighandler_abs)
  next
    case (child reaped rest junk)
    then have "fan_abs d' = fan_abs (d\<lparr>d_children := rest\<rparr>)" by (simp only: sighandler_abs)
    then show ?thesis by (intro exI [of _ "sp_file (fan_abs d)"]) (simp add: fan_abs_def)
  next
    case (others files')
    then show ?thesis by (intro exI [of _ "sp_file (fan_abs d')"]) (simp add: fan_abs_def)
  qed
  then show ?thesis using fan_step.outside by metis
qed

interpretation daemon_refinement: refined_program "pstep tmp fork verbose config" "istep sigs"
  "sim_inv tmp sigs" "\<lambda>x. \<not> d_alive (snd x)" "\<lambda>x. steps_left (fst x)"
  "\<lambda>x. in_loop (fst x)" "\<lambda>x. fan_abs (snd x)" fan_step "\<lambda>e. e \<noteq> Outside" for tmp fork verbose config sigs
proof
  fix x y :: "pc \<times> daemon"
  show "sim_inv tmp sigs y" if "pstep tmp fork verbose config x y" "sim_inv tmp sigs x"
    using that pstep_inv [of tmp fork verbose config "fst x" "snd x" "fst y" "snd y" sigs] by (simp add: sim_inv_def)
  show "sim_inv tmp sigs y" if "istep sigs x y" "sim_inv tmp sigs x"
    using that istep_inv [of sigs "fst x" "snd x" "fst y" "snd y"] by (simp add: sim_inv_def)
  show "\<not> d_alive (snd y) \<and> steps_left (fst y) < steps_left (fst x)" if "pstep tmp fork verbose config x y" "\<not> d_alive (snd x)"
    using daemon_loop.prog_stopping [OF that] .
  show "\<not> d_alive (snd y) \<and> steps_left (fst y) \<le> steps_left (fst x)" if "istep sigs x y" "\<not> d_alive (snd x)"
    using daemon_loop.env_stopping [OF that] .
  show "in_loop (fst x)" if "pstep tmp fork verbose config x y" using that pstep_in_loop [of tmp fork verbose config "fst x" "snd x" y] by simp
  show "in_loop (fst x)" if "istep sigs x y" using that istep_pc [of sigs "fst x" "snd x" "fst y" "snd y"] by simp
  show "\<exists>e. e \<noteq> Outside \<and> fan_step (fan_abs (snd x)) e (fan_abs (snd y))"
    if "pstep tmp fork verbose config x y" "sim_inv tmp sigs x" "in_loop (fst y)"
    using that pstep_sim [of tmp fork verbose config "fst x" "snd x" "fst y" "snd y" sigs] by simp
  show "\<exists>e. \<not> e \<noteq> Outside \<and> fan_step (fan_abs (snd x)) e (fan_abs (snd y))" if "istep sigs x y" "sim_inv tmp sigs x"
    using that(1) istep_sim [of sigs "fst x" "snd x" "fst y" "snd y"] by auto
qed

lemma configure_threshold: "fs_current_threshold (snd (fanctrl_configure s cfg)) = - 1"
  by (simp add: fanctrl_configure_def fanctrl_set_matrix_def)

lemma start_threshold:
  assumes "daemon_start drm e fork verbose config junk s = (At_loop, d)" "d_alive d"
  shows "fs_current_threshold (d_ctrl d) = - 1"
proof -
  from assms have "daemon_init e fork verbose config (daemon_static drm junk s) = Some (0, d)"
    by (auto simp: daemon_start_def daemon_kill_def split: option.splits if_splits)
  then show ?thesis by (cases rule: daemon_init_okE) (simp add: configure_threshold)
qed

section \<open>Properties\<close>


lemma read_temp_file:
  assumes "fs_files s (field_path (temp_input (hw_cache h))) = Some (bytes (print_nat m @ [CHR 0x0A]))" "m < 2 ^ 31"
    "io_open_err k = None" "io_lock_err k = None" "\<not> io_read_err k"
  shows "hwmon_read_temp k s h = int m"
proof -
  have d: "\<forall>c \<in> set (print_nat m). isdigit c" "print_nat m \<noteq> []" by (simp_all add: digits_print_nat)
  have "length (print_nat m) \<le> 10" using length_print_nat [of m 9] assms(2) by simp
  then have "fread_ulong_excl k s (field_path (temp_input (hw_cache h))) 0 = strstoul (print_nat m) 0"
    using fread_digits_line [OF d _ assms(1,3-5)] by simp
  also have "\<dots> = (0, of_nat m)" using strstoul_digits [OF d(2,1), of 0] assms(2) by (simp add: digits_val_print_nat)
  finally show ?thesis using c_int_of_nat_small [of m, where 'a = 64] assms(2) by (simp add: hwmon_read_temp_def)
qed

lemma read_pwm_file:
  assumes "fs_files s (field_path (pwm (hw_cache h))) = Some (bytes (print_nat v))" "v \<le> 255"
    "io_open_err k = None" "io_lock_err k = None" "\<not> io_read_err k"
  shows "hwmon_read_pwm k s h = int v"
proof -
  have d: "\<forall>c \<in> set (print_nat v). isdigit c" "print_nat v \<noteq> []" by (simp_all add: digits_print_nat)
  have "length (print_nat v) \<le> 3" using length_print_nat [of v 2] assms(2) by simp
  then have "fread_ulong_excl k s (field_path (pwm (hw_cache h))) 0 = strstoul (print_nat v) 0"
    using fread_digits [OF d _ assms(1,3-5)] by simp
  also have "\<dots> = (0, of_nat v)" using strstoul_digits [OF d(2,1), of 0] assms(2) by (simp add: digits_val_print_nat)
  finally show ?thesis using c_int_of_nat_small [of v, where 'a = 64] assms(2) by (simp add: hwmon_read_pwm_def)
qed


text \<open>An example: the machine of theory \<open>Daemon_Run\<close> at 65 degrees.\<close>

lemma machine_curve:
  assumes "cfg_matrix cfg = [50, 5, 60, 20, 70, 100] @ replicate 26 0" "cfg_matrix_rows cfg = 3"
  shows "matrix_ok cfg" "percentage cfg (- 1) 65 = 60"
proof -
  have rows: "nrows cfg = 3" "row_temp cfg 0 = 50" "row_temp cfg (Suc 0) = 60" "row_temp cfg (Suc (Suc 0)) = 70"
    "row_speed cfg 0 = 5" "row_speed cfg (Suc 0) = 20" "row_speed cfg (Suc (Suc 0)) = 100"
    using assms by (simp_all add: nrows_def row_temp_def row_speed_def)
  have "i < 3 \<longleftrightarrow> i = 0 \<or> i = Suc 0 \<or> i = Suc (Suc 0)" for i :: nat by auto
  then show "matrix_ok cfg" using rows assms(1) by (auto simp: matrix_ok_def)
  have "blend 20 100 (fraction 60 70 65) = 60" unfolding blend_def fraction_def by simp code_simp
  then have "curve cfg 65 = (1, 60)"
    using rows by (simp add: curve_def interval_of_def numeral_2_eq_2 numeral_3_eq_3 speed_at_def)
  then show "percentage cfg (- 1) 65 = 60" by (simp add: percentage_def held_def)
qed


lemma adjust_no_sensor:
  assumes "running d" "temp_reading src (d_fs d) (d_hwmon d) < 0"
  shows "\<exists>d'. daemon_adjust_fanspeed src k d = Some d'"
proof -
  have "rows (d_ctrl d) \<noteq> 0" using assms(1) loaded_rows [of "d_data d" "d_ctrl d"] by (simp add: running_def configured_def)
  then show ?thesis using assms(2) by (simp add: daemon_adjust_fanspeed_def fanctrl_adjust_unfold fanctrl_get_temp_def Let_def)
qed


end
