(* ===== verification/Daemon_Types.thy ===== *)
theory Daemon_Types
  imports Daemon_Run
begin

text \<open>
  The type invariant of the daemon's state: every array has the length that the source declares, the row
  count and the threshold of the controller index its arrays, and the paths of the cache are terminated
  strings.  Unlike the invariant of a running daemon it holds in every state, also after a start, a
  restart or a reload that failed half way, so that no later access through this state leaves its array.
\<close>

section \<open>Types\<close>

definition typed_config :: "fand_config \<Rightarrow> bool" where
  "typed_config c \<longleftrightarrow> length (cfg_matrix c) = 32"

definition typed_ctrl :: "fanctrl_state \<Rightarrow> bool" where
  "typed_ctrl s \<longleftrightarrow> length (temps s) = 16 \<and> length (speeds s) = 16 \<and> rows s \<le> 16 \<and>
     - 1 \<le> fs_current_threshold s \<and> fs_current_threshold s < 16"

definition typed_hwmon :: "hwmon \<Rightarrow> bool" where
  "typed_hwmon h \<longleftrightarrow> wf_cache (hw_cache h) \<and> cache_terminated (hw_cache h)"

definition typed :: "daemon \<Rightarrow> bool" where
  "typed d \<longleftrightarrow> typed_config (d_data d) \<and> typed_ctrl (d_ctrl d) \<and> typed_hwmon (d_hwmon d)"

text \<open>The uninitialised hash context of a call of \<open>cache_load\<close> or \<open>cache_write\<close>.\<close>

definition typed_env :: "init_env \<Rightarrow> bool" where
  "typed_env e \<longleftrightarrow> length (ctx_buffer (he_ctx (ie_hwmon e))) = 64"

section \<open>The components keep their types\<close>

lemma dispatch_typed:
  assumes "config_dispatch (config_map e) key data value = Some (st, data')" "typed_config data"
  shows "typed_config data'"
proof -
  have "typed_config d'" if "config_set_matrix e data v = Some (r, d')" for v r d'
    using config_set_matrix_safe [of data e v] assms(2) that by (auto simp: typed_config_def)
  with assms show ?thesis
    by (auto simp: config_map_def config_set_interval_def config_set_hysteresis_def config_set_throttle_def typed_config_def
        split: if_splits prod.splits)
qed

lemma entry_typed:
  assumes "config_entry e data buffer rest = Some (st, data', file')" "typed_config data"
  shows "typed_config data'"
  using assms dispatch_typed
  by (auto simp: config_entry_def Let_def split: option.splits if_splits)

lemma lines_typed:
  assumes "config_lines e data f = Some (st, data')" "typed_config data"
  shows "typed_config data'"
  using assms
proof (induction "length f" arbitrary: data f rule: less_induct)
  case less
  show ?case
  proof (cases "fgets 256 f")
    case None
    with less.prems show ?thesis by (auto simp: config_lines.simps)
  next
    case (Some p)
    obtain line rest where p: "p = (line, rest)" by (cases p)
    define buffer where "buffer = config_strip_comments (config_replace_char (cstr line) newline_char NUL)"
    note shorter = fgets_shorter [OF Some [unfolded p]]
    show ?thesis
    proof (cases "config_line_empty buffer")
      case True
      with less.prems(1) have "config_lines e data rest = Some (st, data')"
        unfolding config_lines.simps [of e data f] Some p by (simp add: buffer_def Let_def)
      then show ?thesis using less.hyps [OF shorter] less.prems(2) by blast
    next
      case False
      with less.prems(1) obtain st1 d1 f1 where en: "config_entry e data buffer rest = Some (st1, d1, f1)"
          "(if st1 \<noteq> 0 then Some (st1, d1) else config_lines e d1 f1) = Some (st, data')"
        unfolding config_lines.simps [of e data f] Some p by (auto simp: buffer_def Let_def split: option.splits)
      have d1: "typed_config d1" by (rule entry_typed [OF en(1) less.prems(2)])
      have "length f1 < length f" using config_entry_rest [OF en(1)] shorter by simp
      with less.hyps en(2) d1 show ?thesis by (auto split: if_splits)
    qed
  qed
qed

lemma parse_typed:
  assumes "config_parse e k s path data = Some (st, data')" "typed_config data"
  shows "typed_config data'"
  using assms lines_typed by (auto simp: config_parse_def split: if_splits prod.splits option.splits)

lemma configure_typed:
  assumes "typed_ctrl s"
  shows "typed_ctrl (snd (fanctrl_configure s c))"
  using assms by (auto simp: typed_ctrl_def fanctrl_configure_def fanctrl_set_matrix_def foldl_update)

lemma adjust_typed:
  assumes "fanctrl_adjust s sensor fw = Some (ret, s', written)" "typed_ctrl s"
  shows "typed_ctrl s'"
  using assms(1)
proof (cases rule: adjust_state)
  case (2 th sp temp)
  have "th < int (rows s)" "- 1 \<le> th" using select_threshold [OF 2(2,1)] by blast+
  moreover have "int (rows s) \<le> int 16" using assms(2) unfolding typed_ctrl_def of_nat_le_iff by blast
  ultimately have "th < 16" by linarith
  with assms(2) \<open>- 1 \<le> th\<close> show ?thesis unfolding 2(3) by (simp add: typed_ctrl_def)
qed (use assms(2) in simp)

lemma hwmon_open_typed:
  assumes "hwmon_open e s h = Some (r, s', h')" "typed_hwmon h" "length (ctx_buffer (he_ctx e)) = 64"
  shows "typed_hwmon h'"
proof -
  obtain st c where c: "cache_load (he_ctx e) (he_load_io e) (he_nread e) s (hw_cache h) = Some (st, c)"
    using assms(1) by (auto simp: hwmon_open_def Let_def split: option.splits)
  have wf: "wf_cache c \<and> cache_terminated c"
    using cache_load_terminated [OF assms(3) _ _ c] assms(2) by (simp add: typed_hwmon_def)
  have man: "typed_hwmon h2" if "hwmon_set_pwm_mode_manual k s1 h1 = (r2, s2, h2)" "typed_hwmon h1" for k s1 h1 r2 s2 h2
    using that by (auto simp: hwmon_set_pwm_mode_manual_def typed_hwmon_def Let_def split: prod.splits if_splits)
  show ?thesis
  proof (cases "st = 0")
    case True
    then show ?thesis using assms(1) c wf man [of "he_fd_io e" s "h\<lparr>hw_cache := c\<rparr>"]
      by (auto simp: hwmon_open_def Let_def typed_hwmon_def split: prod.splits)
  next
    case False
    then obtain status c1 where c1: "hwmon_set_sysfs_paths e s c = Some (status, c1)"
      using assms(1) c by (auto simp: hwmon_open_def Let_def split: option.splits)
    have "typed_hwmon (h\<lparr>hw_cache := c1\<rparr>)" using set_sysfs_paths_wf [OF c1] wf by (simp add: typed_hwmon_def)
    then show ?thesis using assms(1) c c1 False man [of "he_fd_io e" _ "h\<lparr>hw_cache := c1\<rparr>"]
      by (auto simp: hwmon_open_def Let_def split: prod.splits option.splits if_splits)
  qed
qed

lemma fanctrl_init_typed:
  assumes "fanctrl_init e de s h drm = Some (r, s', h', drm')" "typed_hwmon h" "length (ctx_buffer (he_ctx e)) = 64"
  shows "typed_hwmon h'"
proof -
  from assms(1) obtain idx s1 where "hwmon_open e s h = Some (idx, s1, h')"
    by (auto simp: fanctrl_init_def split: option.splits prod.splits if_splits)
  then show ?thesis by (rule hwmon_open_typed [OF _ assms(2,3)])
qed

section \<open>The operations of the daemon\<close>

lemma static_typed: "typed (daemon_static drm junk s)"
  by (simp add: typed_def typed_config_def typed_ctrl_def typed_hwmon_def daemon_static_def fanctrl_initial_def wf_cache_def cache_terminated_def)

lemma init_typed:
  assumes "daemon_init e fork verbose config d = Some (r, d')" "typed d" "typed_env e"
  shows "typed d'"
proof -
  have parse: "typed_config data" if "config_parse ce k s2 path (d_data d) = Some (st, data)" for ce k s2 path st data
    using parse_typed [OF that] assms(2) by (simp add: typed_def)
  have hw: "typed_hwmon h" if "fanctrl_init (ie_hwmon e) de s5 (d_hwmon d) drm = Some (st, s6, h, drm')" for de s5 drm st s6 h drm'
    using fanctrl_init_typed [OF that] assms(2,3) by (simp add: typed_def typed_env_def)
  have ctrl: "typed_ctrl c" if "fanctrl_configure (d_ctrl d) data = (st, c)" for data st c
    using configure_typed [of "d_ctrl d" data] assms(2) that by (simp add: typed_def)
  have base: "typed_config (d_data d)" "typed_ctrl (d_ctrl d)" "typed_hwmon (d_hwmon d)" using assms(2) by (simp_all add: typed_def)
  show ?thesis
    using assms(1) unfolding daemon_init_def Let_def openlog_simps
    by (auto simp: typed_def base dest: parse hw ctrl split: if_splits option.splits prod.splits)
qed

lemma typed_cong:
  "d_data d' = d_data d \<Longrightarrow> d_ctrl d' = d_ctrl d \<Longrightarrow> d_hwmon d' = d_hwmon d \<Longrightarrow> typed d' = typed d"
  by (simp add: typed_def)

lemma free_keeps: "daemon_free f d = (r, d') \<Longrightarrow> d_data d' = d_data d \<and> d_ctrl d' = d_ctrl d \<and> d_hwmon d' = d_hwmon d"
  by (auto simp: daemon_free_def split: prod.splits)

lemma free_typed: "daemon_free f d = (r, d') \<Longrightarrow> typed d' = typed d"
  using free_keeps by (intro typed_cong) auto

lemma fanspeed_typed:
  assumes "daemon_adjust_fanspeed src k d = Some d'" "typed d"
  shows "typed d'"
proof -
  obtain ret ctrl written where a: "fanctrl_adjust (d_ctrl d) (temp_reading src (d_fs d) (d_hwmon d))
      (\<lambda>v. fst (fwrite_ulong_excl k (d_fs d) (field_path (pwm (hw_cache (d_hwmon d)))) v)) = Some (ret, ctrl, written)"
    using assms(1) by (auto simp: daemon_adjust_fanspeed_def Let_def split: option.splits)
  have "typed_ctrl ctrl" using adjust_typed [OF a] assms(2) by (simp add: typed_def)
  then show ?thesis using assms a by (auto simp: daemon_adjust_fanspeed_def Let_def typed_def daemon_kill_def)
qed

lemma reload_typed:
  assumes "daemon_reload e k t path d = Some (r, d')" "typed d" "typed_config t"
  shows "typed d'"
proof -
  obtain r1 t' where p: "config_parse e k (d_fs d) (resolve DAEMON_WORKING_DIR path) t = Some (r1, t')"
    using assms(1) by (auto simp: daemon_reload_def split: option.splits)
  have "typed_config t'" "typed_ctrl (snd (fanctrl_configure (d_ctrl d) t'))"
    using parse_typed [OF p assms(3)] configure_typed assms(2) by (simp_all add: typed_def)
  then show ?thesis using assms(1,2) p by (auto simp: daemon_reload_def typed_def Let_def split: if_splits prod.splits)
qed

lemma watch_typed:
  assumes "daemon_watch_event e k t events config d = Some d'" "typed d" "typed_config t"
  shows "typed d'"
proof -
  obtain st w where w: "fsys_watch_event config (d_watch d) events = (st, w)" by (metis prod.exhaust)
  have "typed (d\<lparr>d_watch := w\<rparr>)" "typed (d\<lparr>d_watch := w, d_reload_pending := False\<rparr>)" using assms(2) by (simp_all add: typed_def)
  moreover have "typed d2" if "daemon_reload e k t config (d\<lparr>d_watch := w, d_reload_pending := False\<rparr>) = Some (r, d2)" for r d2
    using reload_typed [OF that _ assms(3)] calculation by simp
  ultimately show ?thesis using assms(1) w
    by (auto simp: daemon_watch_event_def Let_def daemon_kill_def typed_cong [of "_\<lparr>d_alive := _\<rparr>"] split: if_splits option.splits)
qed

lemma restart_typed:
  assumes "daemon_handle_pending_signals f e fork verbose config d = Some d'" "typed d" "typed_env e"
  shows "typed d'"
proof (cases "d_sigpipe_caught d")
  case True
  obtain r d1 where f: "daemon_free f d = (r, d1)" by (metis prod.exhaust)
  with assms(1) True obtain r2 d2 where i: "daemon_init e fork verbose config d1 = Some (r2, d2)"
      "d' = (if r2 \<noteq> 0 then d2\<lparr>d_alive := False\<rparr> else d2)\<lparr>d_sigpipe_caught := False\<rparr>"
    by (auto simp: daemon_handle_pending_signals_def daemon_restart_def split: option.splits if_splits)
  have "typed d2" using init_typed [OF i(1) _ assms(3)] free_typed [OF f] assms(2) by simp
  then show ?thesis unfolding i(2) by (simp add: typed_def)
qed (use assms in \<open>simp add: daemon_handle_pending_signals_def\<close>)

text \<open>
  C19: the types of the state are kept.  The state that \<open>daemon_main\<close> begins with is well typed, and every
  operation of the daemon, with every outcome of the system calls it makes, including those of a start, a
  reload or a restart that fails half way, leaves a well-typed state: the arrays have their
  declared lengths, the number of rows and the threshold stay within the arrays they index, and the three paths
  are terminated.  The hypotheses say that the uninitialised local arrays have their declared lengths.
\<close>

theorem daemon_well_typed:
  assumes "typed d" and "typed_env e" and "typed_config t"
  shows "typed (daemon_static drm junk s) \<and>
    (\<forall>r d'. daemon_init e fork verbose config d = Some (r, d') \<longrightarrow> typed d') \<and>
    (\<forall>d'. daemon_adjust_fanspeed src k d = Some d' \<longrightarrow> typed d') \<and>
    (\<forall>d'. daemon_watch_event ce k t events config d = Some d' \<longrightarrow> typed d') \<and>
    (\<forall>d'. daemon_handle_pending_signals f e fork verbose config d = Some d' \<longrightarrow> typed d') \<and>
    typed (daemon_poll pe k src buffer d) \<and> typed (snd (daemon_free f d)) \<and> typed (daemon_sighandler sig junk reaped d)"
proof -
  have "typed (daemon_poll pe k src buffer d)" using assms(1) by (simp add: daemon_poll_def typed_def split: prod.split)
  moreover have "typed (snd (daemon_free f d))" using free_typed [of f d "fst (daemon_free f d)" "snd (daemon_free f d)"] assms(1) by simp
  moreover have "typed (daemon_sighandler sig junk reaped d)" using assms(1) by (cases sig) (simp_all add: typed_def daemon_kill_def)
  ultimately show ?thesis
    by (intro conjI allI impI)
      (erule init_typed [OF _ assms(1,2)] fanspeed_typed [OF _ assms(1)] watch_typed [OF _ assms(1,3)] restart_typed [OF _ assms(1,2)]
        | rule static_typed | assumption)+
qed

theorem daemon_well_typed_witness:
  "\<exists>d. daemon_start False machine_env False False config_path 0 machine = (At_loop, d) \<and> d_alive d \<and>
     typed (daemon_poll poll_nothing (io_ok 3) (Hwmon_source (io_ok 3)) [] d)"
proof -
  have e: "typed_env machine_env" by (simp add: typed_env_def machine_env_def example_env_def ctx_any_buffer)
  have t: "typed_config two_rows" by (simp add: typed_config_def two_rows_def)
  obtain d where d: "daemon_start False machine_env False False config_path 0 machine = (At_loop, d)" "d_alive d" using machine_started by blast
  then have "daemon_init machine_env False False config_path (daemon_static False 0 machine) = Some (0, d)"
    by (auto simp: daemon_start_def daemon_kill_def split: option.splits if_splits)
  with daemon_well_typed [OF static_typed e t, of False 0 machine] have "typed d" by blast
  with daemon_well_typed [OF _ e t] d show ?thesis by blast
qed

end
