(* ===== verification/Fanctl.thy ===== *)
theory Fanctl
  imports Server
begin

text \<open>
  The control program: \<^verbatim>\<open>src/fanctl/client.c\<close>, \<^verbatim>\<open>src/fanctl/request.c\<close>, \<^verbatim>\<open>src/fanctl/format.c\<close> and
  \<open>main\<close> of \<^verbatim>\<open>src/fanctl/main.c\<close> after the arguments are parsed.

  The connection is an argument: which calls fail and which bytes \<open>recv\<close> delivers for a request.  The
  output is what is written to the standard output; messages to the error output are left out.
\<close>

section \<open>client.c\<close>

record cli_env =
  cl_fd :: int
  cl_setsockopt_fails :: bool
  cl_connect_fails :: bool
  cl_send_fails :: bool
  cl_recv :: "ipc_request \<Rightarrow> byte list option"

text \<open>The status and whether the descriptor is open afterwards.\<close>

definition client_init :: "cli_env \<Rightarrow> (int \<times> bool) option" where
  "client_init e =
     (if cl_fd e = - 1 then Some (- 1, False)
      else if cl_setsockopt_fails e then Some (- 1, False)
      else case strscpy (replicate 108 NUL) DAEMON_SERVER_SOCKET 108 of
        None \<Rightarrow> None
      | Some (r, _) \<Rightarrow>
          if r < 0 then Some (- 1, False) else if cl_connect_fails e then Some (- 1, False) else Some (0, True))"

text \<open>The number of bytes received and the buffer.\<close>

definition client_send_and_recv :: "cli_env \<Rightarrow> byte list \<Rightarrow> nat \<Rightarrow> ipc_request \<Rightarrow> (int \<times> byte list) option" where
  "client_send_and_recv e buffer bufsize request =
     (case client_init e of
        None \<Rightarrow> None
      | Some (status, _) \<Rightarrow>
          if status \<noteq> 0 then Some (- 1, buffer)
          else if cl_send_fails e then Some (- 1, buffer)
          else case cl_recv e request of
            None \<Rightarrow> Some (- 1, buffer)
          | Some msg \<Rightarrow> let got = take bufsize msg in Some (int (length got), overwrite buffer 0 got))"

section \<open>format.c\<close>

definition utf8_regex :: "item list" where
  "utf8_regex = map (\<lambda>c. Lit c) ''UTF-8'' @ [End]"

definition format_utf8_support :: "config_env \<Rightarrow> string option \<Rightarrow> bool" where
  "format_utf8_support e locale =
     (if \<not> ce_regcomp e ''utf8'' then False
      else case locale of None \<Rightarrow> False | Some l \<Rightarrow> regexec utf8_regex l \<noteq> None)"

definition degc :: "bool \<Rightarrow> string" where
  "degc utf8 = (if utf8 then [CHR 0xC2, CHR 0xB0, CHR ''C''] else [CHR 0x27, CHR ''C''])"

text \<open>\<open>%3hhu\<close>\<close>

definition pad3 :: "byte \<Rightarrow> string" where
  "pad3 b = (let s = print_nat (unat b) in replicate (3 - length s) CHR '' '' @ s)"

definition rule_line :: "char \<Rightarrow> string" where
  "rule_line c = ''*'' @ replicate 8 c @ ''*'' @ replicate 8 c @ ''*'' @ [newline_char]"

definition format_matrix :: "bool \<Rightarrow> byte \<Rightarrow> byte list \<Rightarrow> string" where
  "format_matrix utf8 n matrix =
     rule_line CHR ''='' @ ''|  temp  | speed  |'' @ [newline_char] @ rule_line CHR ''='' @
     concat (map (\<lambda>i. ''| '' @ pad3 (matrix ! (2 * i)) @ '' '' @ degc utf8 @ '' |  '' @ pad3 (matrix ! (2 * i + 1)) @
       '' % |'' @ [newline_char] @ rule_line CHR ''-'') [0..<unat n])"

definition format_temp :: "bool \<Rightarrow> int \<Rightarrow> string" where
  "format_temp utf8 temp = print_int temp @ degc utf8 @ [newline_char]"

definition format_speed :: "int \<Rightarrow> string" where
  "format_speed speed = print_int speed @ ''%'' @ [newline_char]"

definition format :: "bool \<Rightarrow> byte list \<Rightarrow> ipc_request \<Rightarrow> ipc_response \<Rightarrow> int \<times> string" where
  "format utf8 result req rsp =
     (if rsp = ipc_rsp_err then (- 1, [])
      else if rsp \<noteq> ipc_rsp_ok then (- 1, [])
      else if req = ipc_req_speed then (0, format_speed (result_int result))
      else if req = ipc_req_temp then (0, format_temp utf8 (result_int result))
      else if req = ipc_req_matrix then (0, format_matrix utf8 (result_rows result) (drop 1 result))
      else (- 1, []))"

section \<open>request.c\<close>

definition request_convert :: "string \<Rightarrow> int \<times> ipc_request" where
  "request_convert target =
     (case find (\<lambda>p. target = fst p) ipc_request_map of
        None \<Rightarrow> (- 1, ipc_req_inval)
      | Some p \<Rightarrow> (if snd p = ipc_req_inval then - 1 else 0, snd p))"

text \<open>The response code is an \<open>unsigned char\<close>: a negative result of the decoder becomes an invalid code.
  Test builds replace \<open>client_send_and_recv\<close>.\<close>

definition request_process_get_by ::
    "(byte list \<Rightarrow> nat \<Rightarrow> ipc_request \<Rightarrow> (int \<times> byte list) option) \<Rightarrow> bool \<Rightarrow> byte list \<Rightarrow> byte list \<Rightarrow> ipc_request \<Rightarrow> (int \<times> string) option" where
  "request_process_get_by send_and_recv utf8 rspbuffer result request =
     (case send_and_recv rspbuffer IPC_MAX_MSG_LENGTH request of
        None \<Rightarrow> None
      | Some (rsplen, buffer) \<Rightarrow>
          if rsplen < 0 then Some (rsplen, [])
          else if request \<noteq> ipc_req_speed \<and> request \<noteq> ipc_req_temp \<and> request \<noteq> ipc_req_matrix then Some (- 1, [])
          else case (if request = ipc_req_speed then unpack_speed buffer (nat rsplen) result
                     else if request = ipc_req_temp then unpack_temp buffer (nat rsplen) result
                     else unpack_matrix buffer (nat rsplen) result) of
            None \<Rightarrow> None
          | Some (r, result') \<Rightarrow>
              (case format utf8 result' request (word_of_int r) of
                 (status, out) \<Rightarrow> Some (if status \<noteq> 0 then - 1 else 0, out)))"

definition request_process_get ::
    "cli_env \<Rightarrow> bool \<Rightarrow> byte list \<Rightarrow> byte list \<Rightarrow> ipc_request \<Rightarrow> (int \<times> string) option" where
  "request_process_get e = request_process_get_by (client_send_and_recv e)"

text \<open>
  The length is not checked: after a failure \<open>rsplen\<close> is \<open>-1\<close>, which the decoder takes for a buffer of
  \<open>SIZE_MAX\<close> bytes.
\<close>

definition request_process_exit :: "cli_env \<Rightarrow> byte list \<Rightarrow> byte list \<Rightarrow> int option" where
  "request_process_exit e rspbuffer result =
     (case client_send_and_recv e rspbuffer IPC_MAX_MSG_LENGTH ipc_req_exit of
        None \<Rightarrow> None
      | Some (rsplen, buffer) \<Rightarrow>
          (case unpack_exit_rsp buffer (if rsplen < 0 then 2 ^ 64 - 1 else nat rsplen) result of
             None \<Rightarrow> None
           | Some (r, _) \<Rightarrow> Some (if (word_of_int r :: ipc_response) \<noteq> 0 then - 1 else 0)))"

section \<open>main\<close>

text \<open>The exit code and the output, for the parsed arguments.\<close>

definition fanctl_main ::
    "cli_env \<Rightarrow> bool \<Rightarrow> byte list \<Rightarrow> byte list \<Rightarrow> bool \<Rightarrow> string option \<Rightarrow> (int \<times> string) option" where
  "fanctl_main e utf8 rspbuffer result exit target =
     (if \<not> exit \<and> target = None then Some (0, [])
      else case (case target of
                   None \<Rightarrow> Some (0, [])
                 | Some t \<Rightarrow>
                     (case request_convert t of (st, request) \<Rightarrow>
                        if st \<noteq> 0 then Some (1, [])
                        else case request_process_get e utf8 rspbuffer result request of
                          None \<Rightarrow> None
                        | Some (r, out) \<Rightarrow> Some (if r \<noteq> 0 then 1 else 0, out))) of
        None \<Rightarrow> None
      | Some (code, out) \<Rightarrow>
          if code \<noteq> 0 then Some (code, out)
          else if \<not> exit then Some (0, out)
          else map_option (\<lambda>r. (if r \<noteq> 0 then 1 else 0, out)) (request_process_exit e rspbuffer result))"

section \<open>A request and its response\<close>

lemma client_connected:
  assumes "cl_fd e \<noteq> - 1" "\<not> cl_setsockopt_fails e" "\<not> cl_connect_fails e"
  shows "client_init e = Some (0, True)"
  using assms by (simp add: client_init_def socket_path_fits)

lemma client_refused:
  assumes "cl_fd e = - 1 \<or> cl_setsockopt_fails e \<or> cl_connect_fails e"
  shows "client_init e = Some (- 1, False)"
  using assms by (auto simp add: client_init_def socket_path_fits)

lemma client_receives:
  assumes "cl_fd e \<noteq> - 1" "\<not> cl_setsockopt_fails e" "\<not> cl_connect_fails e" "\<not> cl_send_fails e"
    and "cl_recv e request = Some msg" "length msg \<le> 48"
  shows "client_send_and_recv e buffer 48 request = Some (int (length msg), msg @ drop (length msg) buffer)"
  using assms client_connected [OF assms(1-3)] by (simp add: client_send_and_recv_def Let_def overwrite_0)

text \<open>What the daemon's child sends for a request.\<close>

definition served :: "srv_env \<Rightarrow> sensors \<Rightarrow> fand_config \<Rightarrow> ipc_request \<Rightarrow> byte list option" where
  "served e sn config request =
     (case server_recv_and_respond (e\<lparr>se_recv := Received request\<rparr>) sn (replicate 48 0) config of
        None \<Rightarrow> None | Some (_, sent) \<Rightarrow> sent)"

lemma served_error:
  assumes "\<not> se_send_fails e" "request = ipc_req_speed \<or> request = ipc_req_temp"
    and "request = ipc_req_speed \<Longrightarrow> get_speed sn = Some (- 1)"
    and "request = ipc_req_temp \<Longrightarrow> get_temp sn < 0"
  shows "served e sn config request = Some ([6, 1] @ le_bytes 4 (word_of_int EAGAIN :: u64))"
proof -
  have "server_pack_result sn (replicate 48 0) 48 request = pack_error (replicate 48 0) 48 EAGAIN"
    using assms by (auto simp: server_pack_result_def fanctrl_get_speed_def fanctrl_get_temp_def ipc_codes)
  then show ?thesis
    using assms(1,2) validate_get
    by (auto simp: served_def server_recv_and_respond_def Let_def pack_error_def pack_int_wire ipc_codes)
qed

lemma served_value:
  assumes "\<not> se_send_fails e"
    and "request = ipc_req_speed \<and> get_speed sn = Some v \<or>
      request = ipc_req_temp \<and> get_temp sn = v" "0 \<le> v"
  shows "served e sn config request = Some ([6, 0] @ le_bytes 4 (word_of_int v :: u64))"
proof -
  have "server_pack_result sn (replicate 48 0) 48 request =
      (if request = ipc_req_speed then pack_speed (replicate 48 0) 48 v else pack_temp (replicate 48 0) 48 v)"
    using assms by (auto simp: server_pack_result_def ipc_codes)
  then show ?thesis
    using assms(1,2) validate_get
    by (auto simp: served_def server_recv_and_respond_def Let_def pack_speed_def pack_temp_def pack_int_wire ipc_codes)
qed

lemma served_matrix:
  assumes "\<not> se_send_fails e" "valid_config config" "0 < nrows config"
  shows "served e sn config ipc_req_matrix =
    Some ([of_nat (3 + 2 * nrows config), 0, cfg_matrix_rows config] @ take (2 * nrows config) (cfg_matrix config))"
proof -
  define n where "n = unat (cfg_matrix_rows config)"
  have n: "0 < n" "n < 16" "length (cfg_matrix config) = 32" "nrows config = n"
    using assms(2,3) by (simp_all add: valid_config_def nrows_def n_def)
  have "pack_matrix (replicate 48 0) 48 (cfg_matrix config) (cfg_matrix_rows config) =
      Some (3 + 2 * int n, [of_nat (3 + 2 * n), 0, cfg_matrix_rows config] @ take (2 * n) (cfg_matrix config) @ drop (3 + 2 * n) (replicate 48 0))"
    unfolding n_def using n by (intro pack_matrix_wire) (simp_all add: n_def)
  moreover have "nat (3 + 2 * int n) = 3 + 2 * n" by simp
  moreover have "take (3 + 2 * n) ([of_nat (3 + 2 * n), 0, cfg_matrix_rows config] @ take (2 * n) (cfg_matrix config) @ rest) =
      [of_nat (3 + 2 * n), 0, cfg_matrix_rows config] @ take (2 * n) (cfg_matrix config)" for rest
    using n by (simp add: min_absorb2 take_Cons')
  ultimately show ?thesis
    using assms(1) n validate_get(3)
    by (simp add: served_def server_recv_and_respond_def Let_def ipc_codes del: append.simps)
qed

lemma received_int:
  assumes "length result = 36" "- (2 ^ 31) \<le> v" "v < 2 ^ 31"
  shows "\<exists>result'. unpack_int ([6, st] @ le_bytes 4 (word_of_int v :: u64) @ rest) 6 result = Some (uint st, result') \<and> result_int result' = v"
  using unpack_int_cases [of 6 "[6, st] @ le_bytes 4 (word_of_int v :: u64) @ rest" result] assms result_int_of_bytes [OF assms(2,3)]
  by simp

lemma format_matrix_cong:
  assumes "take (2 * unat n) a = take (2 * unat n) b"
  shows "format_matrix utf8 n a = format_matrix utf8 n b"
proof -
  have "a ! k = b ! k" if "k < 2 * unat n" for k using assms that by (metis nth_take)
  then have "map (\<lambda>i. ''| '' @ pad3 (a ! (2 * i)) @ '' '' @ degc utf8 @ '' |  '' @ pad3 (a ! (2 * i + 1)) @
        '' % |'' @ [newline_char] @ rule_line CHR ''-'') [0..<unat n] =
      map (\<lambda>i. ''| '' @ pad3 (b ! (2 * i)) @ '' '' @ degc utf8 @ '' |  '' @ pad3 (b ! (2 * i + 1)) @
        '' % |'' @ [newline_char] @ rule_line CHR ''-'') [0..<unat n]"
    by (intro map_cong refl) simp
  then show ?thesis by (simp only: format_matrix_def)
qed


lemma unpackf_loop_bufsize:
  assumes "unpackf_loop m buffer bufsize nread fmt args = Some (r, m')" "0 \<le> r" "bufsize \<le> bufsize'"
  shows "unpackf_loop m buffer bufsize' nread fmt args = Some (r, m')"
  using assms(1,3)
proof (induction m buffer bufsize nread fmt args rule: unpackf_loop.induct)
  case (2 m buffer bufsize nread c fmt args)
  from "2.prems"(1) show ?case
  proof (cases rule: unpackf_loop_step)
    case error
    with assms(2) show ?thesis by auto
  next
    case (step nrepeat fmt1 args1 obj off args2 valsize fmtlen m1)
    have "unpackf_loop m1 buffer bufsize' (nread + unat (nrepeat * of_nat valsize)) (drop fmtlen fmt1) args2 = Some (r, m')"
      by (rule "2.IH" [OF _ step(2) refl refl _ step(4) refl refl refl refl refl _ step(6,7,8) "2.prems"(2)]) (use step in simp_all)
    with step order_trans [OF step(5) "2.prems"(2)] show ?thesis
      by (simp add: unpackf_loop.simps Let_def not_less [symmetric] del: valist_strip_pointer.simps)
  qed
qed simp

lemma unpackf_bufsize:
  assumes "unpackf m buffer bufsize fmt args = Some (r, m')" "0 \<le> r" "bufsize \<le> bufsize'"
  shows "unpackf m buffer bufsize' fmt args = Some (r, m')"
  using assms unfolding unpackf_def by (rule unpackf_loop_bufsize)

text \<open>The decoder on a whole buffer whose size it is told to be unlimited.\<close>

lemma unpack_exit_unbounded:
  assumes "length buffer = 48" "length result = 36" "48 \<le> bufsize"
  shows "\<exists>result'. unpack_exit_rsp buffer bufsize result =
      Some (if buffer ! 1 = 0 then if buffer ! 0 = 2 then 0 else - 1
            else if buffer ! 0 = 6 then uint (buffer ! 1) else - 1, result')"
proof -
  have h: "unpackf (locals result) buffer bufsize ''%hhu%hhu'' [VPtr 0 0, VPtr 1 0] =
      Some (2, frame (buffer ! 0) (buffer ! 1) result)"
    using assms by (intro unpackf_bufsize [OF unpack_header [of 48]]) simp_all
  have "unpackf (frame a b result) (drop 2 buffer) 46 ''%d'' [VPtr 2 0] =
      Some (4, (frame a b result)(2 := take 4 (drop 2 buffer) @ drop 4 result))" for a b
    using assms unpack_d [of 46 "drop 2 buffer" "frame a b result"] by simp
  then have d: "unpackf (frame a b result) (drop 2 buffer) (bufsize - 2) ''%d'' [VPtr 2 0] =
      Some (4, (frame a b result)(2 := take 4 (drop 2 buffer) @ drop 4 result))" for a b
    by (rule unpackf_bufsize) (use assms(3) in simp_all)
  show ?thesis using h d by (auto simp: unpack_exit_rsp_def Let_def uint_byte_eq_iff)
qed

section \<open>Properties\<close>

text \<open>A connection to a daemon whose server runs in the environment \<open>e\<close>.\<close>

definition connected_to :: "srv_env \<Rightarrow> sensors \<Rightarrow> fand_config \<Rightarrow> cli_env" where
  "connected_to e sn config =
     \<lparr>cl_fd = 3, cl_setsockopt_fails = False, cl_connect_fails = False, cl_send_fails = False,
      cl_recv = served e sn config\<rparr>"

lemma get_int:
  assumes "length rspbuffer = 48" "length result = 36" "request = ipc_req_speed \<or> request = ipc_req_temp"
    and "served e sn config request = Some ([6, st] @ le_bytes 4 (word_of_int v :: u64))" "- (2 ^ 31) \<le> v" "v < 2 ^ 31"
    "st = 0 \<or> st = 1"
  shows "request_process_get (connected_to e sn config) utf8 rspbuffer result request =
    Some (if st \<noteq> 0 then (- 1, []) else (0, if request = ipc_req_speed then format_speed v else format_temp utf8 v))"
proof -
  have "client_send_and_recv (connected_to e sn config) rspbuffer 48 request =
      Some (6, ([6, st] @ le_bytes 4 (word_of_int v :: u64)) @ drop 6 rspbuffer)"
    using client_receives [of "connected_to e sn config" request] assms(4) by (simp add: connected_to_def)
  moreover obtain result' where
    "unpack_int ([6, st] @ le_bytes 4 (word_of_int v :: u64) @ drop 6 rspbuffer) 6 result = Some (uint st, result')" "result_int result' = v"
    using received_int [OF assms(2,5,6)] by blast
  ultimately show ?thesis using assms(3,7)
    by (auto simp: request_process_get_def request_process_get_by_def unpack_speed_def unpack_temp_def format_def ipc_codes)
qed

lemma get_matrix:
  assumes "length rspbuffer = 48" "length result = 36" "\<not> se_send_fails e" "valid_config config" "0 < nrows config"
  shows "request_process_get (connected_to e sn config) utf8 rspbuffer result ipc_req_matrix =
    Some (0, format_matrix utf8 (cfg_matrix_rows config) (cfg_matrix config))"
proof -
  define n where "n = unat (cfg_matrix_rows config)"
  have n: "0 < n" "n < 16" "length (cfg_matrix config) = 32" "nrows config = n"
    using assms(4,5) by (simp_all add: valid_config_def nrows_def n_def)
  let ?msg = "[of_nat (3 + 2 * n), 0, cfg_matrix_rows config] @ take (2 * n) (cfg_matrix config)"
  have len: "length ?msg = 3 + 2 * n" using n by simp
  have first: "uint (of_nat (3 + 2 * n) :: byte) = int (3 + 2 * n)"
    using n by (simp add: unsigned_of_nat take_bit_nat_eq_self flip: of_nat_add of_nat_mult del: of_nat_add of_nat_mult)
  have "served e sn config ipc_req_matrix = Some ?msg" using served_matrix [OF assms(3-5)] n(4) by simp
  then have recv: "client_send_and_recv (connected_to e sn config) rspbuffer 48 ipc_req_matrix =
      Some (int (3 + 2 * n), ?msg @ drop (3 + 2 * n) rspbuffer)"
    using client_receives [of "connected_to e sn config" ipc_req_matrix ?msg rspbuffer] n(2)
    unfolding len by (simp add: connected_to_def del: append.simps)
  have "unpack_matrix (?msg @ drop (3 + 2 * n) rspbuffer) (3 + 2 * n) result =
      Some (0, cfg_matrix_rows config # take (2 * n) (cfg_matrix config) @ drop (1 + 2 * n) result)"
    using unpack_matrix_rows [of "?msg @ drop (3 + 2 * n) rspbuffer" "3 + 2 * n" result] first n assms(1,2)
    by (simp add: n_def [symmetric])
  moreover have "format_matrix utf8 (cfg_matrix_rows config) (take (2 * n) (cfg_matrix config) @ drop (1 + 2 * n) result) =
      format_matrix utf8 (cfg_matrix_rows config) (cfg_matrix config)"
    by (rule format_matrix_cong) (use n in \<open>simp add: n_def [symmetric]\<close>)
  ultimately show ?thesis using recv
    by (simp add: request_process_get_def request_process_get_by_def format_def ipc_codes result_rows_def nat_add_distrib nat_mult_distrib del: append.simps)
qed

lemma temp_bounds:
  "- (2 ^ 31) \<le> fanctrl_get_temp (temp_reading src s h) \<and> fanctrl_get_temp (temp_reading src s h) < 2 ^ 31"
proof -
  have "\<exists>w :: u32. temp_reading src s h = sint w"
    by (cases src) (auto simp: temp_reading_def hwmon_read_temp_def drm_get_temp_def c_int_def split: prod.splits sum.splits
        intro: exI [of _ "- 1"])
  then obtain w :: u32 where w: "temp_reading src s h = sint w" by blast
  have "- (2 ^ 31) \<le> sint w" "sint w < 2 ^ 31" using sint_greater_eq [of w] sint_less [of w] by simp_all
  then show ?thesis unfolding w by (auto simp: fanctrl_get_temp_def)
qed

text \<open>
  C14: what the user is told is what the daemon knows.  For every connection to a running daemon whose
  response is delivered, \<^verbatim>\<open>amdgpu-fanctl --get\<close> prints the speed the daemon computes from the fan's duty
  cycle, the temperature it reads from the sensor or the rows of its current matrix, each in its
  format, and exits with 0; when the daemon cannot read the sensor nothing is printed and the exit code
  is 1.  The result depends neither on the locale nor on what is on the client's stack beyond the
  degree sign, and the client never leaves its buffers.
\<close>

theorem fanctl_reports:
  assumes "length rspbuffer = IPC_MAX_MSG_LENGTH" and "length result = 36"
    and "\<not> se_send_fails e" and "valid_config config" and "0 < nrows config"
    and "hwmon_read_pwm k s h \<le> 255" and "sn = fanctrl_sensors k src s h"
  shows "fanctl_main (connected_to e sn config) utf8 rspbuffer result False (Some ''speed'') =
      Some (case fanctrl_get_speed (hwmon_read_pwm k s h) of
        Some v \<Rightarrow> if v < 0 then (1, []) else (0, format_speed v) | None \<Rightarrow> (1, [])) \<and>
    fanctl_main (connected_to e sn config) utf8 rspbuffer result False (Some ''temp'') =
      Some (let v = fanctrl_get_temp (temp_reading src s h) in if v < 0 then (1, []) else (0, format_temp utf8 v)) \<and>
    fanctl_main (connected_to e sn config) utf8 rspbuffer result False (Some ''matrix'') =
      Some (0, format_matrix utf8 (cfg_matrix_rows config) (cfg_matrix config)) \<and>
    fanctl_main (connected_to e sn config) utf8 rspbuffer result False (Some ''temperature'') =
      fanctl_main (connected_to e sn config) utf8 rspbuffer result False (Some ''temp'')"
proof -
  note get = get_int [OF assms(1,2)] and err = served_error [OF assms(3)] and val = served_value [OF assms(3)]
  have eagain: "- (2 ^ 31) \<le> EAGAIN" "EAGAIN < 2 ^ 31" by simp_all
  let ?p = "hwmon_read_pwm k s h" and ?t = "fanctrl_get_temp (temp_reading src s h)"
  have sp: "get_speed sn = fanctrl_get_speed ?p" and te: "get_temp sn = ?t" by (simp_all add: assms(7) fanctrl_sensors_def)
  have speed: "request_process_get (connected_to e sn config) utf8 rspbuffer result ipc_req_speed =
      Some (case fanctrl_get_speed ?p of Some v \<Rightarrow> if v < 0 then (- 1, []) else (0, format_speed v) | None \<Rightarrow> (- 1, []))"
  proof (cases "?p < 0")
    case True
    then show ?thesis using get [OF _ err eagain, of ipc_req_speed] sp by (simp add: fanctrl_get_speed_def ipc_codes)
  next
    case False
    then obtain v where "fanctrl_get_speed ?p = Some v" "0 \<le> v" "v \<le> 100" using get_speed_bounds [of ?p] assms(6) by auto
    then show ?thesis using get [OF _ val, where request = ipc_req_speed and v = v] sp by (simp add: ipc_codes)
  qed
  have temp: "request_process_get (connected_to e sn config) utf8 rspbuffer result ipc_req_temp =
      Some (if ?t < 0 then (- 1, []) else (0, format_temp utf8 ?t))"
  proof (cases "?t < 0")
    case True
    then show ?thesis using get [OF _ err eagain, of ipc_req_temp] te by (simp add: ipc_codes)
  next
    case False
    then show ?thesis using get [OF _ val, where request = ipc_req_temp and v = ?t] temp_bounds te by (simp add: ipc_codes)
  qed
  show ?thesis
    using speed temp get_matrix [OF assms(1-5)]
    by (auto simp: fanctl_main_def request_convert_def ipc_request_map_def ipc_codes Let_def split: option.split)
qed

lemma served_exit:
  assumes "\<not> se_send_fails e" "se_peercred e = Inr uid"
  shows "served e sn config ipc_req_exit =
    Some (if uid = 0 then [2, 0] else [6, 1] @ le_bytes 4 (word_of_int EACCES :: u64))"
  using assms
  by (simp add: served_def server_recv_and_respond_def Let_def server_validate_request_def ipc_valid_requests_def
      pack_error_def pack_int_wire pack_exit_wire ipc_codes)

lemma exit_answered:
  assumes "length rspbuffer = 48" "length result = 36" "\<not> se_send_fails e" "se_peercred e = Inr uid"
  shows "request_process_exit (connected_to e sn config) rspbuffer result = Some (if uid = 0 then 0 else - 1)"
  using client_receives [of "connected_to e sn config" ipc_req_exit _ rspbuffer] served_exit [OF assms(3,4)] assms(1,2)
    unpack_exit_cases [of 2 "[2, 0] @ drop 2 rspbuffer" result]
    unpack_exit_cases [of 6 "[6, 1] @ le_bytes 4 (word_of_int EACCES :: u64) @ drop 6 rspbuffer" result]
  by (auto simp: request_process_exit_def connected_to_def numeral_2_eq_2 [symmetric])

lemma exit_unreachable:
  assumes "length rspbuffer = 48" "length result = 36" "cl_fd e = - 1 \<or> cl_setsockopt_fails e \<or> cl_connect_fails e"
  shows "request_process_exit e rspbuffer result = Some (if take 2 rspbuffer = [2, 0] then 0 else - 1)"
proof -
  obtain a b rest where r: "rspbuffer = a # b # rest" using assms(1) by (cases rspbuffer rule: remdups_adj.cases) auto
  have "client_send_and_recv e rspbuffer 48 ipc_req_exit = Some (- 1, rspbuffer)"
    using client_refused [OF assms(3)] by (auto simp: client_send_and_recv_def)
  moreover obtain result' where "unpack_exit_rsp rspbuffer (2 ^ 64 - 1) result =
      Some (if b = 0 then if a = 2 then 0 else - 1 else if a = 6 then uint b else - 1, result')"
    using unpack_exit_unbounded [OF assms(1,2), of "2 ^ 64 - 1"] r by auto
  ultimately show ?thesis by (simp add: request_process_exit_def r)
qed

text \<open>
  C38: stopping the daemon from the command line.  When the daemon answers, \<^verbatim>\<open>amdgpu-fanctl --exit\<close>
  succeeds if and only if the kernel reported the administrator as its user.  When the daemon
  cannot be reached at all, the client takes the size -1 for an unlimited one and decodes its
  uninitialised buffer: it reports success if that buffer happens to start with the bytes 2 and 0,
  and otherwise failure.
\<close>

theorem fanctl_exit:
  assumes "length rspbuffer = IPC_MAX_MSG_LENGTH" and "length result = 36"
    and "\<not> se_send_fails e" and "se_peercred e = Inr uid"
    and "cl_fd down = - 1 \<or> cl_setsockopt_fails down \<or> cl_connect_fails down"
  shows "fanctl_main (connected_to e sn config) utf8 rspbuffer result True None = Some (if uid = 0 then 0 else 1, []) \<and>
    fanctl_main down utf8 rspbuffer result True None = Some (if take 2 rspbuffer = [2, 0] then 0 else 1, [])"
  using exit_answered [OF assms(1-4)] exit_unreachable [OF assms(1,2,5)] by (simp add: fanctl_main_def)

theorem fanctl_exit_witness:
  "fanctl_main \<lparr>cl_fd = 3, cl_setsockopt_fails = False, cl_connect_fails = True, cl_send_fails = False, cl_recv = (\<lambda>_. None)\<rparr>
     False ([2, 0] @ replicate 46 170) (replicate 36 0) True None = Some (0, [])"
  using fanctl_exit [of "[2, 0] @ replicate 46 170" "replicate 36 0" "example_request ipc_req_exit 0" 0
      "\<lparr>cl_fd = 3, cl_setsockopt_fails = False, cl_connect_fails = True, cl_send_fails = False, cl_recv = (\<lambda>_. None)\<rparr>"
      no_sensors no_config False]
  by (simp add: example_request_def)

theorem fanctl_reports_witness:
  "fanctl_main (connected_to (example_request 0 1000) no_sensors two_rows) False (replicate 48 170) (replicate 36 170)
     False (Some ''matrix'') = Some (0, format_matrix False 2 ([50, 5, 60, 20] @ replicate 28 0))"
  using fanctl_reports [of "replicate 48 170" "replicate 36 170" "example_request 0 1000", OF _ _ _ two_rows_ok no_files_pwm no_sensors_def, of False]
  by (simp add: example_request_def two_rows_def)

end
