(* ===== verification/Fuzz.thy ===== *)
theory Fuzz
  imports Fanctl
begin

text \<open>
  The fuzz targets \<^verbatim>\<open>src/fuzz/config/main.c\<close>, \<^verbatim>\<open>src/fuzz/cache/main.c\<close>, \<^verbatim>\<open>src/fuzz/client/main.c\<close> and
  \<^verbatim>\<open>src/fuzz/server/main.c\<close>: each feeds arbitrary bytes to one entry point of the program.  They are built with
  \<open>FAND_TEST_CONFIG\<close> and \<open>FAND_FUZZ_CONFIG\<close>, so files live below \<open>/tmp\<close>, the mockable functions are replaced
  by those that the targets supply, and \<open>server_poll\<close> answers without a fork.

  The bytes are the argument \<open>data\<close>; the outcome of the system calls is a record.  \<^term>\<open>None\<close> is undefined
  behaviour, which is what a fuzzer looks for.
\<close>

section \<open>Files\<close>

record fuzz_env =
  fz_malloc_fails :: bool
  fz_fd :: int
  fz_written :: int

text \<open>\<open>open\<close> with \<open>O_CREAT | O_WRONLY\<close>, \<open>write\<close> of \<open>n\<close> bytes at the start, then \<open>close\<close> and \<open>unlink\<close>.\<close>

definition fuzz_create :: "fs \<Rightarrow> string \<Rightarrow> int \<Rightarrow> fs" where
  "fuzz_create s path fd =
     (let s1 = (case fs_files s path of None \<Rightarrow> put_file s path [] | Some _ \<Rightarrow> s) in s1\<lparr>fs_fds := (fs_fds s1)(fd \<mapsto> path)\<rparr>)"

definition fuzz_write :: "fs \<Rightarrow> string \<Rightarrow> int \<Rightarrow> byte list \<Rightarrow> fs" where
  "fuzz_write s path n data =
     (if n < 0 then s else put_file s path (take (nat n) data @ drop (nat n) (the (fs_files s path))))"

definition fuzz_remove :: "fs \<Rightarrow> string \<Rightarrow> int \<Rightarrow> fs" where
  "fuzz_remove s path fd = snd (unlink (snd (sys_close s fd)) path)"

section \<open>fuzz/config\<close>

definition FUZZ_CONFIG :: string where
  "FUZZ_CONFIG = ''/tmp/_fand.conf''"

definition zero_config :: fand_config where
  "zero_config = \<lparr>cfg_throttle = False, cfg_matrix_rows = 0, cfg_hysteresis = 0, cfg_interval = 0, cfg_matrix = replicate 32 0\<rparr>"

definition fuzz_config :: "fuzz_env \<Rightarrow> config_env \<Rightarrow> io \<Rightarrow> byte list \<Rightarrow> fs \<Rightarrow> (int \<times> fs) option" where
  "fuzz_config e ce k data s =
     (if data = [] then Some (0, s)
      else if fz_fd e = - 1 then Some (0, s)
      else let s1 = fuzz_create s FUZZ_CONFIG (fz_fd e); s2 = fuzz_write s1 FUZZ_CONFIG (fz_written e) data in
        case (if fz_written e = - 1 then Some (0, zero_config) else config_parse ce k s2 FUZZ_CONFIG zero_config) of
          None \<Rightarrow> None
        | Some _ \<Rightarrow> Some (0, fuzz_remove s2 FUZZ_CONFIG (fz_fd e)))"

section \<open>fuzz/cache\<close>

definition FUZZ_CACHE_FILE :: string where
  "FUZZ_CACHE_FILE = ''/tmp/amdgpu-fand.cache''"

definition is_padded :: bool where
  "is_padded = True"

text \<open>
  The mock of \<open>cache_file_exists_in_sysfs\<close>.  The counted group of its expression is written out four times,
  the alternatives and the optional suffix are three expressions.
\<close>

definition sysfs_word :: "char \<Rightarrow> bool" where
  "sysfs_word c \<longleftrightarrow> c \<in> set ''abcdefghijklmnopqrstuvwxyz'' \<or> c \<in> set ''ABCDEFGHIJKLMNOPQRSTUVWXYZ'' \<or> isdigit c \<or> c = CHR '':'' \<or> c = CHR ''.''"

definition sysfs_stem :: "item list" where
  "sysfs_stem = map (\<lambda>c. Lit c) ''/sys/devices/pci'' @ [Plus (\<lambda>c. isdigit c \<or> c = CHR '':'')] @
     concat (replicate 4 [Lit CHR ''/'', Plus sysfs_word]) @ map (\<lambda>c. Lit c) ''/hwmon/hwmon'' @ [Plus isdigit, Lit CHR ''/'']"

definition sysfs_files :: "item list list" where
  "sysfs_files =
     [map (\<lambda>c. Lit c) ''pwm'' @ [Plus isdigit] @ map (\<lambda>c. Lit c) ''_input'',
      map (\<lambda>c. Lit c) ''pwm'' @ [Plus isdigit],
      map (\<lambda>c. Lit c) ''temp'' @ [Plus isdigit] @ map (\<lambda>c. Lit c) ''_input'']"

definition exists_in_sysfs :: "bool \<Rightarrow> string \<Rightarrow> bool" where
  "exists_in_sysfs regcomp_fails path \<longleftrightarrow>
     \<not> regcomp_fails \<and> list_ex (\<lambda>re. regexec_anchored (sysfs_stem @ re) path \<noteq> None) sysfs_files"

definition fuzz_cache ::
    "fuzz_env \<Rightarrow> bool \<Rightarrow> sha1_ctx \<Rightarrow> sha1_ctx \<Rightarrow> io \<Rightarrow> nat \<Rightarrow> byte list \<Rightarrow> fs \<Rightarrow> fand_cache \<Rightarrow> (int \<times> fs \<times> fand_cache) option" where
  "fuzz_cache e regcomp_fails ctx ctx' k nread data s c =
     (if data = [] then Some (0, s, c)
      else if fz_malloc_fails e then Some (0, s, c)
      else case sha1_of ctx data (length data) of
        None \<Rightarrow> None
      | Some digest \<Rightarrow>
          let buffer = data @ digest; size = length data + SHA1_DIGESTSIZE in
          if fz_fd e = - 1 then Some (0, s, c)
          else let s1 = fuzz_create s FUZZ_CACHE_FILE (fz_fd e); s2 = fuzz_write s1 FUZZ_CACHE_FILE (fz_written e) buffer in
            case (if fz_written e \<noteq> int size then Some (0, c)
                  else cache_load_in FUZZ_CACHE_FILE is_padded (exists_in_sysfs regcomp_fails) ctx' k nread s2 c) of
              None \<Rightarrow> None
            | Some (_, c') \<Rightarrow> Some (0, fuzz_remove s2 FUZZ_CACHE_FILE (fz_fd e), c'))"

section \<open>fuzz/client\<close>

definition send_and_recv :: "byte list \<Rightarrow> nat \<Rightarrow> ipc_request \<Rightarrow> (int \<times> byte list) option" where
  "send_and_recv buffer bufsize request = Some (- 1, buffer)"

text \<open>The condition is the wrong way round: \<open>request_convert\<close> returns 0 for a valid target.\<close>

definition fuzz_client :: "fuzz_env \<Rightarrow> bool \<Rightarrow> byte list \<Rightarrow> byte list \<Rightarrow> byte list \<Rightarrow> int option" where
  "fuzz_client e utf8 rspbuffer result data =
     (if data = [] then Some 0
      else if fz_malloc_fails e then Some 0
      else case request_convert (cstr (chars data @ [NUL])) of (st, request) \<Rightarrow>
        if st \<noteq> 0
        then map_option (\<lambda>_. 0) (request_process_get_by send_and_recv utf8 rspbuffer result request)
        else Some 0)"

section \<open>fuzz/server\<close>

definition FUZZ_SERVER_SOCKET :: string where
  "FUZZ_SERVER_SOCKET = ''/tmp/fand.sock''"

record fuzz_server_env =
  fv_unlink_fails :: bool
  fv_sock :: sock_env
  fv_clientfd :: int
  fv_connect_fails :: bool
  fv_send_fails :: bool
  fv_poll :: poll_env

text \<open>The mocks of \<open>fanctrl_get_temp\<close> and \<open>fanctrl_get_speed\<close>.\<close>

definition fuzz_sensors :: sensors where
  "fuzz_sensors = \<lparr>get_speed = Some (- 1), get_temp = - 1\<rparr>"

text \<open>The status, the value of \<open>clientfd\<close> and the file system.\<close>

definition sockput_raw :: "fuzz_server_env \<Rightarrow> fs \<Rightarrow> (int \<times> int \<times> fs) option" where
  "sockput_raw e s =
     (let clientfd = fv_clientfd e in
      if clientfd = - 1 then Some (- 1, clientfd, s)
      else let s1 = s\<lparr>fs_fds := (fs_fds s)(clientfd \<mapsto> ''client'')\<rparr> in
        case strscpy (replicate 108 NUL) FUZZ_SERVER_SOCKET 108 of
          None \<Rightarrow> None
        | Some (r, _) \<Rightarrow>
            if r < 0 then Some (- 1, clientfd, snd (sys_close s1 clientfd))
            else if fv_connect_fails e then Some (- 1, clientfd, snd (sys_close s1 clientfd))
            else if fv_send_fails e then Some (- 1, clientfd, snd (sys_close s1 clientfd))
            else Some (0, clientfd, s1))"

definition sock_consume_and_close :: "fs \<Rightarrow> int \<Rightarrow> int \<times> fs" where
  "sock_consume_and_close s clientfd = (case sys_close s clientfd of (r, s1) \<Rightarrow> (if r = - 1 then - 1 else 0, s1))"

text \<open>\<open>server_poll\<close> of a build with \<open>FAND_FUZZ_CONFIG\<close>: the request is answered in the same process.\<close>

definition server_poll_fuzz :: "poll_env \<Rightarrow> sensors \<Rightarrow> fs \<Rightarrow> byte list \<Rightarrow> fand_config \<Rightarrow> (int \<times> fs) option" where
  "server_poll_fuzz e sn s buffer config =
     (case pe_poll e (uint (cfg_interval config) * 1000) of
        Poll_error eintr \<Rightarrow> Some (if eintr then 0 else - 1, s)
      | Poll_timeout \<Rightarrow> Some (0, s)
      | Poll_ready \<Rightarrow>
          if pe_newfd e = - 1 then Some (- 1, s)
          else let s1 = s\<lparr>fs_fds := (fs_fds s)(pe_newfd e \<mapsto> ''connection'')\<rparr> in
            case server_recv_and_respond (pe_child e) sn buffer config of
              None \<Rightarrow> None
            | Some (status, _) \<Rightarrow> Some (status, snd (sys_close s1 (pe_newfd e))))"

definition fuzz_server_config :: fand_config where
  "fuzz_server_config = \<lparr>cfg_throttle = False, cfg_matrix_rows = 1, cfg_hysteresis = 3, cfg_interval = 2, cfg_matrix = replicate 32 0\<rparr>"

text \<open>What the server receives is the first of the bytes that were sent, unless \<open>recv\<close> fails.\<close>

definition deliver :: "byte list \<Rightarrow> poll_env \<Rightarrow> poll_env" where
  "deliver data e = e\<lparr>pe_child := (pe_child e)\<lparr>se_recv :=
     (case se_recv (pe_child e) of Recv_error \<Rightarrow> Recv_error | _ \<Rightarrow> Received (hd data))\<rparr>\<rparr>"

definition fuzz_server :: "fuzz_server_env \<Rightarrow> byte list \<Rightarrow> byte list \<Rightarrow> fs \<Rightarrow> int \<Rightarrow> (int \<times> fs \<times> int) option" where
  "fuzz_server e buffer data s pollfd =
     (if data = [] then Some (0, s, pollfd)
      else if path_exists s FUZZ_SERVER_SOCKET \<and> (fv_unlink_fails e \<or> fst (unlink s FUZZ_SERVER_SOCKET) = - 1) then Some (0, s, pollfd)
      else let s0 = (if path_exists s FUZZ_SERVER_SOCKET then snd (unlink s FUZZ_SERVER_SOCKET) else s) in
        case server_init_at FUZZ_SERVER_SOCKET (fv_sock e) s0 pollfd of
          None \<Rightarrow> None
        | Some (st, s1, fd) \<Rightarrow>
            if st \<noteq> 0 then Some (0, s1, fd)
            else case sockput_raw e s1 of
              None \<Rightarrow> None
            | Some (put, clientfd, s2) \<Rightarrow>
                (case (if put = - 1 then Some (0, s2)
                       else server_poll_fuzz (deliver data (fv_poll e)) fuzz_sensors s2 buffer fuzz_server_config) of
                   None \<Rightarrow> None
                 | Some (_, s3) \<Rightarrow>
                     (case sock_consume_and_close s3 clientfd of (_, s4) \<Rightarrow>
                      case server_kill_at FUZZ_SERVER_SOCKET s4 fd of (_, s5) \<Rightarrow> Some (0, s5, fd))))"

section \<open>No target runs into undefined behaviour\<close>

definition without :: "fs \<Rightarrow> string \<Rightarrow> fs" where
  "without s path = s\<lparr>fs_files := (fs_files s)(path := None), fs_sockets := (fs_sockets s)(path := False)\<rparr>"

lemma fuzz_file_removed:
  assumes "fs_fds s fd = None"
  shows "fuzz_remove (fuzz_write (fuzz_create s path fd) path n data) path fd = without s path"
proof -
  have "(fs_fds s)(fd := None) = fs_fds s" using assms by (simp add: fun_upd_idem)
  then show ?thesis
    by (auto simp: fuzz_remove_def fuzz_write_def fuzz_create_def Let_def put_file_def sys_close_def unlink_def without_def split: option.split)
qed

lemma zero_config_valid: "valid_config zero_config"
  by (simp add: zero_config_def valid_config_def nrows_def)

lemma fuzz_config_safe:
  assumes "fs_fds s (fz_fd e) = None"
  shows "fuzz_config e ce k data s = Some (0, if data = [] \<or> fz_fd e = - 1 then s else without s FUZZ_CONFIG)"
proof -
  define s2 where "s2 = fuzz_write (fuzz_create s FUZZ_CONFIG (fz_fd e)) FUZZ_CONFIG (fz_written e) data"
  obtain r where r: "config_parse ce k s2 FUZZ_CONFIG zero_config = Some r"
    using config_parse_outcome [OF zero_config_valid, of ce k s2 FUZZ_CONFIG] by blast
  have "fuzz_remove s2 FUZZ_CONFIG (fz_fd e) = without s FUZZ_CONFIG" unfolding s2_def by (rule fuzz_file_removed [OF assms])
  then show ?thesis unfolding fuzz_config_def Let_def s2_def [symmetric] r by simp
qed

lemma cache_load_in_total:
  assumes "length (ctx_buffer ctx) = 64" "wf_cache c"
  shows "\<exists>st c'. cache_load_in path padded ex ctx k nread s c = Some (st, c') \<and> wf_cache c'"
proof (cases "fs_files s path")
  case (Some content)
  define buffer where "buffer = take (min nread 792) content"
  show ?thesis
  proof (cases "io_open_err k = None \<and> \<not> io_read_err k \<and> length buffer = 792")
    case True
    define c1 where "c1 = cache_terminate (cache_memcpy buffer)"
    have "wf_cache c1" unfolding c1_def using True by (intro wf_cache_terminate wf_cache_memcpy) simp
    moreover have u: "cache_unpack padded c buffer 792 = Some (792, c1)"
      unfolding c1_def using cache_unpack_eq [OF assms(2), of 792 buffer padded] True by simp
    moreover have "\<exists>st. cache_validate_in ex ctx c1 buffer 792 = Some st"
      using sha1_of_eq [OF assms(1), of "take 772 buffer" 772] True by (simp add: cache_validate_in_def)
    ultimately show ?thesis using True Some by (auto simp: cache_load_in_def Let_def buffer_def)
  next
    case False
    then show ?thesis using Some assms(2) by (auto simp: cache_load_in_def Let_def buffer_def)
  qed
qed (use assms(2) in \<open>simp add: cache_load_in_def\<close>)

lemma fuzz_cache_safe:
  assumes "fs_fds s (fz_fd e) = None" "length (ctx_buffer ctx) = 64" "length (ctx_buffer ctx') = 64" "wf_cache c" "length data < 2 ^ 31"
  shows "\<exists>c'. wf_cache c' \<and> fuzz_cache e regcomp_fails ctx ctx' k nread data s c =
    Some (0, if data = [] \<or> fz_malloc_fails e \<or> fz_fd e = - 1 then s else without s FUZZ_CACHE_FILE, c')"
proof (cases "data = [] \<or> fz_malloc_fails e \<or> fz_fd e = - 1")
  case True
  then show ?thesis using assms(4) sha1_of_eq [OF assms(2,5) refl] by (auto simp: fuzz_cache_def Let_def)
next
  case False
  define s2 where "s2 = fuzz_write (fuzz_create s FUZZ_CACHE_FILE (fz_fd e)) FUZZ_CACHE_FILE (fz_written e) (data @ sha1 data)"
  have rm: "fuzz_remove s2 FUZZ_CACHE_FILE (fz_fd e) = without s FUZZ_CACHE_FILE" unfolding s2_def by (rule fuzz_file_removed [OF assms(1)])
  obtain st c' where "cache_load_in FUZZ_CACHE_FILE is_padded (exists_in_sysfs regcomp_fails) ctx' k nread s2 c = Some (st, c')" "wf_cache c'"
    using cache_load_in_total [OF assms(3,4)] by blast
  moreover have "fuzz_cache e regcomp_fails ctx ctx' k nread data s c =
      (case (if fz_written e \<noteq> int (length data + 20) then Some (0, c)
             else cache_load_in FUZZ_CACHE_FILE is_padded (exists_in_sysfs regcomp_fails) ctx' k nread s2 c) of
         None \<Rightarrow> None | Some (_, c') \<Rightarrow> Some (0, without s FUZZ_CACHE_FILE, c'))"
    unfolding fuzz_cache_def Let_def sha1_of_eq [OF assms(2,5) refl] option.case s2_def [symmetric] rm using False by simp
  ultimately show ?thesis using False assms(4) by auto
qed

lemma fuzz_client_safe: "fuzz_client e utf8 rspbuffer result data = Some 0"
  by (simp add: fuzz_client_def request_process_get_by_def send_and_recv_def split: prod.split)

text \<open>The decoders behind \<open>request_process_get\<close> are never reached, not even with a mock that answers.\<close>

lemma fuzz_client_inverted: "request_convert target = (st, request) \<Longrightarrow> st \<noteq> 0 \<longleftrightarrow> request = ipc_req_inval"
  by (auto simp: request_convert_def split: option.splits if_splits)

lemma fuzz_server_config_valid: "valid_config fuzz_server_config" "0 < nrows fuzz_server_config"
  by (auto simp: fuzz_server_config_def valid_config_def nrows_def row_speed_def)

lemma server_poll_fuzz_safe:
  assumes "length buffer = IPC_MAX_MSG_LENGTH" "pe_newfd e \<noteq> - 1 \<Longrightarrow> fs_fds s (pe_newfd e) = None"
  shows "\<exists>st. server_poll_fuzz (deliver data e) fuzz_sensors s buffer fuzz_server_config = Some (st, s)"
proof -
  have "\<exists>r. server_recv_and_respond (pe_child (deliver data e)) fuzz_sensors buffer fuzz_server_config = Some r"
  proof (cases "se_recv (pe_child e) = Recv_error")
    case True
    then show ?thesis by (simp add: deliver_def server_recv_and_respond_def)
  next
    case False
    then have "se_recv (pe_child (deliver data e)) = Received (hd data)" by (simp add: deliver_def split: recv_result.split)
    from server_cases [OF _ fuzz_server_config_valid _ this, of buffer fuzz_sensors] assms(1) show ?thesis by (auto simp: fuzz_sensors_def)
  qed
  moreover have "pe_newfd e \<noteq> - 1 \<Longrightarrow> s\<lparr>fs_fds := (fs_fds s)(pe_newfd e := None)\<rparr> = s" using assms(2) by (simp add: fun_upd_idem)
  ultimately show ?thesis
    by (auto simp: server_poll_fuzz_def deliver_def Let_def sys_close_def split: poll_result.split)
qed

lemma fuzz_socket_fits:
  "strscpy (replicate 108 NUL) FUZZ_SERVER_SOCKET 108 = Some (14, FUZZ_SERVER_SOCKET @ NUL # replicate 93 NUL)"
  "cstr (FUZZ_SERVER_SOCKET @ NUL # x) = FUZZ_SERVER_SOCKET"
  using strscpy_fits [of FUZZ_SERVER_SOCKET 108 "replicate 108 NUL"] by (simp_all add: FUZZ_SERVER_SOCKET_def cstr_def)

text \<open>Sending leaves one new descriptor, or none.\<close>

lemma sockput_raw_cases:
  assumes "fv_clientfd e \<noteq> - 1 \<Longrightarrow> fs_fds s (fv_clientfd e) = None"
  obtains "sockput_raw e s = Some (- 1, fv_clientfd e, s)"
  | "sockput_raw e s = Some (0, fv_clientfd e, s\<lparr>fs_fds := (fs_fds s)(fv_clientfd e \<mapsto> ''client'')\<rparr>)" "fv_clientfd e \<noteq> - 1"
proof -
  have "fv_clientfd e \<noteq> - 1 \<Longrightarrow> s\<lparr>fs_fds := (fs_fds s)(fv_clientfd e := None)\<rparr> = s" using assms by (simp add: fun_upd_idem)
  then have "sockput_raw e s =
      Some (if fv_clientfd e = - 1 \<or> fv_connect_fails e \<or> fv_send_fails e then (- 1, fv_clientfd e, s)
            else (0, fv_clientfd e, s\<lparr>fs_fds := (fs_fds s)(fv_clientfd e \<mapsto> ''client'')\<rparr>))"
    using fuzz_socket_fits(1) by (simp add: sockput_raw_def Let_def sys_close_def)
  then show thesis using that by (simp split: if_splits)
qed

text \<open>The descriptors that the kernel hands out are distinct and not in use.\<close>

definition fuzz_fresh :: "fuzz_server_env \<Rightarrow> fs \<Rightarrow> bool" where
  "fuzz_fresh e s \<longleftrightarrow>
     (let new = filter (\<lambda>fd. fd \<noteq> - 1) [so_fd (fv_sock e), fv_clientfd e, pe_newfd (fv_poll e)]
      in distinct new \<and> list_all (\<lambda>fd. fs_fds s fd = None) (- 1 # new))"

definition with_server :: "fs \<Rightarrow> int \<Rightarrow> fs" where
  "with_server s fd = s\<lparr>fs_fds := (fs_fds s)(fd \<mapsto> ''socket''), fs_sockets := (fs_sockets s)(FUZZ_SERVER_SOCKET := True)\<rparr>"

lemma without_gone: "\<not> path_exists s path \<Longrightarrow> without s path = s"
  by (simp add: without_def path_exists_def fun_upd_idem)

lemma fuzz_server_init:
  assumes "\<not> path_exists s FUZZ_SERVER_SOCKET" "fs_fds s (so_fd e) = None"
  obtains st where "server_init_at FUZZ_SERVER_SOCKET e s pollfd = Some (st, s, pollfd)" "st \<noteq> 0"
  | "server_init_at FUZZ_SERVER_SOCKET e s pollfd = Some (0, with_server s (so_fd e), so_fd e)" "so_fd e \<noteq> - 1"
proof -
  have undo: "s\<lparr>fs_fds := (fs_fds s)(so_fd e := None)\<rparr> = s" using assms(2) by (simp add: fun_upd_idem)
  have sock: "(fs_sockets s)(FUZZ_SERVER_SOCKET := False) = fs_sockets s" "(fs_files s)(FUZZ_SERVER_SOCKET := None) = fs_files s"
    using assms(1) by (simp_all add: path_exists_def fun_upd_idem)
  show thesis
  proof (cases "so_fd e = - 1 \<or> so_bind_fails e \<or> so_chmod_fails e \<or> so_listen_fails e")
    case True
    then have "server_init_at FUZZ_SERVER_SOCKET e s pollfd = Some (- 1, s, pollfd)"
      using assms(1) undo sock
      by (auto simp: server_init_at_def fuzz_socket_fits Let_def sys_close_def unlink_def put_socket_def path_exists_def)
    then show thesis using that(1) by simp
  next
    case False
    then have "server_init_at FUZZ_SERVER_SOCKET e s pollfd = Some (0, with_server s (so_fd e), so_fd e)"
      using assms(1) by (simp add: server_init_at_def fuzz_socket_fits Let_def put_socket_def path_exists_def with_server_def)
    then show thesis using that(2) False by simp
  qed
qed

lemma fuzz_server_kill:
  assumes "\<not> path_exists s FUZZ_SERVER_SOCKET" "fs_fds s fd = None"
  shows "server_kill_at FUZZ_SERVER_SOCKET (with_server s fd) fd = (0, s)"
  using assms by (simp add: server_kill_at_def sys_close_def unlink_def with_server_def path_exists_def fun_upd_idem)

lemma fuzz_server_session:
  assumes "length buffer = IPC_MAX_MSG_LENGTH" "fuzz_fresh e s" "\<not> path_exists s FUZZ_SERVER_SOCKET" "so_fd (fv_sock e) \<noteq> - 1"
    and s1: "s1 = with_server s (so_fd (fv_sock e))"
  shows "\<exists>put clientfd s2 r s3. sockput_raw e s1 = Some (put, clientfd, s2) \<and>
    (if put = - 1 then Some (0, s2) else server_poll_fuzz (deliver data (fv_poll e)) fuzz_sensors s2 buffer fuzz_server_config) = Some (r, s3) \<and>
    snd (sock_consume_and_close s3 clientfd) = s1"
proof -
  have fresh: "fv_clientfd e \<noteq> - 1 \<Longrightarrow> fs_fds s1 (fv_clientfd e) = None" "fs_fds s1 (- 1) = None"
    and newfd: "pe_newfd (fv_poll e) \<noteq> - 1 \<Longrightarrow> fs_fds s1 (pe_newfd (fv_poll e)) = None \<and> pe_newfd (fv_poll e) \<noteq> fv_clientfd e"
    using assms(2,4) by (auto simp: fuzz_fresh_def Let_def s1 with_server_def split: if_splits)
  then have closed: "fs_fds s1 (fv_clientfd e) = None" by (cases "fv_clientfd e = - 1") auto
  show ?thesis
  proof (cases rule: sockput_raw_cases [of e s1, OF fresh(1)])
    case 2
    then show ?thesis using closed by (auto simp: sock_consume_and_close_def sys_close_def)
  next
    case 3
    define s2 where "s2 = s1\<lparr>fs_fds := (fs_fds s1)(fv_clientfd e \<mapsto> ''client'')\<rparr>"
    have "\<exists>st. server_poll_fuzz (deliver data (fv_poll e)) fuzz_sensors s2 buffer fuzz_server_config = Some (st, s2)"
      using newfd by (intro server_poll_fuzz_safe assms(1)) (auto simp: s2_def)
    moreover have "snd (sock_consume_and_close s2 (fv_clientfd e)) = s1"
      using closed by (simp add: sock_consume_and_close_def sys_close_def s2_def fun_upd_idem)
    ultimately show ?thesis using 3 unfolding s2_def [symmetric] by auto
  qed
qed

lemma fuzz_server_safe:
  assumes "length buffer = IPC_MAX_MSG_LENGTH" "fuzz_fresh e s" "\<not> fs_dirs s FUZZ_SERVER_SOCKET"
  shows "\<exists>s' fd. fuzz_server e buffer data s pollfd = Some (0, s', fd) \<and> (s' = s \<or> s' = without s FUZZ_SERVER_SOCKET)"
proof (cases "data = [] \<or> path_exists s FUZZ_SERVER_SOCKET \<and> (fv_unlink_fails e \<or> fst (unlink s FUZZ_SERVER_SOCKET) = - 1)")
  case True
  then show ?thesis by (auto simp: fuzz_server_def)
next
  case False
  define s0 where "s0 = without s FUZZ_SERVER_SOCKET"
  have s0: "(if path_exists s FUZZ_SERVER_SOCKET then snd (unlink s FUZZ_SERVER_SOCKET) else s) = s0"
    using False without_gone by (auto simp: s0_def without_def unlink_def path_exists_def fun_upd_idem split: if_splits)
  have gone: "\<not> path_exists s0 FUZZ_SERVER_SOCKET" "fs_fds s0 = fs_fds s" using assms(3) by (simp_all add: s0_def without_def path_exists_def)
  then have fresh: "fuzz_fresh e s0" "fs_fds s0 (so_fd (fv_sock e)) = None"
    using assms(2) by (auto simp: fuzz_fresh_def Let_def split: if_splits)
  note eq = fuzz_server_def [of e buffer data s pollfd, unfolded Let_def s0]
  show ?thesis
  proof (cases rule: fuzz_server_init [OF gone(1) fresh(2), of pollfd])
    case (1 st)
    then show ?thesis using False by (simp add: eq s0_def) 
  next
    case 2
    obtain put clientfd s2 r s3 where "sockput_raw e (with_server s0 (so_fd (fv_sock e))) = Some (put, clientfd, s2)"
      "(if put = - 1 then Some (0, s2) else server_poll_fuzz (deliver data (fv_poll e)) fuzz_sensors s2 buffer fuzz_server_config) = Some (r, s3)"
      "snd (sock_consume_and_close s3 clientfd) = with_server s0 (so_fd (fv_sock e))"
      using fuzz_server_session [OF assms(1) fresh(1) gone(1) 2(2) refl] by blast
    moreover obtain r4 s4 where "sock_consume_and_close s3 clientfd = (r4, s4)" by (metis prod.exhaust)
    ultimately show ?thesis using False 2(1) fuzz_server_kill [OF gone(1) fresh(2)] by (simp add: eq s0_def)
  qed
qed

section \<open>Properties\<close>

text \<open>
  C18: no input breaks the program.  For every sequence of bytes (of less than 2 GiB) that a fuzzer supplies, whatever
  the outcome of the system calls, as long as new descriptors are not in use already, each of the four targets returns 0 without undefined behaviour: the parser of
  the configuration, the loader of the cache with a valid digest behind any content, the conversion of requests and
  the server with any request byte.  Afterwards the file or socket that the target made is gone, every
  other file and all descriptors are as before, and the cache is still well formed, so that the next
  input finds the same state.
\<close>

theorem fuzz_targets_safe:
  assumes "fs_fds s (fz_fd e) = None" and "length (ctx_buffer ctx) = 64" and "length (ctx_buffer ctx') = 64" and "wf_cache c"
    and "length data < 2 ^ 31" and "length buffer = IPC_MAX_MSG_LENGTH" and "fuzz_fresh ev s" and "\<not> fs_dirs s FUZZ_SERVER_SOCKET"
  shows "fuzz_config e ce k data s = Some (0, if data = [] \<or> fz_fd e = - 1 then s else without s FUZZ_CONFIG) \<and>
    (\<exists>c'. wf_cache c' \<and> fuzz_cache e regcomp_fails ctx ctx' k nread data s c =
       Some (0, if data = [] \<or> fz_malloc_fails e \<or> fz_fd e = - 1 then s else without s FUZZ_CACHE_FILE, c')) \<and>
    fuzz_client e utf8 rspbuffer result data = Some 0 \<and>
    (\<exists>s' fd. fuzz_server ev buffer data s pollfd = Some (0, s', fd) \<and> (s' = s \<or> s' = without s FUZZ_SERVER_SOCKET))"
  using fuzz_config_safe [OF assms(1), of ce k data] fuzz_cache_safe [OF assms(1-5), of regcomp_fails k nread]
    fuzz_client_safe fuzz_server_safe [OF assms(6-8), of data pollfd] by blast

definition example_fuzz :: fuzz_env where
  "example_fuzz = \<lparr>fz_malloc_fails = False, fz_fd = 3, fz_written = 21\<rparr>"

definition example_fuzz_server :: fuzz_server_env where
  "example_fuzz_server = \<lparr>fv_unlink_fails = False,
     fv_sock = \<lparr>so_fd = 4, so_bind_fails = False, so_chmod_fails = False, so_listen_fails = False\<rparr>,
     fv_clientfd = 5, fv_connect_fails = False, fv_send_fails = False,
     fv_poll = \<lparr>pe_poll = (\<lambda>_. Poll_ready), pe_newfd = 6, pe_fork_fails = False, pe_child = example_request 0 1000\<rparr>\<rparr>"

theorem fuzz_targets_safe_witness:
  "fuzz_config example_fuzz env_ok (io_ok 7) [40] no_files = Some (0, no_files) \<and>
   (\<exists>s' fd. fuzz_server example_fuzz_server (replicate 48 0) [0xff] no_files 0 = Some (0, s', fd))"
proof -
  have f: "fs_fds no_files (fz_fd example_fuzz) = None" "fuzz_fresh example_fuzz_server no_files" "\<not> fs_dirs no_files FUZZ_SERVER_SOCKET"
    by (simp_all add: no_files_def fuzz_fresh_def example_fuzz_server_def)
  have "without no_files FUZZ_CONFIG = no_files" by (rule without_gone) (simp add: path_exists_def no_files_def)
  note safe = fuzz_targets_safe [OF f(1) ctx_any_buffer ctx_any_buffer example_cache_ok(1) _ _ f(2,3)]
  have "fuzz_config example_fuzz env_ok (io_ok 7) [40] no_files = Some (0, no_files)"
    using safe [of "[40]" "replicate 48 0" env_ok "io_ok 7"] \<open>without no_files FUZZ_CONFIG = no_files\<close> by (simp add: example_fuzz_def)
  moreover have "\<exists>s' fd. fuzz_server example_fuzz_server (replicate 48 0) [0xff] no_files 0 = Some (0, s', fd)"
    using safe [of "[0xff]" "replicate 48 0" env_ok "io_ok 7" False 0 False "[]" "[]" 0] by auto
  ultimately show ?thesis ..
qed

end
