(* ===== verification/Configure.thy ===== *)
theory Configure
  imports File Regex
begin

text \<open>
  \<^verbatim>\<open>src/configure/libc.c\<close> and \<^verbatim>\<open>src/configure/main.c\<close>: the program that runs before the build, finds out which C
  library the machine has and writes its name into a file for the Makefile.

  What \<open>popen\<close> and \<open>regcomp\<close> deliver is an argument: the output of \<^verbatim>\<open>ldd --version\<close>, or \<^term>\<open>None\<close> when it
  cannot be started.  \<open>REG_ICASE\<close> compares the characters in lower case; \<open>\s\<close> is \<open>isspace\<close>.
\<close>

section \<open>libc.c\<close>

datatype libc_vendor = libc_vendor_gnu | libc_vendor_musl | libc_vendor_unknown

abbreviation (input) POPEN_BUFSIZE :: nat where "POPEN_BUFSIZE \<equiv> 1024"

definition vendor_index :: "libc_vendor \<Rightarrow> nat" where
  "vendor_index v = (case v of libc_vendor_gnu \<Rightarrow> 0 | libc_vendor_musl \<Rightarrow> 1 | libc_vendor_unknown \<Rightarrow> 2)"

definition libc_vendor_strings :: "string list" where
  "libc_vendor_strings = [''glibc'', ''musl'', ''unknown'']"

record libc_env =
  le_regcomp_fails :: "string \<Rightarrow> bool"
  le_popen :: "string option"

definition regcomp_desc :: "libc_env \<Rightarrow> string \<Rightarrow> int" where
  "regcomp_desc e desc = (if le_regcomp_fails e desc then - 1 else 0)"

text \<open>\<open>GNU\s+libc\<close> and \<open>musl\s+libc\<close> without regard to case.\<close>

definition Icase :: "string \<Rightarrow> item list" where
  "Icase w = map (\<lambda>c. Cls (\<lambda>d. tolower d = tolower c)) w"

definition libc_regex :: "string \<Rightarrow> item list" where
  "libc_regex name = Icase name @ [Plus isspace] @ Icase ''libc''"

text \<open>The loop over the lines of the output.\<close>

function libc_lines :: "string \<Rightarrow> libc_vendor" where
  "libc_lines output =
     (case fgets POPEN_BUFSIZE output of
        None \<Rightarrow> libc_vendor_unknown
      | Some (line, rest) \<Rightarrow>
          if regexec (libc_regex ''GNU'') (cstr line) \<noteq> None then libc_vendor_gnu
          else if regexec (libc_regex ''musl'') (cstr line) \<noteq> None then libc_vendor_musl
          else libc_lines rest)"
  by auto
termination libc_lines
  by (relation "measure length") (auto dest!: fgets_consumes [of 1022, simplified])

declare libc_lines.simps [simp del]

definition libc_get_vendor :: "libc_env \<Rightarrow> libc_vendor" where
  "libc_get_vendor e =
     (let vendor = libc_vendor_unknown in
      if regcomp_desc e ''glibc'' \<noteq> 0 then vendor
      else if regcomp_desc e ''musl'' \<noteq> 0 then vendor
      else case le_popen e of None \<Rightarrow> vendor | Some output \<Rightarrow> libc_lines output)"

section \<open>main.c\<close>

text \<open>The arguments after the name of the program; what is printed reaches the file when \<open>fclose\<close> succeeds.\<close>

definition configure_main :: "libc_env \<Rightarrow> io \<Rightarrow> fs \<Rightarrow> string list \<Rightarrow> int \<times> fs" where
  "configure_main e k s args =
     (case args of
        [] \<Rightarrow> (1, s)
      | path # _ \<Rightarrow>
          let vendor = libc_get_vendor e in
          case fopen k s path Mode_w of
            (Some _, s') \<Rightarrow> (1, s')
          | (None, s') \<Rightarrow>
              let text = ''libc := '' @ libc_vendor_strings ! vendor_index vendor @ [CHR 0x0A];
                  s2 = (if io_close_err k then s' else put_file s' path (bytes text)) in
              (if vendor = libc_vendor_unknown then 1 else 0, s2))"

section \<open>What the expressions match\<close>

definition mentions :: "string \<Rightarrow> string \<Rightarrow> bool" where
  "mentions name line \<longleftrightarrow> (\<exists>before n space l after. line = before @ n @ space @ l @ after \<and>
     strtolower n = strtolower name \<and> space \<noteq> [] \<and> list_all isspace space \<and> strtolower l = ''libc'')"

lemma fits_Icase:
  "(\<exists>ks. fits (Icase w @ re) s ks) \<longleftrightarrow> (\<exists>n t. s = n @ t \<and> strtolower n = strtolower w \<and> (\<exists>ks. fits re t ks))"
proof (induction w arbitrary: s)
  case (Cons c w)
  have "(\<exists>ks. fits (Icase (c # w) @ re) s ks) \<longleftrightarrow>
      (\<exists>d u. s = d # u \<and> tolower d = tolower c \<and> (\<exists>n t. u = n @ t \<and> strtolower n = strtolower w \<and> (\<exists>ks. fits re t ks)))"
    unfolding Cons.IH [symmetric] using fits_Cls [of "\<lambda>d. tolower d = tolower c" "Icase w @ re" s] by (simp add: Icase_def)
  also have "\<dots> \<longleftrightarrow> (\<exists>n t. s = n @ t \<and> strtolower n = strtolower (c # w) \<and> (\<exists>ks. fits re t ks))"
    by (auto simp: strtolower_def Cons_eq_append_conv) (metis append_Cons list.simps(9))+
  finally show ?case .
qed (simp add: Icase_def strtolower_def)

lemma fits_libc_regex:
  "(\<exists>ks. fits (libc_regex name) s ks) \<longleftrightarrow>
     (\<exists>n space l after. s = n @ space @ l @ after \<and> strtolower n = strtolower name \<and> space \<noteq> [] \<and> list_all isspace space \<and>
       strtolower l = ''libc'')"
proof -
  have low: "strtolower ''libc'' = ''libc''" by (simp add: strtolower_def tolower_def)
  have "libc_regex name = Icase name @ Plus isspace # Icase ''libc'' @ []" by (simp add: libc_regex_def)
  moreover have "Ex (fits [] u)" for u by (rule exI [of _ "[]"]) simp
  ultimately show ?thesis by (simp only: fits_Icase fits_Plus low) blast
qed

lemma libc_regex_mentions: "regexec (libc_regex name) s \<noteq> None \<longleftrightarrow> mentions name s"
  unfolding regexec_found fits_libc_regex mentions_def by blast

section \<open>Detection\<close>

lemma mentions_newline:
  assumes "CHR 0x0A \<notin> set (strtolower name)"
  shows "mentions name (line @ [CHR 0x0A]) \<longleftrightarrow> mentions name line"
proof
  assume "mentions name (line @ [CHR 0x0A])"
  then obtain b n sp l a where m: "line @ [CHR 0x0A] = b @ n @ sp @ l @ a" "strtolower n = strtolower name" "sp \<noteq> []"
    "list_all isspace sp" "strtolower l = ''libc''" by (auto simp: mentions_def)
  have "l \<noteq> []" using m(5) by (auto simp: strtolower_def)
  moreover have "CHR 0x0A \<notin> set l"
  proof
    assume "CHR 0x0A \<in> set l"
    then have "tolower (CHR 0x0A) \<in> set (strtolower l)" by (simp add: strtolower_def)
    then show False unfolding m(5) by (simp add: tolower_def)
  qed
  ultimately have "a \<noteq> []" using m(1) by (metis append_Nil2 append_is_Nil_conv last_append last_in_set last_snoc)
  then obtain a' where "a = a' @ [CHR 0x0A]" using m(1) by (metis append_butlast_last_id last_append last_snoc append_is_Nil_conv)
  with m(1) have "line = b @ n @ sp @ l @ a'" by simp
  with m(2-5) show "mentions name line" unfolding mentions_def by blast
next
  assume "mentions name line"
  then show "mentions name (line @ [CHR 0x0A])" unfolding mentions_def by (metis append.assoc)
qed

lemma libc_lines_text:
  assumes "\<forall>l \<in> set ls. CHR 0x0A \<notin> set l \<and> NUL \<notin> set l \<and> length l < 1023"
  shows "libc_lines (concat (map (\<lambda>l. l @ [CHR 0x0A]) ls)) =
    (case find (\<lambda>l. mentions ''GNU'' l \<or> mentions ''musl'' l) ls of
       None \<Rightarrow> libc_vendor_unknown
     | Some l \<Rightarrow> if mentions ''GNU'' l then libc_vendor_gnu else libc_vendor_musl)"
  using assms
proof (induction ls)
  case Nil
  then show ?case by (simp add: libc_lines.simps fgets_def)
next
  case (Cons l ls)
  have "fgets 1024 (l @ CHR 0x0A # concat (map (\<lambda>l. l @ [CHR 0x0A]) ls)) = Some (l @ [CHR 0x0A], concat (map (\<lambda>l. l @ [CHR 0x0A]) ls))"
    using Cons.prems by (intro fgets_whole_line) auto
  moreover have "cstr (l @ [CHR 0x0A]) = l @ [CHR 0x0A]" using Cons.prems by (auto simp: cstr_def takeWhile_eq_all_conv)
  moreover have "mentions name (l @ [CHR 0x0A]) = mentions name l" if "name = ''GNU'' \<or> name = ''musl''" for name
  proof (rule mentions_newline)
    have "strtolower ''GNU'' = ''gnu''" "strtolower ''musl'' = ''musl''" by code_simp+
    then show "CHR 0x0A \<notin> set (strtolower name)" using that by auto
  qed
  ultimately show ?case using Cons by (subst libc_lines.simps) (simp add: libc_regex_mentions del: not_None_eq)
qed

text \<open>
  C40: which C library is found.  For an output of complete lines of fewer than 1023 characters, the
  program writes the name that the first line mentioning one of the two libraries mentions: a
  word, white space and \<open>libc\<close>, in upper or lower case; GNU wins when a line mentions both.  It exits
  with 0 exactly when there is such a line, and then the file holds that name; otherwise it says
  \<open>unknown\<close>.  When the command cannot be run or the file cannot be opened, it exits with 1.
\<close>

theorem configure_detects:
  assumes "\<forall>l \<in> set ls. CHR 0x0A \<notin> set l \<and> NUL \<notin> set l \<and> length l < 1023"
    and "le_regcomp_fails e = (\<lambda>_. False)" and "le_popen e = Some (concat (map (\<lambda>l. l @ [CHR 0x0A]) ls))"
    and "io_open_err k = None" and "\<not> io_close_err k"
    and "name = (case find (\<lambda>l. mentions ''GNU'' l \<or> mentions ''musl'' l) ls of
      None \<Rightarrow> ''unknown'' | Some l \<Rightarrow> if mentions ''GNU'' l then ''glibc'' else ''musl'')"
  shows "configure_main e k s (path # args) =
      (if \<exists>l \<in> set ls. mentions ''GNU'' l \<or> mentions ''musl'' l then 0 else 1,
       put_file s path (bytes (''libc := '' @ name @ [CHR 0x0A]))) \<and>
    fst (configure_main (e\<lparr>le_popen := None\<rparr>) k s (path # args)) = 1 \<and>
    configure_main e (k\<lparr>io_open_err := Some EACCES\<rparr>) s (path # args) = (1, s) \<and> configure_main e k s [] = (1, s)"
proof -
  define v where "v = libc_get_vendor e"
  have v: "v = (case find (\<lambda>l. mentions ''GNU'' l \<or> mentions ''musl'' l) ls of
      None \<Rightarrow> libc_vendor_unknown | Some l \<Rightarrow> if mentions ''GNU'' l then libc_vendor_gnu else libc_vendor_musl)"
    unfolding v_def libc_get_vendor_def regcomp_desc_def using assms(2,3) libc_lines_text [OF assms(1)] by simp
  have "libc_vendor_strings ! vendor_index v = name"
    unfolding v assms(6) by (auto simp: libc_vendor_strings_def vendor_index_def split: option.split)
  moreover have "v = libc_vendor_unknown \<longleftrightarrow> \<not> (\<exists>l \<in> set ls. mentions ''GNU'' l \<or> mentions ''musl'' l)"
  proof (cases "find (\<lambda>l. mentions ''GNU'' l \<or> mentions ''musl'' l) ls")
    case None
    then show ?thesis by (simp add: v) (simp add: find_None_iff)
  next
    case (Some l)
    then have "l \<in> set ls" "mentions ''GNU'' l \<or> mentions ''musl'' l" by (auto simp: find_Some_iff)
    with Some show ?thesis by (auto simp: v)
  qed
  moreover have "libc_get_vendor (e\<lparr>le_popen := None\<rparr>) = libc_vendor_unknown" by (simp add: libc_get_vendor_def)
  ultimately show ?thesis
    using assms(4,5) by (simp add: configure_main_def fopen_def put_file_def Let_def flip: v_def)
qed

definition example_ldd :: libc_env where
  "example_ldd = \<lparr>le_regcomp_fails = (\<lambda>_. False), le_popen = Some (''ldd (GNU libc) 2.33'' @ [CHR 0x0A] @ ''Written by X'' @ [CHR 0x0A])\<rparr>"

theorem configure_detects_witness:
  "configure_main example_ldd (io_ok 3) no_files [''config.mk''] = (0, put_file no_files ''config.mk'' (bytes (''libc := glibc'' @ [CHR 0x0A])))"
proof -
  have "strtolower ''GNU'' = ''gnu''" "strtolower ''libc'' = ''libc''" by code_simp+
  then have m: "mentions ''GNU'' ''ldd (GNU libc) 2.33''" unfolding mentions_def
    by (intro exI [of _ "''ldd (''"] exI [of _ "''GNU''"] exI [of _ "'' ''"] exI [of _ "''libc''"] exI [of _ "'') 2.33''"]) (simp add: isspace_def)
  show ?thesis
    using configure_detects [of "[''ldd (GNU libc) 2.33'', ''Written by X'']" example_ldd "io_ok 3" "''glibc''" no_files "''config.mk''" "[]"] m
    by (simp add: example_ldd_def io_ok_def)
qed

end
