(* ===== verification/Mock.thy ===== *)
theory Mock
  imports Messages
begin

text \<open>
  \<^verbatim>\<open>src/mock\<close>: the functions that test builds replace, and the guard that resets the replacements at the end of
  a block.

  Each module of mocks has static function pointers, null at first.  Together they are a record; \<open>'w\<close> is
  the state of the test, which a replacement may read and change.  The records of the guard are a
  dynamic array of addresses of such pointers; \<open>mg_bytes\<close> is the size of its allocation, \<^term>\<open>None\<close> the null
  pointer.  An access beyond the allocation is \<open>Overrun\<close>, a failing allocation ends the program, and
  calling a function that is not mocked aborts it.
\<close>

section \<open>The guard: mock.c\<close>

datatype 'a mock_outcome = Done 'a | Exit | Overrun | Abort

primrec mock_bind :: "'a mock_outcome \<Rightarrow> ('a \<Rightarrow> 'b mock_outcome) \<Rightarrow> 'b mock_outcome" where
  "mock_bind (Done x) f = f x"
| "mock_bind Exit f = Exit"
| "mock_bind Overrun f = Overrun"
| "mock_bind Abort f = Abort"

text \<open>The addresses of the static pointers.\<close>

datatype mock_ptr = At_is_padded | At_exists_in_sysfs | At_send_and_recv | At_get_speed | At_get_temp | At_write_pwm

abbreviation (input) ADDR_BLOCK_SIZE :: nat where "ADDR_BLOCK_SIZE \<equiv> 32"

text \<open>A pointer, and a pointer with a \<open>size_t\<close>.\<close>

abbreviation (input) sizeof_pointer :: nat where "sizeof_pointer \<equiv> 8"
abbreviation (input) sizeof_mock_record :: nat where "sizeof_mock_record \<equiv> 16"

record mock_record =
  mr_addr :: mock_ptr
  mr_size :: nat

record mock_guard_state =
  mg_records :: "mock_record list"
  mg_bytes :: "nat option"
  mg_addr_cap :: nat
  mg_naddrs :: nat

definition mock_guard_init :: "bool \<Rightarrow> mock_guard_state mock_outcome" where
  "mock_guard_init malloc_fails =
     (if malloc_fails then Exit
      else Done \<lparr>mg_records = [], mg_bytes = Some (ADDR_BLOCK_SIZE * sizeof_mock_record), mg_addr_cap = ADDR_BLOCK_SIZE, mg_naddrs = 0\<rparr>)"

text \<open>The size that is passed to \<open>realloc\<close> is a number of records, not of bytes.\<close>

definition mock_guard_add :: "bool \<Rightarrow> mock_ptr \<Rightarrow> nat \<Rightarrow> mock_guard_state \<Rightarrow> mock_guard_state mock_outcome" where
  "mock_guard_add realloc_fails addr len g =
     (let full = mg_naddrs g \<ge> mg_addr_cap g;
          g1 = (if full then g\<lparr>mg_bytes := Some (2 * mg_addr_cap g), mg_addr_cap := mg_addr_cap g * 2\<rparr> else g) in
      if full \<and> realloc_fails then Exit
      else case mg_bytes g1 of
        None \<Rightarrow> Overrun
      | Some n \<Rightarrow>
          if Suc (mg_naddrs g1) * sizeof_mock_record > n then Overrun
          else Done (g1\<lparr>mg_records := take (mg_naddrs g1) (mg_records g1) @ [\<lparr>mr_addr = addr, mr_size = len\<rparr>],
                        mg_naddrs := Suc (mg_naddrs g1)\<rparr>))"

definition mock_guard_active :: "mock_guard_state \<Rightarrow> bool" where
  "mock_guard_active g \<longleftrightarrow> mg_bytes g \<noteq> None"

section \<open>The static pointers\<close>

record 'w mocks =
  is_padded :: "('w \<Rightarrow> bool \<times> 'w) option"
  exists_in_sysfs :: "(string \<Rightarrow> 'w \<Rightarrow> bool \<times> 'w) option"
  send_and_recv :: "(byte list \<Rightarrow> nat \<Rightarrow> ipc_request \<Rightarrow> 'w \<Rightarrow> (int \<times> byte list) \<times> 'w) option"
  mocked_speed :: "('w \<Rightarrow> int \<times> 'w) option"
  mocked_temp :: "('w \<Rightarrow> int \<times> 'w) option"
  write_pwm :: "(u64 \<Rightarrow> 'w \<Rightarrow> int \<times> 'w) option"

definition no_mocks :: "'w mocks" where
  "no_mocks = \<lparr>is_padded = None, exists_in_sysfs = None, send_and_recv = None, mocked_speed = None, mocked_temp = None, write_pwm = None\<rparr>"

text \<open>The pointer at an address is null.\<close>

primrec unmocked :: "'w mocks \<Rightarrow> mock_ptr \<Rightarrow> bool" where
  "unmocked m At_is_padded \<longleftrightarrow> is_padded m = None"
| "unmocked m At_exists_in_sysfs \<longleftrightarrow> exists_in_sysfs m = None"
| "unmocked m At_send_and_recv \<longleftrightarrow> send_and_recv m = None"
| "unmocked m At_get_speed \<longleftrightarrow> mocked_speed m = None"
| "unmocked m At_get_temp \<longleftrightarrow> mocked_temp m = None"
| "unmocked m At_write_pwm \<longleftrightarrow> write_pwm m = None"

text \<open>\<open>memset\<close> with 0 over a whole pointer.\<close>

primrec clear_pointer :: "mock_ptr \<Rightarrow> 'w mocks \<Rightarrow> 'w mocks" where
  "clear_pointer At_is_padded m = m\<lparr>is_padded := None\<rparr>"
| "clear_pointer At_exists_in_sysfs m = m\<lparr>exists_in_sysfs := None\<rparr>"
| "clear_pointer At_send_and_recv m = m\<lparr>send_and_recv := None\<rparr>"
| "clear_pointer At_get_speed m = m\<lparr>mocked_speed := None\<rparr>"
| "clear_pointer At_get_temp m = m\<lparr>mocked_temp := None\<rparr>"
| "clear_pointer At_write_pwm m = m\<lparr>write_pwm := None\<rparr>"

record 'w mock_state =
  ms_guard :: mock_guard_state
  ms_mocks :: "'w mocks"

text \<open>The loop clears as many bytes as the record says; only whole pointers are ever recorded.\<close>

definition mock_guard_cleanup :: "'w mock_state \<Rightarrow> 'w mock_state mock_outcome" where
  "mock_guard_cleanup s =
     (let g = ms_guard s; records = take (mg_naddrs g) (mg_records g) in
      if list_ex (\<lambda>r. mr_size r \<noteq> sizeof_pointer) records then Overrun
      else Done (s\<lparr>ms_guard := g\<lparr>mg_records := [], mg_bytes := None\<rparr>,
                   ms_mocks := fold (\<lambda>r. clear_pointer (mr_addr r)) records (ms_mocks s)\<rparr>))"

section \<open>The macros: mock.h\<close>

text \<open>\<open>mock_function(mockptr, mock)\<close>; \<open>assign\<close> is the assignment.\<close>

definition mock_function :: "mock_ptr \<Rightarrow> ('w mocks \<Rightarrow> 'w mocks) \<Rightarrow> bool \<Rightarrow> 'w mock_state \<Rightarrow> 'w mock_state mock_outcome" where
  "mock_function mockptr assign realloc_fails s =
     (let s1 = s\<lparr>ms_mocks := assign (ms_mocks s)\<rparr> in
      if mock_guard_active (ms_guard s1)
      then mock_bind (mock_guard_add realloc_fails mockptr sizeof_pointer (ms_guard s1)) (\<lambda>g. Done (s1\<lparr>ms_guard := g\<rparr>))
      else Done s1)"

text \<open>\<open>validate_mock(function, mock)\<close>, followed by the call.\<close>

definition validate_mock :: "'f option \<Rightarrow> ('f \<Rightarrow> 'r) \<Rightarrow> 'r mock_outcome" where
  "validate_mock mock call = (case mock of None \<Rightarrow> Abort | Some f \<Rightarrow> Done (call f))"

text \<open>\<open>mock_guard { body }\<close>, a loop that is run once.\<close>

definition mock_guard :: "bool \<Rightarrow> ('w mock_state \<Rightarrow> 'w mock_state mock_outcome) \<Rightarrow> 'w mock_state \<Rightarrow> 'w mock_state mock_outcome" where
  "mock_guard malloc_fails body s =
     mock_bind (mock_guard_init malloc_fails) (\<lambda>g.
     mock_bind (body (s\<lparr>ms_guard := g\<rparr>)) mock_guard_cleanup)"

section \<open>The modules of mocks\<close>

definition mock_cache_struct_is_padded :: "('w \<Rightarrow> bool \<times> 'w) option \<Rightarrow> bool \<Rightarrow> 'w mock_state \<Rightarrow> 'w mock_state mock_outcome" where
  "mock_cache_struct_is_padded mock = mock_function At_is_padded (\<lambda>m. m\<lparr>is_padded := mock\<rparr>)"

definition mock_cache_file_exists_in_sysfs :: "(string \<Rightarrow> 'w \<Rightarrow> bool \<times> 'w) option \<Rightarrow> bool \<Rightarrow> 'w mock_state \<Rightarrow> 'w mock_state mock_outcome" where
  "mock_cache_file_exists_in_sysfs mock = mock_function At_exists_in_sysfs (\<lambda>m. m\<lparr>exists_in_sysfs := mock\<rparr>)"

definition mocked_cache_struct_is_padded :: "'w mocks \<Rightarrow> 'w \<Rightarrow> (bool \<times> 'w) mock_outcome" where
  "mocked_cache_struct_is_padded m w = validate_mock (is_padded m) (\<lambda>f. f w)"

definition mocked_cache_file_exists_in_sysfs :: "'w mocks \<Rightarrow> string \<Rightarrow> 'w \<Rightarrow> (bool \<times> 'w) mock_outcome" where
  "mocked_cache_file_exists_in_sysfs m path w = validate_mock (exists_in_sysfs m) (\<lambda>f. f path w)"

definition mock_client_send_and_recv ::
    "(byte list \<Rightarrow> nat \<Rightarrow> ipc_request \<Rightarrow> 'w \<Rightarrow> (int \<times> byte list) \<times> 'w) option \<Rightarrow> bool \<Rightarrow> 'w mock_state \<Rightarrow> 'w mock_state mock_outcome" where
  "mock_client_send_and_recv mock = mock_function At_send_and_recv (\<lambda>m. m\<lparr>send_and_recv := mock\<rparr>)"

definition mocked_client_send_and_recv ::
    "'w mocks \<Rightarrow> byte list \<Rightarrow> nat \<Rightarrow> ipc_request \<Rightarrow> 'w \<Rightarrow> ((int \<times> byte list) \<times> 'w) mock_outcome" where
  "mocked_client_send_and_recv m buffer bufsize request w = validate_mock (send_and_recv m) (\<lambda>f. f buffer bufsize request w)"

definition mock_fanctrl_get_speed :: "('w \<Rightarrow> int \<times> 'w) option \<Rightarrow> bool \<Rightarrow> 'w mock_state \<Rightarrow> 'w mock_state mock_outcome" where
  "mock_fanctrl_get_speed mock = mock_function At_get_speed (\<lambda>m. m\<lparr>mocked_speed := mock\<rparr>)"

definition mock_fanctrl_get_temp :: "('w \<Rightarrow> int \<times> 'w) option \<Rightarrow> bool \<Rightarrow> 'w mock_state \<Rightarrow> 'w mock_state mock_outcome" where
  "mock_fanctrl_get_temp mock = mock_function At_get_temp (\<lambda>m. m\<lparr>mocked_temp := mock\<rparr>)"

definition mocked_fanctrl_get_speed :: "'w mocks \<Rightarrow> 'w \<Rightarrow> (int \<times> 'w) mock_outcome" where
  "mocked_fanctrl_get_speed m w = validate_mock (mocked_speed m) (\<lambda>f. f w)"

definition mocked_fanctrl_get_temp :: "'w mocks \<Rightarrow> 'w \<Rightarrow> (int \<times> 'w) mock_outcome" where
  "mocked_fanctrl_get_temp m w = validate_mock (mocked_temp m) (\<lambda>f. f w)"

definition mock_hwmon_write_pwm :: "(u64 \<Rightarrow> 'w \<Rightarrow> int \<times> 'w) option \<Rightarrow> bool \<Rightarrow> 'w mock_state \<Rightarrow> 'w mock_state mock_outcome" where
  "mock_hwmon_write_pwm mock = mock_function At_write_pwm (\<lambda>m. m\<lparr>write_pwm := mock\<rparr>)"

definition mocked_hwmon_write_pwm :: "'w mocks \<Rightarrow> u64 \<Rightarrow> 'w \<Rightarrow> (int \<times> 'w) mock_outcome" where
  "mocked_hwmon_write_pwm m pwm w = validate_mock (write_pwm m) (\<lambda>f. f pwm w)"

lemmas mock_setters = mock_cache_struct_is_padded_def mock_cache_file_exists_in_sysfs_def mock_client_send_and_recv_def
  mock_fanctrl_get_speed_def mock_fanctrl_get_temp_def mock_hwmon_write_pwm_def

lemmas mocked_functions = mocked_cache_struct_is_padded_def mocked_cache_file_exists_in_sysfs_def
  mocked_client_send_and_recv_def mocked_fanctrl_get_speed_def mocked_fanctrl_get_temp_def mocked_hwmon_write_pwm_def

section \<open>What a guard restores\<close>

text \<open>Any sequence of replacements: the pointer and the assignment to it.\<close>

primrec mock_all :: "(mock_ptr \<times> ('w mocks \<Rightarrow> 'w mocks)) list \<Rightarrow> 'w mock_state \<Rightarrow> 'w mock_state mock_outcome" where
  "mock_all [] s = Done s"
| "mock_all (m # ms) s = mock_bind (mock_function (fst m) (snd m) False s) (mock_all ms)"

definition recorded :: "mock_ptr \<Rightarrow> mock_record" where
  "recorded p = \<lparr>mr_addr = p, mr_size = sizeof_pointer\<rparr>"

text \<open>An assignment changes no other pointer: it is undone by clearing the one.\<close>

definition assigns :: "mock_ptr \<Rightarrow> ('w mocks \<Rightarrow> 'w mocks) \<Rightarrow> bool" where
  "assigns p assign \<longleftrightarrow> (\<forall>m. clear_pointer p (assign m) = clear_pointer p m)"

lemma setters_assign [simp]:
  "assigns At_is_padded (\<lambda>m. m\<lparr>is_padded := x1\<rparr>)" "assigns At_exists_in_sysfs (\<lambda>m. m\<lparr>exists_in_sysfs := x2\<rparr>)"
  "assigns At_send_and_recv (\<lambda>m. m\<lparr>send_and_recv := x3\<rparr>)" "assigns At_get_speed (\<lambda>m. m\<lparr>mocked_speed := x4\<rparr>)"
  "assigns At_get_temp (\<lambda>m. m\<lparr>mocked_temp := x5\<rparr>)" "assigns At_write_pwm (\<lambda>m. m\<lparr>write_pwm := x6\<rparr>)"
  by (simp_all add: assigns_def)

lemma clear_pointer_commute: "clear_pointer p (clear_pointer q m) = clear_pointer q (clear_pointer p m)"
  by (cases p; cases q) simp_all

lemma clear_pointer_idem [simp]: "clear_pointer p (clear_pointer p m) = clear_pointer p m"
  by (cases p) simp_all

lemma unmocked_clear: "unmocked (clear_pointer p m) q \<longleftrightarrow> q = p \<or> unmocked m q"
  by (cases p; cases q) simp_all

lemma fold_clear_commute: "fold clear_pointer ps (clear_pointer p m) = clear_pointer p (fold clear_pointer ps m)"
proof (induction ps arbitrary: m)
  case (Cons q ps)
  show ?case unfolding fold_simps clear_pointer_commute [of q p] Cons.IH ..
qed simp

lemma unmocked_fold: "unmocked (fold clear_pointer ps m) q \<longleftrightarrow> q \<in> set ps \<or> unmocked m q"
  by (induction ps arbitrary: m) (auto simp: unmocked_clear)

lemma fold_clear_assigned:
  assumes "list_all (\<lambda>(p, a). assigns p a) ms"
  shows "fold clear_pointer (map fst ms) (fold (\<lambda>(p, a) m. a m) ms m) = fold clear_pointer (map fst ms) m"
  using assms
proof (induction ms arbitrary: m)
  case (Cons pa ms)
  obtain p a where pa: "pa = (p, a)" by (cases pa)
  have "clear_pointer p (a m) = clear_pointer p m" using Cons.prems by (simp add: pa assigns_def)
  with Cons show ?case by (simp add: pa fold_clear_commute) (simp flip: fold_clear_commute)
qed simp

lemma mock_function_room:
  assumes "mg_bytes (ms_guard s) = Some 512" "mg_addr_cap (ms_guard s) = 32"
    "length (mg_records (ms_guard s)) = mg_naddrs (ms_guard s)" "mg_naddrs (ms_guard s) < 32"
  shows "mock_function p a False s = Done (s\<lparr>ms_mocks := a (ms_mocks s),
    ms_guard := (ms_guard s)\<lparr>mg_records := mg_records (ms_guard s) @ [recorded p], mg_naddrs := Suc (mg_naddrs (ms_guard s))\<rparr>\<rparr>)"
  using assms by (simp add: mock_function_def mock_guard_active_def mock_guard_add_def recorded_def Let_def)

lemma mock_all_within:
  assumes "mg_bytes (ms_guard s) = Some 512" "mg_addr_cap (ms_guard s) = 32"
    "length (mg_records (ms_guard s)) = mg_naddrs (ms_guard s)" "mg_naddrs (ms_guard s) + length ms \<le> 32"
  shows "mock_all ms s = Done (s\<lparr>ms_mocks := fold (\<lambda>(p, a) m. a m) ms (ms_mocks s),
    ms_guard := (ms_guard s)\<lparr>mg_records := mg_records (ms_guard s) @ map (\<lambda>m. recorded (fst m)) ms,
      mg_naddrs := mg_naddrs (ms_guard s) + length ms\<rparr>\<rparr>)"
  using assms
proof (induction ms arbitrary: s)
  case (Cons m ms)
  then show ?case by (cases m) (simp add: mock_function_room)
qed simp

lemma mock_all_append: "mock_all (ms @ ns) s = mock_bind (mock_all ms s) (mock_all ns)"
proof (induction ms arbitrary: s)
  case (Cons m ms)
  then show ?case by (cases "mock_function (fst m) (snd m) False s") simp_all
qed simp

lemma fold_recorded: "fold (\<lambda>r. clear_pointer (mr_addr r)) (map (\<lambda>m. recorded (fst m)) ms) x = fold clear_pointer (map fst ms) x"
  by (simp add: fold_map comp_def recorded_def)

text \<open>
  Up to 32 functions can be replaced under one guard.  Afterwards their pointers are null and
  those that were not replaced are as before.  The next replacement makes \<open>realloc\<close>
  shrink the array to 64 bytes, room for four records, and is recorded beyond its end.
\<close>

lemma mock_guard_restores:
  assumes "length ms \<le> 32" and "list_all (\<lambda>(p, a). assigns p a) ms"
  shows "\<exists>s'. mock_guard False (mock_all ms) s = Done s' \<and> ms_mocks s' = fold clear_pointer (map fst ms) (ms_mocks s) \<and>
    \<not> mock_guard_active (ms_guard s') \<and> (\<forall>p. unmocked (ms_mocks s') p \<longleftrightarrow> p \<in> fst ` set ms \<or> unmocked (ms_mocks s) p)"
proof -
  let ?g = "\<lparr>mg_records = [], mg_bytes = Some 512, mg_addr_cap = 32, mg_naddrs = 0\<rparr>"
  have "list_ex (\<lambda>r. mr_size r \<noteq> sizeof_pointer) (map (\<lambda>m. recorded (fst m)) ms) = False"
    by (simp add: list_ex_iff recorded_def)
  with assms show ?thesis
    using mock_all_within [of "s\<lparr>ms_guard := ?g\<rparr>" ms] fold_clear_assigned [OF assms(2), of "ms_mocks s"]
    by (simp add: mock_guard_def mock_guard_init_def mock_guard_cleanup_def mock_guard_active_def Let_def fold_recorded unmocked_fold)
qed

lemma mock_guard_capacity:
  assumes "length ms = 32"
  shows "mock_guard False (mock_all (ms @ [m])) s = Overrun"
proof -
  let ?g = "\<lparr>mg_records = [], mg_bytes = Some 512, mg_addr_cap = 32, mg_naddrs = 0\<rparr>"
  show ?thesis
    using assms mock_all_within [of "s\<lparr>ms_guard := ?g\<rparr>" ms]
    by (simp add: mock_guard_def mock_guard_init_def mock_all_append)
      (simp add: mock_function_def mock_guard_active_def mock_guard_add_def Let_def)
qed

text \<open>Calling a function whose pointer is null ends the test program.\<close>

lemma unmocked_aborts:
  "unmocked m At_is_padded \<Longrightarrow> mocked_cache_struct_is_padded m w = Abort"
  "unmocked m At_exists_in_sysfs \<Longrightarrow> mocked_cache_file_exists_in_sysfs m path w = Abort"
  "unmocked m At_send_and_recv \<Longrightarrow> mocked_client_send_and_recv m buffer bufsize request w = Abort"
  "unmocked m At_get_speed \<Longrightarrow> mocked_fanctrl_get_speed m w = Abort"
  "unmocked m At_get_temp \<Longrightarrow> mocked_fanctrl_get_temp m w = Abort"
  "unmocked m At_write_pwm \<Longrightarrow> mocked_hwmon_write_pwm m v w = Abort"
  by (simp_all add: mocked_functions validate_mock_def)

end
