(* ===== verification/Sha1_Eval.thy ===== *)
theory Sha1_Eval
  imports Sha1 File
begin

text \<open>
  SHA-1 on integers, for evaluation.  The rounds of the standard in theory \<open>Sha1\<close> are written for proofs: the
  schedule is a recursive function that calls itself four times.  Here a block is sixteen integers that
  are shifted from round to round, and the arithmetic is modulo \<open>2\<^sup>3\<^sup>2\<close>.  Both compute the same digest,
  so that the standard can be evaluated on test vectors.
\<close>

unbundle bit_operations_syntax

section \<open>Rounds on integers\<close>

type_synonym int_hash = "int \<times> int \<times> int \<times> int \<times> int"
type_synonym int_state = "int \<times> int \<times> int \<times> int \<times> int \<times> int list"

abbreviation (input) M32 :: int where "M32 \<equiv> 4294967296"

definition rotl1 :: "int \<Rightarrow> int" where "rotl1 x = (x * 2) mod M32 + x div 2147483648"
definition rotl5 :: "int \<Rightarrow> int" where "rotl5 x = (x * 32) mod M32 + x div 134217728"
definition rotl30 :: "int \<Rightarrow> int" where "rotl30 x = (x * 1073741824) mod M32 + x div 4"

definition schedule :: "int list \<Rightarrow> int list" where
  "schedule w = tl w @ [rotl1 (w ! 13 XOR w ! 8 XOR w ! 2 XOR w ! 0)]"

fun round_ch :: "int_state \<Rightarrow> int_state" where
  "round_ch (a, b, c, d, e, w) =
     ((rotl5 a + (d XOR (b AND (c XOR d))) + e + 0x5a827999 + hd w) mod M32, a, rotl30 b, c, d, schedule w)"

fun round_parity :: "int \<Rightarrow> int_state \<Rightarrow> int_state" where
  "round_parity k (a, b, c, d, e, w) = ((rotl5 a + (b XOR c XOR d) + e + k + hd w) mod M32, a, rotl30 b, c, d, schedule w)"

fun round_maj :: "int_state \<Rightarrow> int_state" where
  "round_maj (a, b, c, d, e, w) =
     ((rotl5 a + ((b AND c) XOR (b AND d) XOR (c AND d)) + e + 0x8f1bbcdc + hd w) mod M32, a, rotl30 b, c, d, schedule w)"

definition int_round :: "nat \<Rightarrow> int_state \<Rightarrow> int_state" where
  "int_round t = (if t < 20 then round_ch else if t < 40 then round_parity 0x6ed9eba1
     else if t < 60 then round_maj else round_parity 0xca62c1d6)"

primrec int_rounds :: "(int_state \<Rightarrow> int_state) list \<Rightarrow> int_state \<Rightarrow> int_state" where
  "int_rounds [] s = s"
| "int_rounds (f # fs) s = int_rounds fs (f s)"

definition int_schedule :: "(int_state \<Rightarrow> int_state) list" where
  "int_schedule = replicate 20 round_ch @ replicate 20 (round_parity 0x6ed9eba1) @ replicate 20 round_maj @
     replicate 20 (round_parity 0xca62c1d6)"

fun int_add :: "int_hash \<Rightarrow> int_state \<Rightarrow> int_hash" where
  "int_add (h0, h1, h2, h3, h4) (a, b, c, d, e, w) =
     ((h0 + a) mod M32, (h1 + b) mod M32, (h2 + c) mod M32, (h3 + d) mod M32, (h4 + e) mod M32)"

fun int_compress :: "int_hash \<Rightarrow> int list \<Rightarrow> int_hash" where
  "int_compress (a, b, c, d, e) w = int_add (a, b, c, d, e) (int_rounds int_schedule (a, b, c, d, e, w))"

fun int_words :: "byte list \<Rightarrow> int list" where
  "int_words (a # b # c # d # bs) = (((uint a * 256 + uint b) * 256 + uint c) * 256 + uint d) # int_words bs"
| "int_words _ = []"

fun int_blocks :: "int_hash \<Rightarrow> int list \<Rightarrow> int_hash" where
  "int_blocks h ws = (if length ws < 16 then h else int_blocks (int_compress h (take 16 ws)) (drop 16 ws))"

declare int_blocks.simps [simp del]

section \<open>They compute the rounds of the standard\<close>

fun int_of_hash :: "hash \<Rightarrow> int_hash" where
  "int_of_hash (a, b, c, d, e) = (uint a, uint b, uint c, uint d, uint e)"

fun int_of_state :: "byte list \<Rightarrow> nat \<Rightarrow> hash \<Rightarrow> int_state" where
  "int_of_state M t (a, b, c, d, e) = (uint a, uint b, uint c, uint d, uint e, map (\<lambda>j. uint (fips_W M (t + j))) [0..<16])"

lemma uint_rotl:
  assumes "0 < n" "n < 32"
  shows "uint (word_rotl n (x :: u32)) = (uint x * 2 ^ n) mod 2 ^ 32 + uint x div 2 ^ (32 - n)"
proof -
  let ?u = "uint x"
  have p: "(2 :: int) ^ 32 = 2 ^ n * 2 ^ (32 - n)" using assms by (simp flip: power_add)
  have "take_bit 32 ?u = ?u" by (rule bintr_uint) simp
  then have "take_bit n (drop_bit (32 - n) ?u) = drop_bit (32 - n) ?u" using assms by (simp add: take_bit_drop_bit)
  moreover have "?u mod 2 ^ (32 - n) * 2 ^ n = ?u * 2 ^ n mod 2 ^ 32"
    unfolding p using mult_mod_left [of ?u "2 ^ (32 - n)" "2 ^ n"] by (simp add: mult.commute)
  moreover have "uint (word_rotl n x) = concat_bit n (drop_bit (32 - n) ?u) (take_bit (32 - n) ?u)"
    using assms by transfer (simp add: take_bit_concat_bit_eq take_bit_drop_bit min_def)
  ultimately show ?thesis
    by (simp add: concat_bit_eq take_bit_eq_mod drop_bit_eq_div push_bit_eq_mult)
qed

lemma int_of_rotl:
  "rotl1 (uint x) = uint (word_rotl 1 (x :: u32))" "rotl5 (uint x) = uint (word_rotl 5 x)" "rotl30 (uint x) = uint (word_rotl 30 x)"
  by (simp_all add: uint_rotl rotl1_def rotl5_def rotl30_def)

lemma uint_add: "uint (x + y :: u32) = (uint x + uint y) mod M32"
  by (simp add: uint_word_ariths)

lemma ch_eq: "fips_f t x y z = z XOR (x AND (y XOR z))" if "t < 20"
  using that by (auto simp: fips_f_def bit_simps intro!: bit_word_eqI)

lemma schedule_W:
  "schedule (map (\<lambda>j. uint (fips_W M (t + j))) [0..<16]) = map (\<lambda>j. uint (fips_W M (Suc t + j))) [0..<16]"
proof -
  have W: "fips_W M (t + 16) = word_rotl 1 (fips_W M (t + 13) XOR fips_W M (t + 8) XOR fips_W M (t + 2) XOR fips_W M t)"
    by (subst fips_W.simps) (simp add: add.commute)
  have u: "[0..<16] = [0, 1, 2, 3, 4, 5, 6, 7, 8, 9, 10, 11, 12, 13, 14, 15 :: nat]" by code_simp
  show ?thesis
    using W by (simp add: u schedule_def int_of_rotl numeral_eq_Suc flip: unsigned_xor_eq)
qed

lemma int_round:
  "int_round t (int_of_state M t s) = int_of_state M (Suc t) (fips_round M s t)"
proof -
  obtain a b c d e where s: "s = (a, b, c, d, e)" by (metis prod_cases5)
  have w: "hd (map (\<lambda>j. uint (fips_W M (t + j))) [0..<16]) = uint (fips_W M t)" by (simp add: hd_map)
  show ?thesis
    by (simp add: s int_round_def fips_round_def w schedule_W ch_eq int_of_rotl uint_add fips_K_def mod_simps
        flip: unsigned_xor_eq unsigned_and_eq del: map_map) (simp add: fips_f_def)
qed

lemma int_schedule_rounds: "int_schedule = map int_round [0..<80]"
  by (rule nth_equalityI) (auto simp: int_schedule_def int_round_def nth_append)

lemma int_rounds_foldl: "int_rounds (map int_round [t..<t + n]) (int_of_state M t s) = int_of_state M (t + n) (foldl (fips_round M) s [t..<t + n])"
proof (induction n arbitrary: t s)
  case (Suc n)
  have "[t..<t + Suc n] = t # [Suc t..<Suc t + n]" by (simp add: upt_rec)
  with Suc.IH [of "Suc t"] show ?case by (simp add: int_round)
qed simp

lemma W_block: "map (\<lambda>j. uint (fips_W M (0 + j))) [0..<16] = map (\<lambda>k. uint (fips_word M k)) [0..<16]"
  by (simp add: fips_W.simps)

lemma int_compress_eq: "int_compress (int_of_hash s) (map (\<lambda>k. uint (fips_word M k)) [0..<16]) = int_of_hash (fips_compress s M)"
proof -
  obtain a b c d e where s: "s = (a, b, c, d, e)" by (metis prod_cases5)
  obtain a' b' c' d' e' where r: "foldl (fips_round M) s [0..<80] = (a', b', c', d', e')" by (metis prod_cases5)
  have "int_rounds int_schedule (int_of_state M 0 s) = int_of_state M 80 (a', b', c', d', e')"
    using int_rounds_foldl [of 0 80 M s] r by (simp add: int_schedule_rounds)
  with r show ?thesis by (simp add: s fips_compress_def uint_add flip: W_block)
qed

lemma uint_le_word_Cons:
  assumes "uint (le_word bs :: u32) < 2 ^ 24"
  shows "uint (le_word (b # bs) :: u32) = uint b + 256 * uint (le_word bs :: u32)"
proof -
  let ?w = "le_word bs :: u32"
  have b: "uint b < 2 ^ 8" "0 \<le> uint b" using uint_bounded [of b] by simp_all
  then have "take_bit 8 (uint b) = uint b" by (simp add: take_bit_int_eq_self_iff)
  then have "\<not> bit (uint b) n" if "8 \<le> n" for n using that by (metis bit_take_bit_iff not_less)
  then have "uint b OR push_bit 8 (uint ?w) = uint b + push_bit 8 (uint ?w)"
    by (intro disjunctive_add [symmetric]) (auto simp: bit_push_bit_iff)
  moreover have "take_bit 32 (uint b) = uint b" "take_bit 32 (push_bit 8 (uint ?w)) = push_bit 8 (uint ?w)"
    using b assms by (simp_all add: take_bit_int_eq_self_iff push_bit_eq_mult)
  moreover have "uint (le_word (b # bs) :: u32) = take_bit 32 (uint b) OR take_bit 32 (push_bit 8 (uint ?w))"
    unfolding le_word.simps unsigned_or_eq unsigned_push_bit_eq unsigned_ucast_eq by simp
  ultimately have "uint (le_word (b # bs) :: u32) = uint b + push_bit 8 (uint ?w)" by (simp only:)
  then show ?thesis by (simp only: push_bit_eq_mult) simp
qed

lemma uint_be_word: "uint (be_word [a, b, c, d] :: u32) = ((uint a * 256 + uint b) * 256 + uint c) * 256 + uint d"
proof -
  have l: "uint x < 256" for x :: byte using uint_bounded [of x] by simp
  have 0: "uint (le_word [] :: u32) = 0" by simp
  have 1: "uint (le_word [a] :: u32) = uint a" using uint_le_word_Cons [of "[]" a] by simp
  have 2: "uint (le_word [b, a] :: u32) = uint b + 256 * uint a"
    using uint_le_word_Cons [of "[a]" b] l [of a] unfolding 1 by simp
  have 3: "uint (le_word [c, b, a] :: u32) = uint c + 256 * (uint b + 256 * uint a)"
    using uint_le_word_Cons [of "[b, a]" c] l [of a] l [of b] unfolding 2 by simp
  have "uint (le_word [d, c, b, a] :: u32) = uint d + 256 * (uint c + 256 * (uint b + 256 * uint a))"
    using uint_le_word_Cons [of "[c, b, a]" d] l [of a] l [of b] l [of c] unfolding 3 by simp
  then show ?thesis by (simp add: be_word_def del: le_word.simps)
qed

lemma int_words_nth:
  "int_words M = map (\<lambda>k. uint (fips_word M k)) [0..<length M div 4]"
proof (induction M rule: int_words.induct)
  case (1 a b c d bs)
  have w: "uint (fips_word (a # b # c # d # bs) 0) = ((uint a * 256 + uint b) * 256 + uint c) * 256 + uint d"
    using uint_be_word [of a b c d] by (simp add: fips_word_def numeral_eq_Suc)
  have d: "drop (4 + n) (a # b # c # d # bs) = drop n bs" for n by (simp add: numeral_eq_Suc)
  have "map (\<lambda>k. uint (fips_word (a # b # c # d # bs) k)) [0..<Suc (length bs div 4)] =
      uint (fips_word (a # b # c # d # bs) 0) # map (\<lambda>k. uint (fips_word bs k)) [0..<length bs div 4]"
    by (simp add: upt_conv_Cons fips_word_def d del: upt_Suc flip: map_Suc_upt)
  moreover have "length (a # b # c # d # bs) div 4 = Suc (length bs div 4)" by simp
  ultimately show ?case unfolding int_words.simps 1 by (simp only: w)
qed simp_all

lemma int_blocks_eq:
  assumes "length M mod 4 = 0"
  shows "int_blocks (int_of_hash s) (int_words M) = int_of_hash (fips_blocks s M)"
  using assms
proof (induction "length M" arbitrary: M s rule: less_induct)
  case less
  show ?case
  proof (cases "length M < 64")
    case True
    then show ?thesis by (simp add: int_blocks.simps fips_blocks.simps int_words_nth div_less_iff_less_mult)
  next
    case False
    have "take 16 (int_words M) = map (\<lambda>k. uint (fips_word (take 64 M) k)) [0..<16]"
      using False by (simp add: int_words_nth take_map) (auto simp: fips_word_def drop_take)
    moreover have "drop 16 (int_words M) = int_words (drop 64 M)"
      using False by (intro nth_equalityI) (auto simp: int_words_nth fips_word_def add.commute)
    moreover have "length (drop 64 M) mod 4 = 0" using less.prems False by (simp flip: mod_eq_0_iff_dvd) presburger
    ultimately show ?thesis
      using less.hyps [of "drop 64 M"] False
      by (subst int_blocks.simps, subst fips_blocks.simps) (simp add: int_words_nth int_compress_eq div_less_iff_less_mult)
  qed
qed

section \<open>Evaluation\<close>

text \<open>The two messages of \<^verbatim>\<open>test/sha1_test.c\<close>.\<close>

definition short_input :: string where
  "short_input = ''abcdef''"

definition long_input :: string where
  "long_input =
     ''There is a risk that, when the data to be hashed '' @
     ''is way longer than the block size, the hashing might '' @
     ''fail. While unlikely, this should still be tested in '' @
     ''order to ensure that the implementation is correct. '' @
     ''Who knows, if this isn't tested, the caching might '' @
     ''just not work.''"

lemma sha1_by_int:
  assumes "int_words (fips_pad msg) = ws" "length (fips_pad msg) mod 4 = 0"
    and "int_blocks (0x67452301, 0xefcdab89, 0x98badcfe, 0x10325476, 0xc3d2e1f0) ws = (uint a, uint b, uint c, uint d, uint e)"
  shows "sha1 msg = fips_digest (a, b, c, d, e)"
proof -
  obtain a' b' c' d' e' where s: "fips_blocks fips_init (fips_pad msg) = (a', b', c', d', e')" by (metis prod_cases5)
  have "int_of_hash fips_init = (0x67452301, 0xefcdab89, 0x98badcfe, 0x10325476, 0xc3d2e1f0)" by (simp add: fips_init_def)
  with int_blocks_eq [OF assms(2), of fips_init] assms(1,3) s show ?thesis by (simp add: sha1_def flip: word_uint_eq_iff)
qed

text \<open>The schedule of one block at a time.\<close>

lemma int_blocks_last: "length w = 16 \<Longrightarrow> int_blocks h w = int_compress h w"
  by (simp add: int_blocks.simps)

lemma int_blocks_append: "length w = 16 \<Longrightarrow> int_blocks h (w @ ws) = int_blocks (int_compress h w) ws"
  by (subst int_blocks.simps) simp

lemma short_block0:
  "int_compress (0x67452301, 0xefcdab89, 0x98badcfe, 0x10325476, 0xc3d2e1f0)
     [0x61626364, 0x65668000, 0x0, 0x0, 0x0, 0x0, 0x0, 0x0, 0x0, 0x0, 0x0, 0x0, 0x0, 0x0, 0x0, 0x30] =
   (0x1f8ac10f, 0x23c5b5bc, 0x1167bda8, 0x4b833e5c, 0x057a77d2)"
  by code_simp

lemma short_words:
  "int_words (fips_pad (bytes short_input)) =
     [0x61626364, 0x65668000, 0x0, 0x0, 0x0, 0x0, 0x0, 0x0, 0x0, 0x0, 0x0, 0x0, 0x0, 0x0, 0x0, 0x30]"
  by code_simp

lemma sha1_short: "sha1 (bytes short_input) =
   [0x1f, 0x8a, 0xc1, 0xf, 0x23, 0xc5, 0xb5, 0xbc, 0x11, 0x67, 0xbd, 0xa8, 0x4b, 0x83, 0x3e, 0x5c, 0x5, 0x7a,
      0x77, 0xd2]"
proof -
  have "length (fips_pad (bytes short_input)) mod 4 = 0" by code_simp
  moreover have "int_blocks (0x67452301, 0xefcdab89, 0x98badcfe, 0x10325476, 0xc3d2e1f0)
      (int_words (fips_pad (bytes short_input))) = (0x1f8ac10f, 0x23c5b5bc, 0x1167bda8, 0x4b833e5c, 0x057a77d2)"
    unfolding short_words by (simp add: int_blocks_append int_blocks_last short_block0 del: append_Cons int_compress.simps)
  ultimately have "sha1 (bytes short_input) = fips_digest (0x1f8ac10f, 0x23c5b5bc, 0x1167bda8, 0x4b833e5c, 0x057a77d2)"
    by (intro sha1_by_int [OF refl]) simp_all
  moreover have "fips_digest (0x1f8ac10f, 0x23c5b5bc, 0x1167bda8, 0x4b833e5c, 0x057a77d2) =
     [0x1f, 0x8a, 0xc1, 0xf, 0x23, 0xc5, 0xb5, 0xbc, 0x11, 0x67, 0xbd, 0xa8, 0x4b, 0x83, 0x3e, 0x5c, 0x5, 0x7a,
      0x77, 0xd2]" by code_simp
  ultimately show ?thesis by (rule trans)
qed

lemma long_block0:
  "int_compress (0x67452301, 0xefcdab89, 0x98badcfe, 0x10325476, 0xc3d2e1f0)
     [0x54686572, 0x65206973, 0x20612072, 0x69736b20, 0x74686174, 0x2c207768, 0x656e2074, 0x68652064, 0x61746120,
      0x746f2062, 0x65206861, 0x73686564, 0x20697320, 0x77617920, 0x6c6f6e67, 0x65722074] =
   (0x728425d5, 0x8ced5316, 0xb3f032ca, 0x1f5765e2, 0x9b18f4c1)"
  by code_simp

lemma long_block1:
  "int_compress (0x728425d5, 0x8ced5316, 0xb3f032ca, 0x1f5765e2, 0x9b18f4c1)
     [0x68616e20, 0x74686520, 0x626c6f63, 0x6b207369, 0x7a652c20, 0x74686520, 0x68617368, 0x696e6720, 0x6d696768,
      0x74206661, 0x696c2e20, 0x5768696c, 0x6520756e, 0x6c696b65, 0x6c792c20, 0x74686973] =
   (0x6c2638f4, 0x0a70c882, 0xc8b33395, 0x5669def4, 0x21f2c572)"
  by code_simp

lemma long_block2:
  "int_compress (0x6c2638f4, 0x0a70c882, 0xc8b33395, 0x5669def4, 0x21f2c572)
     [0x2073686f, 0x756c6420, 0x7374696c, 0x6c206265, 0x20746573, 0x74656420, 0x696e206f, 0x72646572, 0x20746f20,
      0x656e7375, 0x72652074, 0x68617420, 0x74686520, 0x696d706c, 0x656d656e, 0x74617469] =
   (0xcf97efd9, 0xea36511e, 0x762bf594, 0xcb91bb8e, 0xfc7322f8)"
  by code_simp

lemma long_block3:
  "int_compress (0xcf97efd9, 0xea36511e, 0x762bf594, 0xcb91bb8e, 0xfc7322f8)
     [0x6f6e2069, 0x7320636f, 0x72726563, 0x742e2057, 0x686f206b, 0x6e6f7773, 0x2c206966, 0x20746869, 0x73206973,
      0x6e277420, 0x74657374, 0x65642c20, 0x74686520, 0x63616368, 0x696e6720, 0x6d696768] =
   (0xca223713, 0xc0406068, 0xe98716bb, 0x878203dc, 0x41399345)"
  by code_simp

lemma long_block4:
  "int_compress (0xca223713, 0xc0406068, 0xe98716bb, 0x878203dc, 0x41399345)
     [0x74206a75, 0x7374206e, 0x6f742077, 0x6f726b2e, 0x80000000, 0x0, 0x0, 0x0, 0x0, 0x0, 0x0, 0x0, 0x0, 0x0, 0x0,
      0x880] =
   (0x0e6dcc8c, 0x49144466, 0xad01de64, 0x836c7753, 0x8b14f493)"
  by code_simp

lemma long_words:
  "int_words (fips_pad (bytes long_input)) =
     [0x54686572, 0x65206973, 0x20612072, 0x69736b20, 0x74686174, 0x2c207768, 0x656e2074, 0x68652064, 0x61746120,
      0x746f2062, 0x65206861, 0x73686564, 0x20697320, 0x77617920, 0x6c6f6e67, 0x65722074] @
     [0x68616e20, 0x74686520, 0x626c6f63, 0x6b207369, 0x7a652c20, 0x74686520, 0x68617368, 0x696e6720, 0x6d696768,
      0x74206661, 0x696c2e20, 0x5768696c, 0x6520756e, 0x6c696b65, 0x6c792c20, 0x74686973] @
     [0x2073686f, 0x756c6420, 0x7374696c, 0x6c206265, 0x20746573, 0x74656420, 0x696e206f, 0x72646572, 0x20746f20,
      0x656e7375, 0x72652074, 0x68617420, 0x74686520, 0x696d706c, 0x656d656e, 0x74617469] @
     [0x6f6e2069, 0x7320636f, 0x72726563, 0x742e2057, 0x686f206b, 0x6e6f7773, 0x2c206966, 0x20746869, 0x73206973,
      0x6e277420, 0x74657374, 0x65642c20, 0x74686520, 0x63616368, 0x696e6720, 0x6d696768] @
     [0x74206a75, 0x7374206e, 0x6f742077, 0x6f726b2e, 0x80000000, 0x0, 0x0, 0x0, 0x0, 0x0, 0x0, 0x0, 0x0, 0x0, 0x0,
      0x880]"
  by code_simp

lemma sha1_long: "sha1 (bytes long_input) =
   [0xe, 0x6d, 0xcc, 0x8c, 0x49, 0x14, 0x44, 0x66, 0xad, 0x1, 0xde, 0x64, 0x83, 0x6c, 0x77, 0x53, 0x8b, 0x14,
      0xf4, 0x93]"
proof -
  have "length (fips_pad (bytes long_input)) mod 4 = 0" by code_simp
  moreover have "int_blocks (0x67452301, 0xefcdab89, 0x98badcfe, 0x10325476, 0xc3d2e1f0)
      (int_words (fips_pad (bytes long_input))) = (0x0e6dcc8c, 0x49144466, 0xad01de64, 0x836c7753, 0x8b14f493)"
    unfolding long_words by (simp add: int_blocks_append int_blocks_last long_block0 long_block1 long_block2 long_block3 long_block4 del: append_Cons int_compress.simps)
  ultimately have "sha1 (bytes long_input) = fips_digest (0x0e6dcc8c, 0x49144466, 0xad01de64, 0x836c7753, 0x8b14f493)"
    by (intro sha1_by_int [OF refl]) simp_all
  moreover have "fips_digest (0x0e6dcc8c, 0x49144466, 0xad01de64, 0x836c7753, 0x8b14f493) =
     [0xe, 0x6d, 0xcc, 0x8c, 0x49, 0x14, 0x44, 0x66, 0xad, 0x1, 0xde, 0x64, 0x83, 0x6c, 0x77, 0x53, 0x8b, 0x14,
      0xf4, 0x93]" by code_simp
  ultimately show ?thesis by (rule trans)
qed

end
