(* ===== verification/Tests.thy ===== *)
theory Tests
  imports Fanctl Mock Sha1_Eval
begin

text \<open>
  \<^verbatim>\<open>src/test\<close>: the test program of the repository, run on the model.  A test is the list of the conditions that it
  asserts, in order; \<^term>\<open>None\<close> is undefined behaviour.  What the tests leave uninitialised is an argument.
\<close>

section \<open>The driver: test.c and test.h\<close>

record test_state =
  failed_assertions :: int
  total_assertions :: int

definition fand_assert :: "bool \<Rightarrow> test_state \<Rightarrow> test_state" where
  "fand_assert condition s =
     (let s1 = s\<lparr>total_assertions := total_assertions s + 1\<rparr> in
      if \<not> condition then s1\<lparr>failed_assertions := failed_assertions s1 + 1\<rparr> else s1)"

type_synonym test = "bool list option"

definition run_test :: "test \<Rightarrow> test_state \<Rightarrow> test_state option" where
  "run_test t s = map_option (\<lambda>conditions. fold fand_assert conditions s) t"

fun run_tests :: "test list \<Rightarrow> test_state \<Rightarrow> test_state option" where
  "run_tests [] s = Some s"
| "run_tests (t # ts) s = (case run_test t s of None \<Rightarrow> None | Some s' \<Rightarrow> run_tests ts s')"

definition test_summary :: "test_state \<Rightarrow> int" where
  "test_summary s = failed_assertions s"

section \<open>SHA-1\<close>

definition short_hash :: "byte list" where
  "short_hash = [0x1f, 0x8a, 0xc1, 0x0f, 0x23, 0xc5, 0xb5, 0xbc, 0x11, 0x67,
     0xbd, 0xa8, 0x4b, 0x83, 0x3e, 0x5c, 0x05, 0x7a, 0x77, 0xd2]"

definition long_hash :: "byte list" where
  "long_hash = [0x0e, 0x6d, 0xcc, 0x8c, 0x49, 0x14, 0x44, 0x66, 0xad, 0x01,
     0xde, 0x64, 0x83, 0x6c, 0x77, 0x53, 0x8b, 0x14, 0xf4, 0x93]"

text \<open>\<open>ctx\<close> and \<open>ctx'\<close> are the context before the first and before the second initialisation.\<close>

definition test_sha1 :: "sha1_ctx \<Rightarrow> sha1_ctx \<Rightarrow> test" where
  "test_sha1 ctx ctx' =
     (case sha1_update (sha1_init ctx) (bytes short_input) (of_nat (length short_input)) of None \<Rightarrow> None | Some c1 \<Rightarrow>
      case sha1_final c1 of None \<Rightarrow> None | Some digest \<Rightarrow>
      case sha1_update (sha1_init ctx') (bytes long_input) (of_nat (length long_input)) of None \<Rightarrow> None | Some c2 \<Rightarrow>
      case sha1_final c2 of None \<Rightarrow> None | Some digest' \<Rightarrow>
      Some [digest = short_hash, digest' = long_hash])"

section \<open>Interpolation\<close>

definition test_lerp :: test where
  "test_lerp =
     Some [lerp 20 30 (float_round (7 / 10)) = Some 27, lerp 20 30 (float_round (1 / 5)) = Some 22,
           lerp 20 30 (float_round (1 / 4)) = Some 23, lerp 20 30 (float_round (11 / 10)) = Some 31]"

text \<open>\<open>fabs(a - b) < EPSILON\<close>.\<close>

definition near :: "rat option \<Rightarrow> rat \<Rightarrow> bool" where
  "near x y = (case x of None \<Rightarrow> False | Some q \<Rightarrow> \<bar>float_round (q - float_round y)\<bar> < 1 / 100000)"

definition test_lerp_inverse :: test where
  "test_lerp_inverse =
     Some [near (lerp_inverse 20 30 25) (1 / 2), near (lerp_inverse 20 30 20) 0,
           near (lerp_inverse 20 30 27) (7 / 10), near (lerp_inverse 20 30 31) (11 / 10)]"

section \<open>Strings\<close>

definition longstr :: string where "longstr = ''String too long to fit in dst''"
definition shortstr :: string where "shortstr = ''String''"

text \<open>Seven letters, which fill a buffer of eight.\<close>

definition pfit :: string where "pfit = replicate 7 CHR ''a''"

definition test_strscpy_result :: "char list \<Rightarrow> test" where
  "test_strscpy_result dst =
     (case strscpy dst shortstr 8 of None \<Rightarrow> None | Some (_, dst1) \<Rightarrow>
      case strscpy dst1 longstr 8 of None \<Rightarrow> None | Some (_, dst2) \<Rightarrow>
      Some [cstr dst1 = shortstr, cstr dst2 = ''String ''])"

definition test_strscpy_return_value :: "char list \<Rightarrow> test" where
  "test_strscpy_return_value dst =
     (case strscpy dst pfit 8 of None \<Rightarrow> None | Some (n1, dst1) \<Rightarrow>
      case strscpy dst1 shortstr 8 of None \<Rightarrow> None | Some (n2, dst2) \<Rightarrow>
      case strscpy dst2 longstr 8 of None \<Rightarrow> None | Some (n3, dst3) \<Rightarrow>
      Some [n1 = int (length pfit), n2 = int (length shortstr), n3 = - E2BIG])"

definition test_strscpy_null_termination :: "char list \<Rightarrow> test" where
  "test_strscpy_null_termination dst =
     (case strscpy (dst[7 := CHR 0x01]) shortstr 8 of None \<Rightarrow> None | Some (_, dst1) \<Rightarrow>
      case strscpy dst1 longstr 8 of None \<Rightarrow> None | Some (_, dst2) \<Rightarrow>
      Some [dst1 ! 7 = CHR 0x01, dst1 ! length shortstr = NUL, dst2 ! 7 = NUL])"

definition test_strsncpy_result :: "char list \<Rightarrow> test" where
  "test_strsncpy_result dst =
     (case strsncpy dst shortstr 8 3 of None \<Rightarrow> None | Some (_, dst1) \<Rightarrow>
      case strsncpy dst1 shortstr 8 32 of None \<Rightarrow> None | Some (_, dst2) \<Rightarrow>
      case strsncpy dst2 longstr 8 32 of None \<Rightarrow> None | Some (_, dst3) \<Rightarrow>
      Some [cstr dst1 = ''Str'', cstr dst2 = shortstr, cstr dst3 = ''String ''])"

definition test_strsncpy_return_value :: "char list \<Rightarrow> test" where
  "test_strsncpy_return_value dst =
     (case strsncpy dst pfit 8 7 of None \<Rightarrow> None | Some (n1, dst1) \<Rightarrow>
      case strsncpy dst1 shortstr 8 (length shortstr) of None \<Rightarrow> None | Some (n2, dst2) \<Rightarrow>
      case strsncpy dst2 longstr 8 8 of None \<Rightarrow> None | Some (n3, dst3) \<Rightarrow>
      case strsncpy dst3 pfit 8 3 of None \<Rightarrow> None | Some (n4, dst4) \<Rightarrow>
      case strsncpy dst4 pfit 8 8 of None \<Rightarrow> None | Some (n5, dst5) \<Rightarrow>
      case strsncpy dst5 longstr 8 9 of None \<Rightarrow> None | Some (n6, dst6) \<Rightarrow>
      Some [n1 = int (length pfit), n2 = int (length shortstr), n3 = - E2BIG, n4 = 3, n5 = - E2BIG, n6 = - E2BIG])"

definition test_strsncpy_null_termination :: "char list \<Rightarrow> test" where
  "test_strsncpy_null_termination dst =
     (case strsncpy (dst[7 := CHR 0x01]) shortstr 8 (length shortstr) of None \<Rightarrow> None | Some (_, dst1) \<Rightarrow>
      case strsncpy dst1 longstr 8 4 of None \<Rightarrow> None | Some (_, dst2) \<Rightarrow>
      case strsncpy dst2 longstr 8 (length longstr) of None \<Rightarrow> None | Some (_, dst3) \<Rightarrow>
      case strsncpy dst3 longstr 8 8 of None \<Rightarrow> None | Some (_, dst4) \<Rightarrow>
      Some [dst1 ! 7 = CHR 0x01, dst1 ! length shortstr = NUL, dst2 ! 4 = NUL, dst3 ! 7 = NUL, dst4 ! 7 = NUL])"

section \<open>Requests\<close>

definition test_request_convert :: test where
  "test_request_convert =
     Some (concat (map (\<lambda>(target, r, req). [fst (request_convert target) = r, snd (request_convert target) = req])
       [(''matrix'', 0, ipc_req_matrix), (''speed'', 0, ipc_req_speed), (''temp'', 0, ipc_req_temp),
        (''temperature'', 0, ipc_req_temp), (''asdf'', - 1, ipc_req_inval)]))"

section \<open>Serialisation\<close>

definition test_packf :: "byte list \<Rightarrow> test" where
  "test_packf buffer =
     (case packf no_objects buffer 32 ''%hhu%hu%lld'' [VWord 28, VWord 32, VWord 212] of None \<Rightarrow> None | Some (n, b) \<Rightarrow>
      Some [n = 1 + 2 + 8, (le_word (take 1 b) :: byte) = 28, (le_word (take 2 (drop 1 b)) :: u16) = 32,
            (212 :: int) \<noteq> 0 \<comment> \<open>an assignment where a comparison was meant\<close>])"

definition test_packf_insufficient_bufsize :: "byte list \<Rightarrow> test" where
  "test_packf_insufficient_bufsize buffer =
     (case packf no_objects buffer 5 ''%hhu%hu%lld'' [VWord 28, VWord 32, VWord 212] of None \<Rightarrow> None | Some (n, _) \<Rightarrow> Some [n < 0])"

definition test_packf_invalid_fmtstring :: "byte list \<Rightarrow> test" where
  "test_packf_invalid_fmtstring buffer =
     (case packf no_objects buffer 32 ''%hhuc%d'' [VWord 28, VWord 33] of None \<Rightarrow> None | Some (n, b) \<Rightarrow>
      case packf no_objects b 32 ''%hhhu'' [VWord 23] of None \<Rightarrow> None | Some (n', _) \<Rightarrow>
      Some [n < 0, n' < 0])"

definition inbuf :: "byte list" where
  "inbuf = [0, 1, 2, 3, 4, 5, 6, 7, 8, 9]"

definition test_packf_repeat :: "byte list \<Rightarrow> test" where
  "test_packf_repeat packbuf =
     (case packf (no_objects(0 := inbuf)) packbuf 32 ''%*hhu%d'' [VWord 10, VPtr 0 0, VWord 30] of None \<Rightarrow> None | Some (n, b) \<Rightarrow>
      Some ([n = 10 + 4] @ map (\<lambda>i. inbuf ! i = b ! i) [0..<10] @ [(le_word (take 4 (drop 10 b)) :: u32) = 30]))"

text \<open>
  The last argument is an \<open>int\<close> where \<open>packf\<close> reads an \<open>unsigned long\<close>: \<open>hi\<close> is the other half of its slot.
\<close>

definition test_unpackf :: "u32 \<Rightarrow> byte list \<Rightarrow> byte list \<Rightarrow> byte list \<Rightarrow> byte list \<Rightarrow> test" where
  "test_unpackf hi hhu hu lu buffer =
     (case packf no_objects buffer 32 ''%hhu%hu%lu'' [VWord 10, VWord 20, VWord (push_bit 32 (ucast hi) OR 30)] of
        None \<Rightarrow> None | Some (n, b) \<Rightarrow>
      case unpackf (no_objects(0 := hhu, 1 := hu, 2 := lu)) b 32 ''%hhu%hu%lu'' [VPtr 0 0, VPtr 1 0, VPtr 2 0] of
        None \<Rightarrow> None | Some (n', m) \<Rightarrow>
      Some [n = 1 + 2 + 8, n' = 1 + 2 + 8, (le_word (m 0) :: byte) = 10, (le_word (m 1) :: u16) = 20, (le_word (m 2) :: u64) = 30])"

text \<open>
  The next two call \<open>packf\<close>, not \<open>unpackf\<close>, with the addresses of three variables: \<open>slot\<close> is what it reads where
  it expects an integer.  The variables cannot change.
\<close>

definition test_unpackf_insufficient_bufsize :: "(nat \<Rightarrow> vararg) \<Rightarrow> test" where
  "test_unpackf_insufficient_bufsize slot =
     (let hhu = 0xff :: byte; hu = 0xff :: u16; lld = 0xff :: u64 in
      case packf no_objects (replicate 5 0) 5 ''%hhu%hu%lld'' [slot 0, slot 1, slot 2] of None \<Rightarrow> None | Some (n, _) \<Rightarrow>
      Some [n < 0, hhu = 0xff, hu = 0xff, lld = 0xff])"

definition test_unpackf_invalid_fmtstring :: "(nat \<Rightarrow> vararg) \<Rightarrow> test" where
  "test_unpackf_invalid_fmtstring slot =
     (let hhu = 0xff :: byte; d = 0xff :: u32 in
      case packf no_objects (replicate 32 0) 32 ''%hhuc%d'' [slot 0, slot 1] of None \<Rightarrow> None | Some (n, b) \<Rightarrow>
      case packf no_objects b 32 ''%hhhu'' [slot 0] of None \<Rightarrow> None | Some (n', _) \<Rightarrow>
      Some [n < 0, n' < 0, hhu = 0xff, d = 0xff])"

definition test_unpackf_repeat :: "byte list \<Rightarrow> byte list \<Rightarrow> byte list \<Rightarrow> test" where
  "test_unpackf_repeat outbuf outd packbuf =
     (case packf (no_objects(0 := inbuf)) packbuf 32 ''%*hhu%d'' [VWord 10, VPtr 0 0, VWord 30] of None \<Rightarrow> None | Some (n, b) \<Rightarrow>
      case unpackf (no_objects(0 := outbuf, 1 := outd)) b 32 ''%*hhu%d'' [VWord 10, VPtr 0 0, VPtr 1 0] of
        None \<Rightarrow> None | Some (n', m) \<Rightarrow>
      Some ([n = 10 + 4, n' = 10 + 4] @ map (\<lambda>i. m 0 ! i = inbuf ! i) [0..<10] @ [(le_word (m 1) :: u32) = 30]))"

section \<open>The controller\<close>

text \<open>The static variables of \<^verbatim>\<open>fanctrl_test.c\<close> and the functions that replace those of the program.\<close>

record test_statics =
  ts_temp :: int
  ts_speed :: int
  ts_pwm :: u64

definition test_get_speed :: "test_statics \<Rightarrow> int \<times> test_statics" where
  "test_get_speed w = (ts_speed w, w)"

definition test_get_temp :: "test_statics \<Rightarrow> int \<times> test_statics" where
  "test_get_temp w = (ts_temp w, w)"

definition test_write_pwm :: "u64 \<Rightarrow> test_statics \<Rightarrow> int \<times> test_statics" where
  "test_write_pwm v w = (0, w\<lparr>ts_pwm := v\<rparr>)"

text \<open>\<open>fanctrl_adjust\<close> as it is linked into the tests; \<^term>\<open>None\<close> also stands for an abort.\<close>

definition linked_adjust :: "'w mocks \<Rightarrow> fanctrl_state \<Rightarrow> 'w \<Rightarrow> (int \<times> fanctrl_state \<times> 'w) option" where
  "linked_adjust m ctrl w =
     (case mocked_fanctrl_get_temp m w of
        Done (temp, w1) \<Rightarrow>
          (let write = (\<lambda>v. mocked_hwmon_write_pwm m v w1) in
           case fanctrl_adjust_with ctrl temp (\<lambda>v. (case write v of Done (r, _) \<Rightarrow> r | _ \<Rightarrow> 0, Some v)) of
             None \<Rightarrow> None
           | Some (r, ctrl', None) \<Rightarrow> Some (r, ctrl', w1)
           | Some (r, ctrl', Some v) \<Rightarrow> (case write v of Done (_, w2) \<Rightarrow> Some (r, ctrl', w2) | _ \<Rightarrow> None))
      | _ \<Rightarrow> None)"

text \<open>A temperature, one adjustment, and the fraction of the largest value that must have been written.\<close>

fun test_adjustments :: "test_statics mocks \<Rightarrow> (int \<times> rat) list \<Rightarrow> fanctrl_state \<times> test_statics \<Rightarrow>
    (bool list \<times> fanctrl_state \<times> test_statics) option" where
  "test_adjustments m [] (ctrl, w) = Some ([], ctrl, w)"
| "test_adjustments m ((temp, share) # rest) (ctrl, w) =
     (case linked_adjust m ctrl (w\<lparr>ts_temp := temp\<rparr>) of
        None \<Rightarrow> None
      | Some (r, ctrl', w') \<Rightarrow>
          map_option (\<lambda>(cs, z). ([r = 0, ts_pwm w' = word_of_int (c_round (float_round (255 * float_round share)))] @ cs, z))
            (test_adjustments m rest (ctrl', w')))"

definition test_fanctrl_body :: "test_statics mocks \<Rightarrow> test_statics \<Rightarrow> test" where
  "test_fanctrl_body m w =
     (case fanctrl_configure fanctrl_initial example_config of (n1, ctrl1) \<Rightarrow>
      case test_adjustments m [(40, 0), (55, 7 / 20), (70, 3 / 4), (58, 1 / 2), (57, 41 / 100)] (ctrl1, w) of
        None \<Rightarrow> None | Some (cs1, ctrl2, w2) \<Rightarrow>
      case fanctrl_configure ctrl2 (example_config\<lparr>cfg_throttle := False\<rparr>) of (n2, ctrl3) \<Rightarrow>
      case test_adjustments m [(45, 1 / 5)] (ctrl3, w2) of
        None \<Rightarrow> None | Some (cs2, _, _) \<Rightarrow>
      Some ([n1 = 0] @ cs1 @ [n2 = 0] @ cs2))"

definition test_fanctrl_mocks :: "test_statics mock_state \<Rightarrow> test_statics mock_state mock_outcome" where
  "test_fanctrl_mocks s =
     mock_bind (mock_fanctrl_get_speed (Some test_get_speed) False s) (\<lambda>s.
     mock_bind (mock_fanctrl_get_temp (Some test_get_temp) False s) (\<lambda>s.
     mock_hwmon_write_pwm (Some test_write_pwm) False s))"

text \<open>The block is run under the guard; afterwards the pointers are what the guard made of them.\<close>

definition test_fanctrl_adjust :: "test_statics mock_state \<Rightarrow> test_statics \<Rightarrow> (bool list \<times> test_statics mock_state) option" where
  "test_fanctrl_adjust s w =
     (case mock_bind (mock_guard_init False) (\<lambda>g. test_fanctrl_mocks (s\<lparr>ms_guard := g\<rparr>)) of
        Done s1 \<Rightarrow>
          (case test_fanctrl_body (ms_mocks s1) w of
             None \<Rightarrow> None
           | Some cs \<Rightarrow> (case mock_guard_cleanup s1 of Done s2 \<Rightarrow> Some (cs, s2) | _ \<Rightarrow> None))
      | _ \<Rightarrow> None)"

section \<open>The mocks\<close>

definition does_abort :: "'a mock_outcome \<Rightarrow> bool" where
  "does_abort call = (case call of Abort \<Rightarrow> True | _ \<Rightarrow> False)"

definition test_validate_mock :: "test_statics mock_state \<Rightarrow> test_statics \<Rightarrow> test" where
  "test_validate_mock s w =
     (case mock_bind (mock_guard_init False) (\<lambda>g. mock_fanctrl_get_speed (Some (\<lambda>w. (0, w))) False (s\<lparr>ms_guard := g\<rparr>)) of
        Done s1 \<Rightarrow>
          (case mock_guard_cleanup s1 of
             Done _ \<Rightarrow> Some [does_abort (mocked_fanctrl_get_speed (ms_mocks s) w), \<not> does_abort (mocked_fanctrl_get_speed (ms_mocks s1) w)]
           | _ \<Rightarrow> None)
      | _ \<Rightarrow> None)"

section \<open>main\<close>

text \<open>What the tests do not initialise.\<close>

record test_junk =
  tj_ctx :: "nat \<Rightarrow> sha1_ctx"
  tj_dst :: "nat \<Rightarrow> char list"
  tj_buffer :: "nat \<Rightarrow> byte list"
  tj_small :: "byte list"
  tj_object :: "nat \<Rightarrow> byte list"
  tj_hi :: u32

definition junk_sizes :: "test_junk \<Rightarrow> bool" where
  "junk_sizes j \<longleftrightarrow> (\<forall>i. length (ctx_buffer (tj_ctx j i)) = 64) \<and> (\<forall>i. length (tj_dst j i) = 8) \<and> (\<forall>i. length (tj_buffer j i) = 32) \<and>
     length (tj_small j) = 5 \<and> length (tj_object j 0) = 1 \<and> length (tj_object j 1) = 2 \<and> length (tj_object j 2) = 8 \<and>
     length (tj_object j 3) = 10 \<and> length (tj_object j 4) = 4"

definition no_guard :: mock_guard_state where
  "no_guard = \<lparr>mg_records = [], mg_bytes = None, mg_addr_cap = 0, mg_naddrs = 0\<rparr>"

definition test_main :: "test_junk \<Rightarrow> (nat \<Rightarrow> vararg) \<Rightarrow> int option" where
  "test_main j slot =
     (let w = \<lparr>ts_temp = - 1, ts_speed = - 1, ts_pwm = 0\<rparr>; s = \<lparr>ms_guard = no_guard, ms_mocks = no_mocks\<rparr> in
      case test_fanctrl_adjust s w of None \<Rightarrow> None | Some (cs, s') \<Rightarrow>
      map_option test_summary (run_tests
        [test_sha1 (tj_ctx j 0) (tj_ctx j 1),
         test_lerp, test_lerp_inverse,
         test_packf (tj_buffer j 0), test_packf_insufficient_bufsize (tj_small j), test_packf_invalid_fmtstring (tj_buffer j 1),
         test_packf_repeat (tj_buffer j 2), test_unpackf (tj_hi j) (tj_object j 0) (tj_object j 1) (tj_object j 2) (tj_buffer j 3),
         test_unpackf_insufficient_bufsize slot, test_unpackf_invalid_fmtstring slot,
         test_unpackf_repeat (tj_object j 3) (tj_object j 4) (tj_buffer j 4),
         Some cs,
         test_strscpy_result (tj_dst j 0), test_strscpy_return_value (tj_dst j 1), test_strscpy_null_termination (tj_dst j 2),
         test_strsncpy_result (tj_dst j 3), test_strsncpy_return_value (tj_dst j 4), test_strsncpy_null_termination (tj_dst j 5),
         test_request_convert,
         test_validate_mock s' w]
        \<lparr>failed_assertions = 0, total_assertions = 0\<rparr>))"

section \<open>Each test\<close>

lemma list_upt: "length xs = n \<Longrightarrow> \<exists>f. xs = map f [0..<n]"
  by (intro exI [of _ "nth xs"]) (simp add: list_eq_iff_nth_eq)

lemma test_strings_upt:
  "test_strscpy_result (map f [0..<8]) = Some [True, True]"
  "test_strscpy_return_value (map f [0..<8]) = Some [True, True, True]"
  "test_strscpy_null_termination (map f [0..<8]) = Some [True, True, True]"
  "test_strsncpy_result (map f [0..<8]) = Some [True, True, True]"
  "test_strsncpy_return_value (map f [0..<8]) = Some [True, True, True, True, True, True]"
  "test_strsncpy_null_termination (map f [0..<8]) = Some [True, True, True, True, True]"
  by code_simp+

lemma test_strings:
  assumes "length dst = 8"
  shows "test_strscpy_result dst = Some [True, True]"
    "test_strscpy_return_value dst = Some [True, True, True]"
    "test_strscpy_null_termination dst = Some [True, True, True]"
    "test_strsncpy_result dst = Some [True, True, True]"
    "test_strsncpy_return_value dst = Some [True, True, True, True, True, True]"
    "test_strsncpy_null_termination dst = Some [True, True, True, True, True]"
  using list_upt [OF assms] test_strings_upt by auto

lemma test_numbers: "test_lerp = Some [True, True, True, True]" "test_lerp_inverse = Some [True, True, True, True]"
  by code_simp+

lemma test_requests: "test_request_convert = Some (replicate 10 True)"
  by code_simp

lemma test_digests:
  assumes "length (ctx_buffer ctx) = 64" "length (ctx_buffer ctx') = 64"
  shows "test_sha1 ctx ctx' = Some [True, True]"
proof -
  have "length short_input < 2 ^ 32 - 64" "length long_input < 2 ^ 32 - 64" by (simp_all add: short_input_def long_input_def)
  then show ?thesis
    using sha1_hash.digest_of_message [OF assms(1), of "bytes short_input"] sha1_hash.digest_of_message [OF assms(2), of "bytes long_input"]
    by (auto simp: test_sha1_def sha1_short sha1_long short_hash_def long_hash_def)
qed

text \<open>The serialisation tests, over the lemmas about formats.\<close>

lemma scalars_packed:
  "packf no_objects buffer 32 ''%hhu%hu%lld'' [VWord 28, VWord 32, VWord 212] =
     Some (11, [28, 32, 0, 212, 0, 0, 0, 0, 0, 0, 0] @ drop 11 buffer)" if "length buffer = 32"
proof -
  let ?its = "[Scalar FMT_HHU 28, Scalar FMT_HU 32, Scalar FMT_LLD 212]"
  have "items_bytes no_objects ?its = [28, 32, 0, 212, 0, 0, 0, 0, 0, 0, 0]" by code_simp
  with packf_items [of ?its no_objects 32 buffer] that show ?thesis by (simp add: overwrite_def)
qed

lemma scalars_overflow:
  "\<exists>b. packf no_objects buffer 5 ''%hhu%hu%lld'' [VWord x, VWord y, VWord z] = Some (- E2BIG, b)" if "length buffer = 5"
  using packf_items_overflow [of "[Scalar FMT_HHU x, Scalar FMT_HU y, Scalar FMT_LLD z]" no_objects 5 buffer] that
  by (simp add: dfa_valsize_def)

lemma invalid_formats:
  assumes "length buffer = 32"
  shows "\<exists>b. packf no_objects buffer 32 ''%hhuc%d'' [VWord x, VWord y] = Some (- 1, b) \<and> length b = 32"
    "packf no_objects buffer 32 ''%hhhu'' args = Some (- 1, buffer)"
proof -
  show "\<exists>b. packf no_objects buffer 32 ''%hhuc%d'' [VWord x, VWord y] = Some (- 1, b) \<and> length b = 32"
    using packf_loop_item [of no_objects "Scalar FMT_HHU x" buffer 32 0 "''c%d''" "[VWord y]"] assms
    by (simp add: packf_def Let_def dfa_valsize_def packf_loop.simps(2) [of _ _ _ _ "CHR ''c''"] c_buffer)
  have "dfa_simulate ''hhhu'' = - 1" by code_simp
  then show "packf no_objects buffer 32 ''%hhhu'' args = Some (- 1, buffer)"
    by (simp add: packf_def packf_loop.simps(2) [of _ _ _ _ "CHR ''%''"] strip_repeat_def packf_source_def valist_strip_integral.simps fmt_switch_def)
qed

lemma array_packed:
  "packf (no_objects(0 := inbuf)) buffer 32 ''%*hhu%d'' [VWord 10, VPtr 0 0, VWord 30] =
     Some (14, inbuf @ [30, 0, 0, 0] @ drop 14 buffer)" if "length buffer = 32"
proof -
  let ?its = "[Array FMT_HHU 10 0 0, Scalar FMT_D 30]"
  have "integral_image FMT_D 30 = [30, 0, 0, 0]" by code_simp
  then have "Serialize.item_ok (no_objects(0 := inbuf)) (Array FMT_HHU 10 0 0)" "items_bytes (no_objects(0 := inbuf)) ?its = inbuf @ [30, 0, 0, 0]"
    by (simp_all add: inbuf_def dfa_valsize_def)
  with packf_items [of ?its "no_objects(0 := inbuf)" 32 buffer] that show ?thesis by (simp add: overwrite_def inbuf_def)
qed

lemma test_packing:
  assumes "length buffer = 32" "length small = 5"
  shows "test_packf buffer = Some [True, True, True, True]" "test_packf_insufficient_bufsize small = Some [True]"
    "test_packf_invalid_fmtstring buffer = Some [True, True]" "test_packf_repeat buffer = Some [True, True, True, True, True, True, True, True, True, True, True, True]"
proof -
  have "[0..<10] = [0, 1, 2, 3, 4, 5, 6, 7, 8, 9 :: nat]" by code_simp
  then show "test_packf_repeat buffer = Some [True, True, True, True, True, True, True, True, True, True, True, True]"
    using assms by (simp add: test_packf_repeat_def array_packed) (simp add: inbuf_def)
  show "test_packf buffer = Some [True, True, True, True]"
    using assms by (simp add: test_packf_def scalars_packed)
  show "test_packf_insufficient_bufsize small = Some [True]"
    using scalars_overflow [OF assms(2), of 28 32 212] by (auto simp: test_packf_insufficient_bufsize_def)
  show "test_packf_invalid_fmtstring buffer = Some [True, True]"
    using invalid_formats(1) [OF assms(1), of 28 33] invalid_formats(2) by (auto simp: test_packf_invalid_fmtstring_def)
qed

lemma test_addresses:
  "test_unpackf_insufficient_bufsize (\<lambda>i. VWord (addr i)) = Some [True, True, True, True]"
  "test_unpackf_invalid_fmtstring (\<lambda>i. VWord (addr i)) = Some [True, True, True, True]"
  "test_unpackf_insufficient_bufsize (\<lambda>i. VPtr i 0) = None"
proof -
  obtain b where "packf no_objects (replicate 5 0) 5 ''%hhu%hu%lld'' [VWord (addr 0), VWord (addr 1), VWord (addr 2)] = Some (- E2BIG, b)"
    using scalars_overflow [of "replicate 5 0" "addr 0" "addr 1" "addr 2"] by auto
  then show "test_unpackf_insufficient_bufsize (\<lambda>i. VWord (addr i)) = Some [True, True, True, True]"
    by (simp only: test_unpackf_insufficient_bufsize_def) simp
  obtain b where "packf no_objects (replicate 32 0) 32 ''%hhuc%d'' [VWord (addr 0), VWord (addr 1)] = Some (- 1, b)" "length b = 32"
    using invalid_formats(1) [of "replicate 32 0" "addr 0" "addr 1"] by auto
  then show "test_unpackf_invalid_fmtstring (\<lambda>i. VWord (addr i)) = Some [True, True, True, True]"
    using invalid_formats(2) [of b "[VWord (addr 0)]"] by (simp only: test_unpackf_invalid_fmtstring_def Let_def option.case prod.case) simp
  have dfa: "dfa_simulate ''hhu%hu%lld'' = 5" using conv_prefix_conv [of FMT_HHU "''hhu%hu%lld''"] by (simp add: dfa_simulate_prefix)
  have args: "strip_repeat ''hhu%hu%lld'' args = Some (1, ''hhu%hu%lld'', args)" for args by (simp add: strip_repeat_def)
  have "packf_source 1 5 (VPtr a b # args) = Strip_undefined" for a b args by (simp add: packf_source_def fmt_switch_def)
  then have "packf no_objects (replicate 5 0) 5 ''%hhu%hu%lld'' [VPtr 0 0, VPtr 1 0, VPtr 2 0] = None"
    by (simp only: packf_def packf_loop.simps(2) args option.case prod.case dfa) simp
  then show "test_unpackf_insufficient_bufsize (\<lambda>i. VPtr i 0) = None" by (simp only: test_unpackf_insufficient_bufsize_def) simp
qed

lemma store_whole: "length (m obj) = length bs \<Longrightarrow> store m obj 0 bs = Some (m(obj := bs))"
  by (simp add: store_def overwrite_def)

lemma low_half_iff: "(push_bit 32 (ucast (hi :: u32)) OR 30 :: u64) = 30 \<longleftrightarrow> hi = 0"
proof
  assume eq: "(push_bit 32 (ucast hi) OR 30 :: u64) = 30"
  have "bit hi n \<longleftrightarrow> False" if "n < 32" for n
  proof -
    have "bit (push_bit 32 (ucast hi) OR 30 :: u64) (n + 32) \<longleftrightarrow> bit (30 :: u64) (n + 32)" by (simp only: eq)
    moreover have "\<not> bit (take_bit 5 (30 :: u64)) (n + 32)" unfolding bit_take_bit_iff by simp
    then have "\<not> bit (30 :: u64) (n + 32)" by simp
    ultimately show ?thesis using that by (simp add: bit_simps)
  qed
  then show "hi = 0" by (intro bit_word_eqI) auto
qed simp

lemma test_unpacking:
  assumes "length buffer = 32" "length hhu = 1" "length hu = 2" "length lu = 8" "length outbuf = 10" "length outd = 4"
  shows "test_unpackf hi hhu hu lu buffer = Some [True, True, True, True, hi = 0]"
    "test_unpackf_repeat outbuf outd buffer =
      Some [True, True, True, True, True, True, True, True, True, True, True, True, True]"
proof -
  let ?w = "push_bit 32 (ucast hi) OR 30 :: u64"
  let ?its = "[Scalar FMT_HHU 10, Scalar FMT_HU 20, Scalar FMT_LU ?w]"
  let ?ds = "[Dest FMT_HHU None 0 0, Dest FMT_HU None 1 0, Dest FMT_LU None 2 0]"
  have i: "le_bytes (Suc 0) (10 :: u64) = [10]" "le_bytes 2 (20 :: u64) = [20, 0]" by code_simp+
  have p: "packf no_objects buffer 32 ''%hhu%hu%lu'' [VWord 10, VWord 20, VWord ?w] =
      Some (11, [10, 20, 0] @ le_bytes 8 ?w @ drop 11 buffer)"
    using packf_items [of ?its no_objects 32 buffer] assms(1)
    by (simp add: overwrite_def i integral_image_le_bytes dfa_valsize_def)
  have u: "unpackf (no_objects(0 := hhu, 1 := hu, 2 := lu)) ([10, 20, 0] @ le_bytes 8 ?w @ drop 11 buffer) 32 ''%hhu%hu%lu''
      [VPtr 0 0, VPtr 1 0, VPtr 2 0] = Some (11, no_objects(0 := [10], 1 := [20, 0], 2 := le_bytes 8 ?w))"
    using unpackf_dests [of ?ds 32 "[10, 20, 0] @ le_bytes 8 ?w @ drop 11 buffer" "no_objects(0 := hhu, 1 := hu, 2 := lu)"] assms
    by (simp add: dfa_valsize_def store_whole fun_upd_twist)
  show "test_unpackf hi hhu hu lu buffer = Some [True, True, True, True, hi = 0]"
    unfolding test_unpackf_def p option.case prod.case u by (simp add: codec8.dec_enc low_half_iff)
  let ?m = "no_objects(0 := outbuf, 1 := outd)"
  have r: "unpackf ?m (inbuf @ [30, 0, 0, 0] @ drop 14 buffer) 32 ''%*hhu%d'' [VWord 10, VPtr 0 0, VPtr 1 0] =
      Some (14, no_objects(0 := inbuf, 1 := [30, 0, 0, 0]))"
    using unpackf_dests [of "[Dest FMT_HHU (Some 10) 0 0, Dest FMT_D None 1 0]" 32 "inbuf @ [30, 0, 0, 0] @ drop 14 buffer" ?m] assms
    by (simp add: dfa_valsize_def store_whole fun_upd_twist inbuf_def)
  have "[0..<10] = [0, 1, 2, 3, 4, 5, 6, 7, 8, 9 :: nat]" by code_simp
  then show "test_unpackf_repeat outbuf outd buffer =
      Some [True, True, True, True, True, True, True, True, True, True, True, True, True]"
    unfolding test_unpackf_repeat_def array_packed [OF assms(1)] option.case prod.case r by (simp add: inbuf_def)
qed

text \<open>The controller tests under their mocks.\<close>

definition test_mocks :: "test_statics mocks" where
  "test_mocks = no_mocks\<lparr>mocked_speed := Some test_get_speed, mocked_temp := Some test_get_temp, write_pwm := Some test_write_pwm\<rparr>"

lemma linked_adjust_mocked:
  "linked_adjust test_mocks ctrl w =
     (case fanctrl_adjust_with ctrl (ts_temp w) (\<lambda>v. (0, Some v)) of
        None \<Rightarrow> None
      | Some (r, ctrl', written) \<Rightarrow> Some (r, ctrl', case written of None \<Rightarrow> w | Some v \<Rightarrow> w\<lparr>ts_pwm := v\<rparr>))"
  by (simp add: linked_adjust_def test_mocks_def mocked_functions validate_mock_def test_get_temp_def test_write_pwm_def
      split: option.split prod.split)

declare test_adjustments.simps(2) [simp del]

lemma adjust_with_eq:
  assumes "loaded cfg s" "matrix_ok cfg" "fs_current_threshold s = cur"
  shows "fanctrl_adjust_with s (int temp) (\<lambda>v. (0, Some v)) =
    Some (0, s\<lparr>fs_current_threshold := next_threshold cfg cur temp\<rparr>, Some (pwm_of (percentage cfg cur temp)))"
proof -
  have "fanctrl_adjust s (int temp * 1000) (\<lambda>_. 0) =
      Some (0, s\<lparr>fs_current_threshold := next_threshold cfg cur temp\<rparr>, Some (pwm_of (percentage cfg cur temp)))"
    using assms by (intro adjust_eq) simp_all
  moreover have "fanctrl_get_temp (int temp * 1000) = int temp" by (simp add: fanctrl_get_temp_def)
  ultimately show ?thesis
    by (auto simp: fanctrl_adjust_unfold hwmon_write_pwm_def Let_def split: if_split_asm option.split_asm prod.split_asm)
qed

text \<open>One step of the test, from a state in which the threshold is \<open>cur\<close> to one in which it is \<open>next\<close>.\<close>

definition at_threshold :: "fand_config \<Rightarrow> int \<Rightarrow> fanctrl_state \<Rightarrow> bool" where
  "at_threshold cfg cur s \<longleftrightarrow> loaded cfg s \<and> fs_current_threshold s = cur"

lemma test_adjustment:
  assumes s: "at_threshold cfg cur s" "matrix_ok cfg"
    and c: "next_threshold cfg cur temp = next" "- 1 \<le> next" "next < int (nrows cfg)"
    and p: "pwm_of (percentage cfg cur temp) = word_of_int (c_round (float_round (255 * float_round share)))"
  shows "\<exists>s' w'. at_threshold cfg next s' \<and> test_adjustments test_mocks ((int temp, share) # rest) (s, w) =
    map_option (\<lambda>(cs, z). ([True, True] @ cs, z)) (test_adjustments test_mocks rest (s', w'))"
proof (intro exI conjI)
  let ?s = "s\<lparr>fs_current_threshold := next\<rparr>" and ?w = "w\<lparr>ts_temp := int temp, ts_pwm := pwm_of (percentage cfg cur temp)\<rparr>"
  show "at_threshold cfg next ?s" using s c by (simp add: at_threshold_def loaded_def)
  show "test_adjustments test_mocks ((int temp, share) # rest) (s, w) =
      map_option (\<lambda>(cs, z). ([True, True] @ cs, z)) (test_adjustments test_mocks rest (?s, ?w))"
    using s c(1) p adjust_with_eq [of cfg s cur temp] by (simp add: at_threshold_def linked_adjust_mocked test_adjustments.simps(2))
qed

lemma example_percentages:
  "snd (curve example_config 55) = 35" "snd (curve example_config 70) = 75" "snd (curve example_config 57) = 41"
proof -
  have "blend 20 50 (fraction 50 60 55) = 35" "blend 50 100 (fraction 60 80 70) = 75" "blend 20 50 (fraction 50 60 57) = 41"
    unfolding blend_def fraction_def by (simp, code_simp)+
  then show "snd (curve example_config 55) = 35" "snd (curve example_config 70) = 75" "snd (curve example_config 57) = 41"
    by (simp_all add: curve_def interval_of_def speed_at_def numeral_2_eq_2)
qed

lemma expected_values:
  "c_round (float_round (255 * float_round (7 / 20))) = 89" "c_round (float_round (255 * float_round (3 / 4))) = 191"
  "c_round (float_round (255 * float_round (1 / 2))) = 128" "c_round (float_round (255 * float_round (41 / 100))) = 105"
  "c_round (float_round (255 * float_round (1 / 5))) = 51" "c_round (float_round (255 * float_round 0)) = 0"
  by code_simp+

lemma example_steps:
  "next_threshold example_config (- 1) 40 = - 1" "pwm_of (percentage example_config (- 1) 40) = 0"
  "next_threshold example_config (- 1) 55 = 0" "pwm_of (percentage example_config (- 1) 55) = 89"
  "next_threshold example_config 0 70 = 1" "pwm_of (percentage example_config 0 70) = 191"
  "next_threshold example_config 1 58 = 1" "pwm_of (percentage example_config 1 58) = 128"
  "next_threshold example_config 1 57 = 0" "pwm_of (percentage example_config 1 57) = 105"
proof -
  have "fst (curve example_config 55) = 0" "fst (curve example_config 70) = 1" "fst (curve example_config 58) = 0"
    "fst (curve example_config 57) = 0" "curve example_config 40 = (- 1, 0)"
    by (simp_all add: curve_def interval_of_def numeral_2_eq_2) (simp add: example_config_def)
  note c = this example_percentages
  show "next_threshold example_config (- 1) 40 = - 1" "pwm_of (percentage example_config (- 1) 40) = 0"
    "next_threshold example_config (- 1) 55 = 0" "pwm_of (percentage example_config (- 1) 55) = 89"
    "next_threshold example_config 0 70 = 1" "pwm_of (percentage example_config 0 70) = 191"
    "next_threshold example_config 1 58 = 1" "pwm_of (percentage example_config 1 58) = 128"
    "next_threshold example_config 1 57 = 0" "pwm_of (percentage example_config 1 57) = 105"
    by (simp_all add: next_threshold_def percentage_def held_def c pwm_of_def)
qed

text \<open>Without throttling the fan has the first speed below the first row.\<close>

lemma unthrottled_step:
  "matrix_ok (example_config\<lparr>cfg_throttle := False\<rparr>)" "nrows (example_config\<lparr>cfg_throttle := False\<rparr>) = 3"
  "next_threshold (example_config\<lparr>cfg_throttle := False\<rparr>) (- 1) 45 = - 1"
  "pwm_of (percentage (example_config\<lparr>cfg_throttle := False\<rparr>) (- 1) 45) = 51"
proof -
  let ?n = "example_config\<lparr>cfg_throttle := False\<rparr>"
  have r: "row_temp ?n = row_temp example_config" "row_speed ?n = row_speed example_config" "nrows ?n = nrows example_config"
    by (simp_all add: fun_eq_iff row_temp_def row_speed_def nrows_def)
  show "matrix_ok ?n" using example_ok(1) by (simp add: matrix_ok_def r)
  show "nrows ?n = 3" by (simp add: r)
  have "curve ?n 45 = (- 1, 20)" by (simp add: curve_def r)
  then show "next_threshold ?n (- 1) 45 = - 1" "pwm_of (percentage ?n (- 1) 45) = 51"
    by (simp_all add: next_threshold_def percentage_def held_def pwm_of_def)
qed

lemma test_controller: "test_fanctrl_body test_mocks w = Some (replicate 14 True)"
proof -
  let ?c = "example_config" and ?n = "example_config\<lparr>cfg_throttle := False\<rparr>"
  note step = test_adjustment [OF _ example_ok(1)] and facts = example_steps expected_values unthrottled_step
  obtain s0 where s0: "fanctrl_configure fanctrl_initial ?c = (0, s0)" "at_threshold ?c (- 1) s0"
    using configure_loads [of fanctrl_initial ?c] by (cases "fanctrl_configure fanctrl_initial ?c") (simp add: fanctrl_initial_def at_threshold_def)
  let ?rest = "[(55, 7 / 20), (70, 3 / 4), (58, 1 / 2), (57, 41 / 100)]"
  obtain s1 w1 where 1: "at_threshold ?c (- 1) s1" "test_adjustments test_mocks ((40, 0) # ?rest) (s0, w) =
      map_option (\<lambda>(cs, z). ([True, True] @ cs, z)) (test_adjustments test_mocks ?rest (s1, w1))"
    using step [OF s0(2), of 40 "- 1" 0 ?rest w] by (auto simp: facts)
  obtain s2 w2 where 2: "at_threshold ?c 0 s2" "test_adjustments test_mocks ?rest (s1, w1) =
      map_option (\<lambda>(cs, z). ([True, True] @ cs, z)) (test_adjustments test_mocks (tl ?rest) (s2, w2))"
    using step [OF 1(1), of 55 0 "7 / 20" "tl ?rest" w1] by (auto simp: facts)
  obtain s3 w3 where 3: "at_threshold ?c 1 s3" "test_adjustments test_mocks (tl ?rest) (s2, w2) =
      map_option (\<lambda>(cs, z). ([True, True] @ cs, z)) (test_adjustments test_mocks (tl (tl ?rest)) (s3, w3))"
    using step [OF 2(1), of 70 1 "3 / 4" "tl (tl ?rest)" w2] by (auto simp: facts)
  obtain s4 w4 where 4: "at_threshold ?c 1 s4" "test_adjustments test_mocks (tl (tl ?rest)) (s3, w3) =
      map_option (\<lambda>(cs, z). ([True, True] @ cs, z)) (test_adjustments test_mocks [(57, 41 / 100)] (s4, w4))"
    using step [OF 3(1), of 58 1 "1 / 2" "[(57, 41 / 100)]" w3] by (auto simp: facts)
  obtain s5 w5 where 5: "at_threshold ?c 0 s5" "test_adjustments test_mocks [(57, 41 / 100)] (s4, w4) =
      map_option (\<lambda>(cs, z). ([True, True] @ cs, z)) (test_adjustments test_mocks [] (s5, w5))"
    using step [OF 4(1), of 57 0 "41 / 100" "[]" w4] by (auto simp: facts)
  obtain s6 where s6: "fanctrl_configure s5 ?n = (0, s6)" "at_threshold ?n (- 1) s6"
    using configure_loads [of s5 ?n] 5(1)
    by (cases "fanctrl_configure s5 ?n") (auto simp: facts at_threshold_def loaded_def)
  obtain s7 w7 where 7: "test_adjustments test_mocks [(45, 1 / 5)] (s6, w5) =
      map_option (\<lambda>(cs, z). ([True, True] @ cs, z)) (test_adjustments test_mocks [] (s7, w7))"
    using test_adjustment [OF s6(2) unthrottled_step(1), of 45 "- 1" "1 / 5" "[]" w5] by (auto simp: facts)
  show ?thesis
    using 1(2) 2(2) 3(2) 4(2) 5(2) 7 by (simp add: test_fanctrl_body_def s0(1) s6(1) numeral_eq_Suc)
qed

lemma test_mocking:
  "test_fanctrl_adjust \<lparr>ms_guard = no_guard, ms_mocks = no_mocks\<rparr> w =
     map_option (\<lambda>cs. (cs, \<lparr>ms_guard = \<lparr>mg_records = [], mg_bytes = None, mg_addr_cap = 32, mg_naddrs = 3\<rparr>, ms_mocks = no_mocks\<rparr>))
       (test_fanctrl_body test_mocks w)"
  "test_validate_mock \<lparr>ms_guard = g, ms_mocks = no_mocks\<rparr> w = Some [True, True]"
  by (simp_all add: test_fanctrl_adjust_def test_validate_mock_def test_fanctrl_mocks_def mock_setters mock_guard_init_def
      mock_function_def mock_guard_active_def mock_guard_add_def mock_guard_cleanup_def does_abort_def mocked_functions
      validate_mock_def no_mocks_def test_mocks_def Let_def split: option.split)

section \<open>The program\<close>

lemma run_tests_None: "None \<in> set ts \<Longrightarrow> run_tests ts s = None"
  by (induction ts arbitrary: s) (auto simp: run_test_def split: option.split)

lemma failed_fold: "failed_assertions (fold fand_assert cs s) = failed_assertions s + int (length (filter Not cs))"
  by (induction cs arbitrary: s) (simp_all add: fand_assert_def Let_def)

lemma run_tests_Some:
  "list_all (\<lambda>t. t \<noteq> None) ts \<Longrightarrow> run_tests ts s = Some (fold fand_assert (concat (map the ts)) s)"
  by (induction ts arbitrary: s) (auto simp: run_test_def)

lemma run_tests_summary:
  "list_all (\<lambda>t. t \<noteq> None) ts \<Longrightarrow>
     map_option test_summary (run_tests ts s) = Some (failed_assertions s + int (length (filter Not (concat (map the ts)))))"
  by (simp add: run_tests_Some failed_fold test_summary_def)

text \<open>
  C20: the test program of the repository, run on the model, fails no assertion, whatever the memory that it leaves
  uninitialised holds, with two reservations.  \<open>test_unpackf\<close> passes an \<open>int\<close> for a conversion that reads an
  \<open>unsigned long\<close>: its last assertion holds only when the other half of the argument happens to be zero.  And
  two tests pass addresses where \<open>packf\<close> reads integers: the assertions hold for all addresses when an
  address is read as an integer, but the calls are undefined.
\<close>

theorem test_program:
  assumes "junk_sizes j"
  shows "test_main j (\<lambda>i. VWord (addr i)) = Some (of_bool (tj_hi j \<noteq> 0)) \<and> test_main j (\<lambda>i. VPtr i 0) = None"
proof -
  have l: "length (ctx_buffer (tj_ctx j i)) = 64" "length (tj_dst j i) = 8" "length (tj_buffer j i) = 32" "length (tj_small j) = 5" for i
    using assms by (simp_all add: junk_sizes_def)
  have o: "length (tj_object j 0) = 1" "length (tj_object j 1) = 2" "length (tj_object j 2) = 8" "length (tj_object j 3) = 10"
      "length (tj_object j 4) = 4"
    using assms by (simp_all add: junk_sizes_def)
  note results = test_digests [OF l(1) l(1)] test_numbers test_packing [OF l(3,4)] test_unpacking [OF l(3) o]
    test_addresses(1,2) test_strings [OF l(2)] test_requests test_controller test_mocking
  have "test_main j (\<lambda>i. VWord (addr i)) = Some (of_bool (tj_hi j \<noteq> 0))"
    unfolding test_main_def Let_def test_mocking(1) test_controller option.map option.case prod.case
    by (subst run_tests_summary) (simp_all add: results del: One_nat_def)
  moreover have "test_main j (\<lambda>i. VPtr i 0) = None"
    unfolding test_main_def Let_def test_mocking(1) test_controller option.map option.case prod.case
    by (subst run_tests_None) (simp_all add: test_addresses(3))
  ultimately show ?thesis ..
qed

definition example_junk :: test_junk where
  "example_junk = \<lparr>tj_ctx = (\<lambda>_. ctx_any), tj_dst = (\<lambda>_. replicate 8 NUL), tj_buffer = (\<lambda>_. replicate 32 0), tj_small = replicate 5 0,
     tj_object = (\<lambda>i. replicate ([1, 2, 8, 10, 4] ! i) 0), tj_hi = 0\<rparr>"

theorem test_program_witness: "test_main example_junk (\<lambda>i. VWord (of_nat i)) = Some 0"
proof -
  have "junk_sizes example_junk" by (simp add: junk_sizes_def example_junk_def ctx_any_buffer)
  from test_program [OF this, of of_nat] show ?thesis by (simp add: example_junk_def)
qed

end
