(* ===== verification/Spec2Isabelle.thy ===== *)
theory Spec2Isabelle
  imports Options Daemon_Spec Daemon_Types Fuzz Configure Tests
begin

text \<open>
  \<^bold>\<open>amdgpu-fand\<close>: a daemon that controls the fan of an AMD graphics card, and its command line client.

  \<^bold>\<open>The program.\<close>  The daemon (\<^verbatim>\<open>src/fand\<close>) reads a configuration file with a matrix of temperatures
  and fan speeds, finds the files of the card in sysfs, takes over the fan and then, in a loop, reads the
  temperature, sets the fan, looks whether the configuration changed, handles pending signals and
  serves one connection on a Unix socket.  The client (\<^verbatim>\<open>src/fanctl\<close>) sends a one-byte request and
  prints the response.  \<^verbatim>\<open>src/common\<close> holds what both use.

  \<^bold>\<open>The theories\<close>, each over those above it:
  \<^item> \<open>Prelude\<close>: integer types of C as words, conversions, little-endian byte images, buffers.
  \<^item> \<open>Strutils\<close> (\<^verbatim>\<open>common/strutils.c\<close>): bounded copies, number parsing, decimal output.
  \<^item> \<open>Format_Dfa\<close>, \<open>Serialize\<close>, \<open>Messages\<close> (\<^verbatim>\<open>common/serialize.c\<close>, \<^verbatim>\<open>common/ipc.c\<close>): the automaton that
    recognises conversions, \<open>packf\<close> and \<open>unpackf\<close> over a store of objects, the messages of the protocol.
  \<^item> \<open>Interpolation\<close> (\<^verbatim>\<open>fand/interpolation.c\<close>): single precision arithmetic as rounding of rationals.
  \<^item> \<open>Fanctrl\<close> (\<^verbatim>\<open>fand/fanctrl.c\<close>): the controller, its static variables as a record; its step
    is written over the functions that test builds replace (\<open>fanctrl_adjust_with\<close>).
  \<^item> \<open>Sha1\<close> (\<^verbatim>\<open>fand/sha1.c\<close>), with \<open>Sha1_Eval\<close> that evaluates it on concrete messages, \<open>File\<close>
    (\<^verbatim>\<open>fand/file.c\<close>, \<^verbatim>\<open>fand/filesystem.c\<close>), \<open>Cache\<close> (\<^verbatim>\<open>fand/cache.c\<close>),
    \<open>Hwmon\<close> (\<^verbatim>\<open>fand/hwmon.c\<close>): files, descriptors and the inotify watch over a model of the
    kernel; the cache of the sysfs paths and its digest; finding and taking over the card.
  \<^item> \<open>Regex\<close>, \<open>Config\<close> (\<^verbatim>\<open>common/regutils.c\<close>, \<^verbatim>\<open>fand/config.c\<close>): the matching rule of POSIX for the
    expressions that occur, and the parser.
  \<^item> \<open>Drm\<close> (\<^verbatim>\<open>fand/drm.c\<close> and the functions of \<^verbatim>\<open>fand/fanctrl.c\<close> that depend on it): access to the sensors, in
    the build with libdrm and in the one without; \<open>Server\<close> and \<open>Daemon\<close> are written for both.
  \<^item> \<open>Server\<close> (\<^verbatim>\<open>fand/server.c\<close>), \<open>Pidfile\<close> (\<^verbatim>\<open>fand/pidfile.c\<close>), \<open>Fanctl\<close> (\<^verbatim>\<open>fanctl/*.c\<close>).
  \<^item> \<open>Interleaving\<close>: a program interrupted by its environment, with its runs and traces, and the locales for
    invariants and refinements of them.  \<open>Daemon\<close> (\<^verbatim>\<open>fand/daemon.c\<close>, \<^verbatim>\<open>fand/sigutil.c\<close>): start, main loop,
    signals, shutdown; \<open>Daemon_Run\<close>, its runs and what holds of them; \<open>Daemon_Spec\<close>, an abstract fan
    controller that the runs refine; \<open>Daemon_Types\<close>, the types of its state.
  \<^item> \<open>Options\<close> (\<^verbatim>\<open>fand/main.c\<close>, \<^verbatim>\<open>fanctl/main.c\<close>): the options of both programs.
  \<^item> \<open>Configure\<close> (\<^verbatim>\<open>configure/*.c\<close>): the program that finds the C library before the build.
  \<^item> \<open>Fuzz\<close> (\<^verbatim>\<open>fuzz/*/main.c\<close>): the four fuzz targets; \<open>Mock\<close> (\<^verbatim>\<open>mock/*.c\<close>): the guard of the mocks and the mocks;
    \<open>Tests\<close> (\<^verbatim>\<open>test/*.c\<close>): the test cases, their driver and the test program.

  \<^bold>\<open>How the code is modelled.\<close>  One definition per function, with its name.  Static variables and
  structures are records that are passed and returned.  Machine integers are words; values of type
  \<open>int\<close> that cannot wrap are integers.  Fallible functions return the status of the code.  Undefined
  behaviour (a write outside an object, reading an unterminated string, a float conversion out of
  range, a null directory stream) is the result \<^term>\<open>None\<close>, so that a theorem with \<^term>\<open>Some\<close> excludes it.
  What the kernel decides is an argument: which system call fails, which descriptor is returned, how
  many bytes are written, what \<open>recv\<close> delivers, how \<open>realpath\<close> resolves.  Memory that the code reads
  before writing it is an argument as well.  Loops are recursive functions that are proved to
  terminate; only the main loop of the daemon need not end and is a step relation, \<open>pstep\<close> for the calls in
  its body and \<open>istep\<close> for signals, ended children and other processes in between.

  \<^bold>\<open>What is shown.\<close>
  \<^item> The controller: every reading leads to one write in range, the fan follows the interpolated curve up
    to a stated rounding error, monotonically, and hysteresis holds and releases a speed as it should.
  \<^item> Serialisation: packing and unpacking are inverse for every list of items and for every message, never
    leave the buffers, and refuse short or inconsistent messages.
  \<^item> SHA-1: the incremental implementation computes the digest of FIPS 180-4, also evaluated on the messages of the tests.
  \<^item> Cache and card: what was written is read back; only files with a matching digest are used; taking
    over and giving back the fan.
  \<^item> Configuration: the parser is safe on every file, accepts only usable configurations, and a file in
    any layout means its settings.
  \<^item> Server and client: every request is answered, only the administrator can stop the daemon, and what
    the client prints is what the daemon knows.
  \<^item> Daemon: the invariant of the main loop under every interleaving, orderly shutdown, termination after
    a request to stop, what reloading, a relative path and a second instance do; from the text in the file
    of the sensor to the text in the file of the fan; every run is one of the abstract controller; the arrays
    keep their lengths, and indices into them their range, in every state.
  \<^item> Around the program: which C library the configuration finds, and that the fuzz targets meet no
    undefined behaviour and leave nothing behind for the next input; that a guard of the mocks takes
    back what was mocked under it; that the repository's test program fails no assertion on the
    model, with the two reservations that its theorem states.
  Several theorems describe behaviour that was hardly intended: rows with falling speeds, commented rows
  of a matrix, 16 rows, uninitialised memory in \<open>daemon_reload\<close>, in \<open>request_process_exit\<close> and
  in the handling of a SIGCHLD with no child to reap, lost exit requests, a second instance
  that removes the files of the first.

  \<^bold>\<open>Bounds.\<close>  No fuel is used.  Lengths and limits are those of the source: buffers of 48, 128 and 256
  bytes, 16 rows, 128 cards, numbers of at most 15 digits in sysfs files.

  \<^bold>\<open>Not modelled.\<close>  The argp library, which is represented by the calls it makes; the texts that are
  logged or printed by the test driver (the mask and the options of the log are modelled); the macros of the
  preprocessor, except through the code they expand to.
\<close>

end
